(* ===== verification/Gateway_Prelude.thy ===== *)
theory Gateway_Prelude
  imports Main "HOL-Library.Word"
begin

text \<open>
  Shared vocabulary of the development.

  \<^item> Go's \<^verbatim>\<open>int\<close> and \<^verbatim>\<open>int64\<close> are 64-bit two's complement numbers. A value is kept
    as an \<^typ>\<open>int\<close>; every addition or subtraction of the source that can leave the range is
    written with \<open>wrap64\<close>, so that overflow is a behaviour of the model.
  \<^item> A \<^verbatim>\<open>time.Time\<close> is its number of nanoseconds since the Unix epoch (an unbounded
    \<^typ>\<open>int\<close>), a \<^verbatim>\<open>time.Duration\<close> a number of nanoseconds.
  \<^item> A Go map that is only looked up and stored into is a partial function; a Go map that the
    code iterates over is an association list in an arbitrary iteration order.
\<close>

named_theorems gw_defs "definitions unfolded by the component proofs"
named_theorems gw_inv "invariant preservation lemmas"

type_synonym time = int
type_synonym duration = int

section \<open>64-bit integers\<close>

definition wrap64 :: "int \<Rightarrow> int" where
  "wrap64 x = (x + 2 ^ 63) mod 2 ^ 64 - 2 ^ 63"

definition int64 :: "int \<Rightarrow> bool" where
  "int64 x \<longleftrightarrow> - (2 ^ 63) \<le> x \<and> x < 2 ^ 63"

definition maxInt64 :: int where
  "maxInt64 = 2 ^ 63 - 1"

definition minInt64 :: int where
  "minInt64 = - (2 ^ 63)"

text \<open>Go's integer division truncates towards zero.\<close>

definition quot64 :: "int \<Rightarrow> int \<Rightarrow> int" where
  "quot64 a b = wrap64 (sgn a * sgn b * (\<bar>a\<bar> div \<bar>b\<bar>))"

text \<open>\<^verbatim>\<open>t.Sub(u)\<close> saturates at the bounds of a duration.\<close>

definition timeSub :: "time \<Rightarrow> time \<Rightarrow> duration" where
  "timeSub t u = max minInt64 (min maxInt64 (t - u))"

text \<open>\<^verbatim>\<open>time.Time{}\<close> is January 1, year 1.\<close>

definition zeroTime :: time where
  "zeroTime = - (62135596800 * 10 ^ 9)"

definition second :: duration where "second = 10 ^ 9"

definition minute :: duration where "minute = 60 * second"

definition hour :: duration where "hour = 60 * minute"

lemma wrap64_id [simp]: "int64 x \<Longrightarrow> wrap64 x = x"
  by (simp add: int64_def wrap64_def)

lemma int64_wrap64 [simp]: "int64 (wrap64 x)"
proof -
  have "(x + 2 ^ 63) mod 2 ^ 64 < 2 ^ 64" and "0 \<le> (x + 2 ^ 63) mod 2 ^ 64"
    by (simp_all del: power_numeral)
  then show ?thesis
    unfolding int64_def wrap64_def by simp
qed

text \<open>\<open>wrap64\<close> is the addition of 64-bit words, read back as a signed number.\<close>

lemma wrap64_word: "wrap64 (a + b) = sint (word_of_int a + word_of_int b :: 64 word)"
proof -
  have "sint (word_of_int (a + b) :: 64 word) = signed_take_bit 63 (a + b)"
    by (subst sint_sbintrunc') simp
  also have "\<dots> = wrap64 (a + b)"
    by (simp add: wrap64_def signed_take_bit_eq_take_bit_shift take_bit_eq_mod)
  finally show ?thesis by simp
qed

lemma wrap64_overflow: "2 ^ 63 \<le> x \<Longrightarrow> x < 2 ^ 64 \<Longrightarrow> wrap64 x = x - 2 ^ 64"
proof -
  assume "2 ^ 63 \<le> x" and "x < 2 ^ 64"
  then have "(x - 2 ^ 63) mod 2 ^ 64 = x - 2 ^ 63"
    by (intro mod_pos_pos_trivial) simp_all
  moreover have "(x + 2 ^ 63) mod 2 ^ 64 = (x - 2 ^ 63 + 2 ^ 64) mod 2 ^ 64"
    by (simp add: add.commute)
  ultimately show ?thesis
    unfolding wrap64_def by (simp only: mod_add_self2) simp
qed

lemma quot64_pos:
  assumes "0 \<le> a" and "a < 2 ^ 63" and "0 < b"
  shows "quot64 a b = a div b"
proof -
  have "0 \<le> a div b"
    using assms by (simp add: pos_imp_zdiv_nonneg_iff)
  moreover have "a div b \<le> a"
    using assms int_div_less_self [of a b] by (cases "a = 0 \<or> b = 1") auto
  ultimately have "int64 (a div b)"
    using assms by (simp add: int64_def)
  with assms show ?thesis
    by (cases "a = 0") (simp_all add: quot64_def)
qed

lemma timeSub_exact: "0 \<le> t \<Longrightarrow> 0 \<le> u \<Longrightarrow> t < 2 ^ 63 \<Longrightarrow> u < 2 ^ 63 \<Longrightarrow> timeSub t u = t - u"
  by (simp add: timeSub_def maxInt64_def minInt64_def)

lemma div_window_bounds:
  assumes "0 < (w::int)"
  shows "t div w * w \<le> t" and "t < t div w * w + w"
  using assms pos_mod_sign [of w t] pos_mod_bound [of w t] div_mult_mod_eq [of t w] by linarith+

section \<open>Lists and maps\<close>

lemma sum_list_filter_remove1:
  fixes f :: "'a \<Rightarrow> int"
  assumes "x \<in> set xs" and "P x"
  shows "sum_list (map f (filter P (remove1 x xs))) = sum_list (map f (filter P xs)) - f x"
  using assms by (induction xs) auto

lemma filter_remove1_not:
  "\<not> P x \<Longrightarrow> filter P (remove1 x xs) = filter P xs"
  by (induction xs) auto

lemma sum_list_nonneg_member:
  fixes f :: "'a \<Rightarrow> int"
  assumes "x \<in> set xs" and "\<And>y. y \<in> set xs \<Longrightarrow> 0 \<le> f y"
  shows "f x \<le> sum_list (map f xs)"
  using assms by (intro member_le_sum_list) auto

lemmas gw_list_sums = sum_list_filter_remove1 filter_remove1_not

section \<open>Transition systems\<close>

text \<open>
  The stateful components are transition systems: a set of start states and a step relation.
  \<open>reach\<close> are the reachable states. The locale is the contract of an inductive invariant;
  a component interprets it on its own steps and gets the invariant for every reachable state
  and every finite run.
\<close>

inductive reach :: "('s \<Rightarrow> bool) \<Rightarrow> ('s \<Rightarrow> 's \<Rightarrow> bool) \<Rightarrow> 's \<Rightarrow> bool" for start step where
  reach_start: "start s \<Longrightarrow> reach start step s"
| reach_step: "reach start step s \<Longrightarrow> step s t \<Longrightarrow> reach start step t"

fun run_of :: "('s \<Rightarrow> 's \<Rightarrow> bool) \<Rightarrow> 's \<Rightarrow> 's list \<Rightarrow> bool" where
  "run_of step s [] = True"
| "run_of step s (t # ts) = (step s t \<and> run_of step t ts)"

locale invariant_system =
  fixes start :: "'s \<Rightarrow> bool" and step :: "'s \<Rightarrow> 's \<Rightarrow> bool" and inv :: "'s \<Rightarrow> bool"
  assumes inv_start: "start s \<Longrightarrow> inv s"
    and inv_step: "inv s \<Longrightarrow> step s t \<Longrightarrow> inv t"
begin

lemma reach_inv: "reach start step s \<Longrightarrow> inv s"
  by (induction rule: reach.induct) (auto intro: inv_start inv_step)

lemma run_inv: "inv s \<Longrightarrow> run_of step s ts \<Longrightarrow> t \<in> set ts \<Longrightarrow> inv t"
  by (induction ts arbitrary: s) (auto intro: inv_step)

end

lemma reach_run: "reach start step s \<Longrightarrow> run_of step s ts \<Longrightarrow> t \<in> set (s # ts) \<Longrightarrow> reach start step t"
  by (induction ts arbitrary: s) (auto intro: reach_step)

end
