(* ===== verification/Go_Strings.thy ===== *)
theory Go_Strings
  imports Gateway_Prelude
begin

text \<open>
  Go strings and byte slices are \<^typ>\<open>string\<close>s: lists of bytes (\<^typ>\<open>char\<close> has 8 bits).
  The functions below are the ones of Go's packages \<^verbatim>\<open>strings\<close>, \<^verbatim>\<open>unicode/utf8\<close>,
  \<^verbatim>\<open>strconv\<close> and \<^verbatim>\<open>encoding/hex\<close> that the gateway calls, on bytes and with their UTF-8
  behaviour where the gateway can observe it.
\<close>

section \<open>White space\<close>

text \<open>
  \<open>space_len s\<close> is the length of the UTF-8 encoding of a Unicode white-space rune at the
  front of \<open>s\<close>, 0 if there is none: the ASCII ones (tab, newline, vertical tab, form feed,
  carriage return, space), U+0085, U+00A0, U+1680, U+2000 to U+200A, U+2028, U+2029, U+202F,
  U+205F and U+3000. \<open>space_len_rev\<close> does the same at the end of a string, given reversed.
\<close>

definition ascii_space :: "char \<Rightarrow> bool" where
  "ascii_space c \<longleftrightarrow> c = CHR '' '' \<or> c = CHR 0x09 \<or> c = CHR 0x0A \<or> c = CHR 0x0B \<or> c = CHR 0x0C \<or> c = CHR 0x0D"

definition wide_space :: "char \<Rightarrow> char \<Rightarrow> char \<Rightarrow> bool" where
  "wide_space a b c \<longleftrightarrow>
     (a = CHR 0xE1 \<and> b = CHR 0x9A \<and> c = CHR 0x80) \<or>
     (a = CHR 0xE2 \<and> b = CHR 0x80 \<and>
        (c \<in> {CHR 0x80, CHR 0x81, CHR 0x82, CHR 0x83, CHR 0x84, CHR 0x85, CHR 0x86, CHR 0x87,
              CHR 0x88, CHR 0x89, CHR 0x8A, CHR 0xA8, CHR 0xA9, CHR 0xAF})) \<or>
     (a = CHR 0xE2 \<and> b = CHR 0x81 \<and> c = CHR 0x9F) \<or>
     (a = CHR 0xE3 \<and> b = CHR 0x80 \<and> c = CHR 0x80)"

definition narrow_space :: "char \<Rightarrow> char \<Rightarrow> bool" where
  "narrow_space a b \<longleftrightarrow> a = CHR 0xC2 \<and> (b = CHR 0x85 \<or> b = CHR 0xA0)"

fun space_len :: "string \<Rightarrow> nat" where
  "space_len [] = 0"
| "space_len (a # s) =
     (if ascii_space a then 1
      else case s of [] \<Rightarrow> 0
      | b # s' \<Rightarrow> if narrow_space a b then 2
          else case s' of [] \<Rightarrow> 0 | c # _ \<Rightarrow> if wide_space a b c then 3 else 0)"

fun space_len_rev :: "string \<Rightarrow> nat" where
  "space_len_rev [] = 0"
| "space_len_rev (a # s) =
     (if ascii_space a then 1
      else case s of [] \<Rightarrow> 0
      | b # s' \<Rightarrow> if narrow_space b a then 2
          else case s' of [] \<Rightarrow> 0 | c # _ \<Rightarrow> if wide_space c b a then 3 else 0)"

function strip_with :: "(string \<Rightarrow> nat) \<Rightarrow> string \<Rightarrow> string" where
  "strip_with f s = (if s = [] \<or> f s = 0 then s else strip_with f (drop (f s) s))"
  by pat_completeness auto
termination
  by (relation "measure (\<lambda>(f, s). length s)") auto

declare strip_with.simps [simp del]

definition TrimSpace :: "string \<Rightarrow> string" where
  "TrimSpace s = rev (strip_with space_len_rev (rev (strip_with space_len s)))"

section \<open>Prefixes, suffixes, splitting\<close>

definition HasPrefix :: "string \<Rightarrow> string \<Rightarrow> bool" where
  "HasPrefix s p \<longleftrightarrow> take (length p) s = p"

definition HasSuffix :: "string \<Rightarrow> string \<Rightarrow> bool" where
  "HasSuffix s p \<longleftrightarrow> HasPrefix (rev s) (rev p)"

definition TrimPrefix :: "string \<Rightarrow> string \<Rightarrow> string" where
  "TrimPrefix s p = (if HasPrefix s p then drop (length p) s else s)"

text \<open>\<^verbatim>\<open>strings.TrimRight(s, cutset)\<close> for an ASCII cutset.\<close>

definition TrimRight :: "string \<Rightarrow> string \<Rightarrow> string" where
  "TrimRight s cutset = rev (dropWhile (\<lambda>c. c \<in> set cutset) (rev s))"

definition ContainsAny :: "string \<Rightarrow> string \<Rightarrow> bool" where
  "ContainsAny s cs \<longleftrightarrow> list_ex (\<lambda>c. c \<in> set cs) s"

fun Contains :: "string \<Rightarrow> string \<Rightarrow> bool" where
  "Contains [] p = (p = [])"
| "Contains (c # s) p = (HasPrefix (c # s) p \<or> Contains s p)"

text \<open>\<^verbatim>\<open>strings.Split(s, sep)\<close> and \<^verbatim>\<open>strings.Cut(s, sep)\<close> for a separator of one byte.\<close>

fun Split :: "char \<Rightarrow> string \<Rightarrow> string list" where
  "Split d [] = [[]]"
| "Split d (c # s) =
     (if c = d then [] # Split d s
      else case Split d s of [] \<Rightarrow> [[c]] | w # ws \<Rightarrow> (c # w) # ws)"

fun Cut :: "char \<Rightarrow> string \<Rightarrow> string \<times> string \<times> bool" where
  "Cut d [] = ([], [], False)"
| "Cut d (c # s) =
     (if c = d then ([], s, True)
      else case Cut d s of (a, b, found) \<Rightarrow> (c # a, b, found))"

fun Join :: "string list \<Rightarrow> string \<Rightarrow> string" where
  "Join [] sep = []"
| "Join [w] sep = w"
| "Join (w # ws) sep = w @ sep @ Join ws sep"

text \<open>\<^verbatim>\<open>strings.Fields\<close>: the maximal runs of bytes between white-space runes.\<close>

function fields_from :: "string \<Rightarrow> string \<Rightarrow> string list" where
  "fields_from acc s =
     (if s = [] then (if acc = [] then [] else [rev acc])
      else if space_len s = 0 then fields_from (hd s # acc) (tl s)
      else if acc = [] then fields_from [] (drop (space_len s) s)
      else rev acc # fields_from [] (drop (space_len s) s))"
  by pat_completeness auto
termination
  by (relation "measure (\<lambda>(acc, s). length s)") auto

declare fields_from.simps [simp del]

definition Fields :: "string \<Rightarrow> string list" where
  "Fields s = fields_from [] s"

section \<open>Letter case\<close>

definition lower_byte :: "char \<Rightarrow> char" where
  "lower_byte c = (if 65 \<le> (of_char c :: nat) \<and> (of_char c :: nat) \<le> 90 then char_of ((of_char c :: nat) + 32) else c)"

text \<open>
  \<^verbatim>\<open>strings.ToLower\<close>. Of the letters outside ASCII only U+212A (Kelvin sign, lower case k)
  and U+0130 (lower case i) have an ASCII lower case; the others stay outside ASCII and are
  left as they are here. The gateway only ever compares the result with ASCII strings or
  inspects it byte for byte for ASCII digits, so no decision of the code depends on them.
\<close>

fun ToLower :: "string \<Rightarrow> string" where
  "ToLower [] = []"
| "ToLower (a # s) =
     (if a = CHR 0xC4 \<and> s \<noteq> [] \<and> hd s = CHR 0xB0 then CHR ''i'' # ToLower (tl s)
      else if a = CHR 0xE2 \<and> take 2 s = [CHR 0x84, CHR 0xAA] then CHR ''k'' # ToLower (drop 2 s)
      else lower_byte a # ToLower s)"

text \<open>\<^verbatim>\<open>strings.EqualFold\<close> against an ASCII string that contains neither k nor s (the only
  letters that fold to a rune outside ASCII).\<close>

definition EqualFold :: "string \<Rightarrow> string \<Rightarrow> bool" where
  "EqualFold s t \<longleftrightarrow> map lower_byte s = map lower_byte t"

section \<open>Runes\<close>

text \<open>
  \<open>rune_len s\<close> is the number of bytes \<^verbatim>\<open>utf8.DecodeRuneInString\<close> consumes: the length of a
  valid encoding at the front of \<open>s\<close>, and 1 for an invalid one.
\<close>

definition cont_byte :: "nat \<Rightarrow> nat \<Rightarrow> char \<Rightarrow> bool" where
  "cont_byte lo hi c \<longleftrightarrow> lo \<le> of_char c \<and> of_char c \<le> hi"

definition rune_len :: "string \<Rightarrow> nat" where
  "rune_len s =
     (let b = (of_char (hd s) :: nat);
          ok2 = (\<lambda>lo hi. 2 \<le> length s \<and> cont_byte lo hi (s ! 1));
          ok3 = (3 \<le> length s \<and> cont_byte 0x80 0xBF (s ! 2));
          ok4 = (4 \<le> length s \<and> cont_byte 0x80 0xBF (s ! 3))
      in if b < 0xC2 then 1
         else if b \<le> 0xDF then (if ok2 0x80 0xBF then 2 else 1)
         else if b = 0xE0 then (if ok2 0xA0 0xBF \<and> ok3 then 3 else 1)
         else if b = 0xED then (if ok2 0x80 0x9F \<and> ok3 then 3 else 1)
         else if b \<le> 0xEF then (if ok2 0x80 0xBF \<and> ok3 then 3 else 1)
         else if b = 0xF0 then (if ok2 0x90 0xBF \<and> ok3 \<and> ok4 then 4 else 1)
         else if b \<le> 0xF3 then (if ok2 0x80 0xBF \<and> ok3 \<and> ok4 then 4 else 1)
         else if b = 0xF4 then (if ok2 0x80 0x8F \<and> ok3 \<and> ok4 then 4 else 1)
         else 1)"

lemma rune_len_pos [simp]: "0 < rune_len s"
  by (simp add: rune_len_def Let_def)

function runes :: "string \<Rightarrow> string list" where
  "runes s = (if s = [] then [] else take (rune_len s) s # runes (drop (rune_len s) s))"
  by pat_completeness auto
termination
  by (relation "measure length") auto

declare runes.simps [simp del]

definition RuneCountInString :: "string \<Rightarrow> nat" where
  "RuneCountInString s = length (runes s)"

section \<open>Hexadecimal and decimal numbers\<close>

definition hex_value :: "char \<Rightarrow> nat option" where
  "hex_value c =
     (let b = (of_char c :: nat)
      in if 48 \<le> b \<and> b \<le> 57 then Some (b - 48)
         else if 97 \<le> b \<and> b \<le> 102 then Some (b - 87)
         else if 65 \<le> b \<and> b \<le> 70 then Some (b - 55)
         else None)"

text \<open>\<^verbatim>\<open>hex.DecodeString\<close>; \<open>None\<close> is the error (a wrong digit or an odd length).\<close>

fun hex_decode :: "string \<Rightarrow> string option" where
  "hex_decode [] = Some []"
| "hex_decode [c] = None"
| "hex_decode (a # b # s) =
     (case (hex_value a, hex_value b, hex_decode s) of
        (Some x, Some y, Some r) \<Rightarrow> Some (char_of (16 * x + y) # r)
      | _ \<Rightarrow> None)"

definition hex_digit :: "nat \<Rightarrow> char" where
  "hex_digit n = char_of (if n < 10 then 48 + n else 87 + n)"

definition hex_encode :: "string \<Rightarrow> string" where
  "hex_encode s = concat (map (\<lambda>c. let b = (of_char c :: nat) in [hex_digit (b div 16), hex_digit (b mod 16)]) s)"

fun dec_digits :: "nat \<Rightarrow> string" where
  "dec_digits n = (if n < 10 then [char_of (48 + n)] else dec_digits (n div 10) @ [char_of (48 + n mod 10)])"

declare dec_digits.simps [simp del]

definition Itoa :: "int \<Rightarrow> string" where
  "Itoa n = (if n < 0 then CHR ''-'' # dec_digits (nat (- n)) else dec_digits (nat n))"

definition dec_value :: "char \<Rightarrow> nat option" where
  "dec_value c = (let b = (of_char c :: nat) in if 48 \<le> b \<and> b \<le> 57 then Some (b - 48) else None)"

fun parse_digits :: "nat \<Rightarrow> string \<Rightarrow> nat option" where
  "parse_digits acc [] = Some acc"
| "parse_digits acc (c # s) =
     (case dec_value c of None \<Rightarrow> None | Some d \<Rightarrow> parse_digits (10 * acc + d) s)"

text \<open>\<^verbatim>\<open>strconv.Atoi\<close>: an optional sign and decimal digits, \<open>None\<close> on a syntax or range error.\<close>

definition Atoi :: "string \<Rightarrow> int option" where
  "Atoi s =
     (let neg = HasPrefix s ''-''; body = (if HasPrefix s ''-'' \<or> HasPrefix s ''+'' then tl s else s)
      in if body = [] then None
         else case parse_digits 0 body of None \<Rightarrow> None
              | Some n \<Rightarrow> let v = (if neg then - int n else int n)
                          in if int64 v then Some v else None)"

section \<open>Laws\<close>

lemma strip_with_stops: "strip_with f s = [] \<or> f (strip_with f s) = 0"
proof (induction f s rule: strip_with.induct)
  case (1 f s)
  then show ?case
    by (cases "s = [] \<or> f s = 0") (auto simp: strip_with.simps [of f s])
qed

lemma strip_with_suffix: "\<exists>p. s = p @ strip_with f s"
proof (induction f s rule: strip_with.induct)
  case (1 f s)
  show ?case
  proof (cases "s = [] \<or> f s = 0")
    case True
    then show ?thesis by (simp add: strip_with.simps [of f s])
  next
    case False
    with 1 obtain p where "drop (f s) s = p @ strip_with f (drop (f s) s)" by blast
    then have "s = (take (f s) s @ p) @ strip_with f (drop (f s) s)"
      by (metis append_assoc append_take_drop_id)
    with False show ?thesis by (metis strip_with.simps)
  qed
qed

lemma strip_with_id [simp]: "f s = 0 \<Longrightarrow> strip_with f s = s"
  by (simp add: strip_with.simps)

lemma strip_with_Nil [simp]: "strip_with f [] = []"
  by (simp add: strip_with.simps)

lemma space_len_append: "space_len u \<noteq> 0 \<Longrightarrow> space_len (u @ v) = space_len u"
  by (cases u) (auto split: list.splits if_splits)

lemma TrimSpace_Nil [simp]: "TrimSpace [] = []"
  by (simp add: TrimSpace_def)

lemma TrimSpace_fixed:
  "space_len s = 0 \<Longrightarrow> space_len_rev (rev s) = 0 \<Longrightarrow> TrimSpace s = s"
  by (simp add: TrimSpace_def)

lemma TrimSpace_ends:
  "space_len (TrimSpace s) = 0" "space_len_rev (rev (TrimSpace s)) = 0"
proof -
  let ?t = "strip_with space_len s"
  let ?r = "strip_with space_len_rev (rev ?t)"
  obtain p where "rev ?t = p @ ?r"
    using strip_with_suffix by blast
  then have t: "?t = rev ?r @ rev p"
    by (metis rev_append rev_rev_ident)
  have "space_len (rev ?r) = 0"
  proof (rule ccontr)
    assume "space_len (rev ?r) \<noteq> 0"
    moreover from this have "space_len ?t \<noteq> 0"
      using space_len_append t by metis
    ultimately show False
      using strip_with_stops [of space_len s] by auto
  qed
  then show "space_len (TrimSpace s) = 0" by (simp add: TrimSpace_def)
  show "space_len_rev (rev (TrimSpace s)) = 0"
    using strip_with_stops [of space_len_rev "rev ?t"] by (auto simp: TrimSpace_def)
qed

lemma TrimSpace_idem [simp]: "TrimSpace (TrimSpace s) = TrimSpace s"
  by (rule TrimSpace_fixed) (rule TrimSpace_ends)+

lemma strip_with_subset: "set (strip_with f s) \<subseteq> set s"
  using strip_with_suffix [of s f] by (metis Un_upper2 set_append)

lemma TrimSpace_subset: "set (TrimSpace s) \<subseteq> set s"
  using strip_with_subset [of space_len s] strip_with_subset [of space_len_rev "rev (strip_with space_len s)"]
  by (simp add: TrimSpace_def)

lemma Split_plain: "d \<notin> set a \<Longrightarrow> Split d a = [a]"
  by (induction a) auto

lemma Split_sep: "d \<notin> set a \<Longrightarrow> Split d (a @ d # s) = a # Split d s"
  by (induction a) auto

lemma Split_not_Nil [simp]: "Split d s \<noteq> []"
  by (induction s) (auto split: list.splits)

lemma Split_parts: "w \<in> set (Split d s) \<Longrightarrow> d \<notin> set w"
proof (induction s arbitrary: w)
  case (Cons c s)
  then show ?case
    by (cases "Split d s") (auto split: if_splits)
qed simp

lemma Cut_sep: "d \<notin> set a \<Longrightarrow> Cut d (a @ d # s) = (a, s, True)"
  by (induction a) auto

lemma TrimRight_fixed: "s = [] \<or> last s \<notin> set cs \<Longrightarrow> TrimRight s cs = s"
  by (cases s rule: rev_cases) (auto simp: TrimRight_def)

lemma TrimRight_append: "set t \<subseteq> set cs \<Longrightarrow> TrimRight (s @ t) cs = TrimRight s cs"
  unfolding TrimRight_def rev_append by (subst dropWhile_append2) auto

lemma HasPrefix_append [simp]: "HasPrefix (p @ s) p"
  by (simp add: HasPrefix_def)

lemma TrimPrefix_append [simp]: "TrimPrefix (p @ s) p = s"
  by (simp add: TrimPrefix_def)

lemma of_char_less_256: "(of_char c :: nat) < 256"
  using of_char_mod_256 [where 'a = nat, of c] mod_less_divisor [of 256 "of_char c :: nat"] by simp

lemma hex_value_digit: "n < 16 \<Longrightarrow> hex_value (hex_digit n) = Some n"
  by (auto simp: hex_value_def hex_digit_def Let_def)

lemma hex_roundtrip: "hex_decode (hex_encode s) = Some s"
proof (induction s)
  case Nil
  then show ?case by (simp add: hex_encode_def)
next
  case (Cons c s)
  have "(of_char c :: nat) div 16 < 16"
    using of_char_less_256 [of c] by (intro less_mult_imp_div_less) simp
  moreover have "char_of (16 * ((of_char c :: nat) div 16) + of_char c mod 16) = c"
    by (simp only: mult_div_mod_eq char_of_char)
  ultimately show ?case
    using Cons by (simp add: hex_encode_def Let_def hex_value_digit)
qed

lemma hex_decode_length: "hex_decode s = Some r \<Longrightarrow> length s = 2 * length r"
  by (induction s arbitrary: r rule: hex_decode.induct) (auto split: option.splits)

lemma dec_value_digit: "n < 10 \<Longrightarrow> dec_value (char_of (48 + n)) = Some n"
  by (simp add: dec_value_def Let_def)

lemma parse_digits_append:
  "parse_digits acc (s @ t) = (case parse_digits acc s of None \<Rightarrow> None | Some a \<Rightarrow> parse_digits a t)"
  by (induction s arbitrary: acc) (auto split: option.splits)

lemma parse_dec_digits: "parse_digits 0 (dec_digits n) = Some n"
proof (induction n rule: dec_digits.induct)
  case (1 n)
  show ?case
  proof (cases "n < 10")
    case True
    then show ?thesis by (simp add: dec_digits.simps [of n] dec_value_digit)
  next
    case False
    with 1 have "parse_digits 0 (dec_digits (n div 10)) = Some (n div 10)" by simp
    with False show ?thesis
      by (simp add: dec_digits.simps [of n] parse_digits_append dec_value_digit)
  qed
qed

lemma dec_digits_chars: "c \<in> set (dec_digits n) \<Longrightarrow> 48 \<le> (of_char c :: nat) \<and> (of_char c :: nat) \<le> 57"
proof (induction n rule: dec_digits.induct)
  case (1 n)
  then show ?case
    by (cases "n < 10") (auto simp: dec_digits.simps [of n])
qed

lemma dec_digits_not_Nil [simp]: "dec_digits n \<noteq> []"
  by (simp add: dec_digits.simps [of n])

lemma dec_digits_no_sign: "\<not> HasPrefix (dec_digits n) ''-''" "\<not> HasPrefix (dec_digits n) ''+''"
  using dec_digits_chars [of "hd (dec_digits n)" n]
  by (cases "dec_digits n"; auto simp: HasPrefix_def)+

text \<open>Decimal numbers survive printing and reading.\<close>

lemma Atoi_Itoa: "int64 n \<Longrightarrow> Atoi (Itoa n) = Some n"
proof (cases "n < 0")
  case True
  assume "int64 n"
  with True show ?thesis
    by (simp add: Atoi_def Itoa_def Let_def parse_dec_digits HasPrefix_def)
next
  case False
  assume "int64 n"
  with False show ?thesis
    by (simp add: Atoi_def Itoa_def Let_def parse_dec_digits dec_digits_no_sign)
qed

end
