(* ===== verification/Config_Types.thy ===== *)
theory Config_Types
  imports Complex_Main Go_Strings
begin

text \<open>
  The configuration of the gateway: the structs of \<^verbatim>\<open>internal/config/config.go\<close> and
  \<^verbatim>\<open>internal/config/auth.go\<close>, and \<^verbatim>\<open>Default\<close> of \<^verbatim>\<open>internal/config/defaults.go\<close>. A Go map
  that the code ranges over is an association list with distinct keys, whose order is the
  (unspecified) iteration order. A \<^verbatim>\<open>float64\<close> is the rational number it denotes.
\<close>

record ServerConfig =
  srv_Address :: string
  srv_ReadHeaderTimeout :: duration
  srv_ShutdownTimeout :: duration

record OpenTelemetrySignalConfig =
  sig_Enabled :: bool
  sig_Endpoint :: string

record OpenTelemetryConfig =
  otel_Enabled :: bool
  otel_ServiceName :: string
  otel_ServiceVersion :: string
  otel_Environment :: string
  otel_Endpoint :: string
  otel_Insecure :: bool
  otel_Headers :: "(string \<times> string) list"
  otel_ExportTimeout :: duration
  otel_Traces :: OpenTelemetrySignalConfig
  otel_Logs :: OpenTelemetrySignalConfig

record ObservabilityServiceConfig =
  svc_Name :: string
  svc_Kind :: string
  svc_PublicURL :: string
  svc_HealthURL :: string

record ObservabilityDashboardConfig =
  dash_Name :: string
  dash_URL :: string
  dash_EmbedURL :: string

record ObservabilityStack =
  stack_Enabled :: bool
  stack_Services :: "ObservabilityServiceConfig list"
  stack_Dashboards :: "ObservabilityDashboardConfig list"

record ObservabilityConfig =
  obs_MetricsNamespace :: string
  obs_TracingEnabled :: bool
  obs_OpenTelemetry :: OpenTelemetryConfig
  obs_Stack :: ObservabilityStack

record APIKeyCredentialConfig =
  key_ID :: string
  key_KeyHash :: string
  key_UserID :: string
  key_TenantID :: string
  key_Scopes :: "string list"

record APIKeyAuthConfig =
  auth_Enabled :: bool
  auth_Header :: string
  auth_Keys :: "APIKeyCredentialConfig list"

record UserRateLimitConfig =
  rl_Enabled :: bool
  rl_IdentityHeader :: string
  rl_RequestsPerSecond :: rat
  rl_Burst :: int

record ConcurrencyLimitConfig =
  cc_Enabled :: bool
  cc_MaxInFlight :: int

record RateLimitConfig =
  rate_User :: UserRateLimitConfig
  rate_Concurrency :: ConcurrencyLimitConfig

record TokenUsageConfig =
  tu_Enabled :: bool
  tu_IdentityHeader :: string
  tu_Window :: duration
  tu_DefaultBudgetTokens :: int
  tu_DefaultMaxCompletionTokens :: int
  tu_UserBudgets :: "(string \<times> int) list"

record CircuitBreakerConfig =
  cb_Enabled :: bool
  cb_FailureThreshold :: int
  cb_OpenTimeout :: duration
  cb_HalfOpenMaxRequests :: int

record ModelBackendConfig =
  be_Name :: string
  be_Type :: string
  be_BaseURL :: string
  be_APIKey :: string
  be_APIKeyEnv :: string
  be_Models :: "string list"

record AIConfig =
  ai_RequestTimeout :: duration
  ai_FirstTokenTimeout :: duration
  ai_CircuitBreaker :: CircuitBreakerConfig
  ai_Fallbacks :: "(string \<times> string list) list"
  ai_Backends :: "ModelBackendConfig list"

record Config =
  cfg_Server :: ServerConfig
  cfg_Observability :: ObservabilityConfig
  cfg_Auth :: APIKeyAuthConfig
  cfg_RateLimit :: RateLimitConfig
  cfg_TokenUsage :: TokenUsageConfig
  cfg_AI :: AIConfig

definition mock_backend :: "string \<Rightarrow> string list \<Rightarrow> ModelBackendConfig" where
  "mock_backend name models =
     \<lparr>be_Name = name, be_Type = ''mock'', be_BaseURL = [], be_APIKey = [], be_APIKeyEnv = [], be_Models = models\<rparr>"

definition Default :: Config where
  "Default = \<lparr>
     cfg_Server = \<lparr>
       srv_Address = '':8080'',
       srv_ReadHeaderTimeout = 5 * second,
       srv_ShutdownTimeout = 10 * second\<rparr>,
     cfg_Observability = \<lparr>
       obs_MetricsNamespace = ''gateway'',
       obs_TracingEnabled = True,
       obs_OpenTelemetry = \<lparr>
         otel_Enabled = True,
         otel_ServiceName = ''telemetry-gateway'',
         otel_ServiceVersion = ''dev'',
         otel_Environment = [],
         otel_Endpoint = [],
         otel_Insecure = True,
         otel_Headers = [],
         otel_ExportTimeout = 10 * second,
         otel_Traces = \<lparr>sig_Enabled = True, sig_Endpoint = []\<rparr>,
         otel_Logs = \<lparr>sig_Enabled = True, sig_Endpoint = []\<rparr>\<rparr>,
       obs_Stack = \<lparr>stack_Enabled = False, stack_Services = [], stack_Dashboards = []\<rparr>\<rparr>,
     cfg_Auth = \<lparr>auth_Enabled = False, auth_Header = ''Authorization'', auth_Keys = []\<rparr>,
     cfg_RateLimit = \<lparr>
       rate_User = \<lparr>
         rl_Enabled = False,
         rl_IdentityHeader = ''X-User-ID'',
         rl_RequestsPerSecond = 1,
         rl_Burst = 1\<rparr>,
       rate_Concurrency = \<lparr>cc_Enabled = False, cc_MaxInFlight = 100\<rparr>\<rparr>,
     cfg_TokenUsage = \<lparr>
       tu_Enabled = False,
       tu_IdentityHeader = ''X-User-ID'',
       tu_Window = 24 * hour,
       tu_DefaultBudgetTokens = 100000,
       tu_DefaultMaxCompletionTokens = 1024,
       tu_UserBudgets = []\<rparr>,
     cfg_AI = \<lparr>
       ai_RequestTimeout = 30 * second,
       ai_FirstTokenTimeout = 30 * second,
       ai_CircuitBreaker = \<lparr>
         cb_Enabled = True,
         cb_FailureThreshold = 3,
         cb_OpenTimeout = 30 * second,
         cb_HalfOpenMaxRequests = 1\<rparr>,
       ai_Fallbacks = [],
       ai_Backends = [
         mock_backend ''mock-a'' [''mock-a'', ''gpt-4o-mini''],
         mock_backend ''mock-b'' [''mock-b'', ''gpt-4.1-mini'']]\<rparr>\<rparr>"

end
