(* ===== verification/Fallback.thy ===== *)
theory Fallback
  imports Config_Types
begin

text \<open>
  The fallback chain of a model, \<^verbatim>\<open>internal/llm/fallback.go\<close>: the defaults of the AI
  configuration, the normalised fallback table and the depth-first search that lists the
  candidate models of a request. The search is specified by reachability in the fallback graph.
\<close>

definition orDefault :: "int \<Rightarrow> int \<Rightarrow> int" where
  "orDefault v d = (if v \<le> 0 then d else v)"

definition normalizeAIConfig :: "AIConfig \<Rightarrow> AIConfig" where
  "normalizeAIConfig cfg =
     (let cfg1 = cfg\<lparr>ai_RequestTimeout := orDefault (ai_RequestTimeout cfg) (30 * second)\<rparr>;
          cfg2 = cfg1\<lparr>ai_FirstTokenTimeout := orDefault (ai_FirstTokenTimeout cfg1) (ai_RequestTimeout cfg1)\<rparr>;
          cb = ai_CircuitBreaker cfg2
      in cfg2\<lparr>ai_CircuitBreaker := cb\<lparr>
           cb_FailureThreshold := orDefault (cb_FailureThreshold cb) 3,
           cb_OpenTimeout := orDefault (cb_OpenTimeout cb) (30 * second),
           cb_HalfOpenMaxRequests := orDefault (cb_HalfOpenMaxRequests cb) 1\<rparr>\<rparr>)"

text \<open>
  \<^verbatim>\<open>normalizeFallbacks\<close>. The outer loop ranges over the map in the order of the association list;
  \<open>addTargets\<close> is the inner loop, with \<open>seen\<close> and the entry of the source built so far. A map
  entry that is absent reads as the nil slice.
\<close>

fun addTargets :: "string list \<Rightarrow> string list \<Rightarrow> string list \<Rightarrow> string list" where
  "addTargets seen acc [] = acc"
| "addTargets seen acc (target # targets) =
     (let t = TrimSpace target
      in if t = [] \<or> t \<in> set seen then addTargets seen acc targets
         else addTargets (t # seen) (acc @ [t]) targets)"

fun normalizeFallbacks_from :: "(string \<Rightarrow> string list) \<Rightarrow> (string \<times> string list) list \<Rightarrow> (string \<Rightarrow> string list)" where
  "normalizeFallbacks_from normalized [] = normalized"
| "normalizeFallbacks_from normalized ((source, targets) # rest) =
     (let s = TrimSpace source
      in if s = [] then normalizeFallbacks_from normalized rest
         else normalizeFallbacks_from (normalized(s := addTargets [] (normalized s) targets)) rest)"

definition normalizeFallbacks :: "(string \<times> string list) list \<Rightarrow> (string \<Rightarrow> string list)" where
  "normalizeFallbacks fallbacks = normalizeFallbacks_from (\<lambda>_. []) fallbacks"

text \<open>
  The closure \<^verbatim>\<open>visit\<close> of \<^verbatim>\<open>candidateModels\<close>, run on a list of models one after the other.
  \<open>models\<close> are the keys of \<^verbatim>\<open>h.backends\<close>; \<^verbatim>\<open>seen\<close> always holds exactly the candidates, so the
  list of candidates is the whole state.
\<close>

function visitAll :: "string list \<Rightarrow> (string \<Rightarrow> string list) \<Rightarrow> string list \<Rightarrow> string list \<Rightarrow> string list" where
  "visitAll models fallbacks [] candidates = candidates"
| "visitAll models fallbacks (current # rest) candidates =
     visitAll models fallbacks rest
       (if current \<in> set candidates \<or> current \<notin> set models then candidates
        else visitAll models fallbacks (fallbacks current) (candidates @ [current]))"
  by pat_completeness auto

termination
proof (relation "inv_image ({(x, y). x < y} <*lex*> {(x, y). x < y})
    (\<lambda>(models, fallbacks, ms, c). (card (set models - set c), length ms))", goal_cases)
  case 1
  show ?case by (intro wf_inv_image wf_lex_prod wf_less)
next
  case (2 models fallbacks current rest candidates)
  then have "set models - set (candidates @ [current]) \<subset> set models - set candidates"
    by auto
  then have "card (set models - set (candidates @ [current])) < card (set models - set candidates)"
    by (intro psubset_card_mono) auto
  then show ?case by simp
next
  case (3 models fallbacks current rest candidates)
  have grows: "visitAll_dom (models, fallbacks, ms, c) \<Longrightarrow> set c \<subseteq> set (visitAll models fallbacks ms c)" for models fallbacks ms c
    by (induction rule: visitAll.pinduct) (auto simp: visitAll.psimps split: if_splits)
  let ?c = "if current \<in> set candidates \<or> current \<notin> set models then candidates
     else visitAll models fallbacks (fallbacks current) (candidates @ [current])"
  have "set candidates \<subseteq> set ?c"
    using 3 grows [of models fallbacks "fallbacks current" "candidates @ [current]"] by auto
  then have "card (set models - set ?c) \<le> card (set models - set candidates)"
    by (intro card_mono) auto
  then show ?case by auto
qed

definition candidateModels :: "string list \<Rightarrow> (string \<Rightarrow> string list) \<Rightarrow> string \<Rightarrow> string list" where
  "candidateModels models fallbacks model = visitAll models fallbacks [model] []"

section \<open>The normalised table\<close>

text \<open>The targets a source has in the table of the file: all targets of all keys that trim to it.\<close>

definition declaredTargets :: "(string \<times> string list) list \<Rightarrow> string \<Rightarrow> string set" where
  "declaredTargets fallbacks source =
     {t. t \<noteq> [] \<and> (\<exists>(k, ts) \<in> set fallbacks. TrimSpace k = source \<and> t \<in> TrimSpace ` set ts)}"

lemma addTargets_set:
  "set (addTargets seen acc targets) = set acc \<union> {t \<in> TrimSpace ` set targets. t \<noteq> [] \<and> t \<notin> set seen}"
  by (induction seen acc targets rule: addTargets.induct) (auto simp: Let_def)

lemma addTargets_prefix: "\<exists>new. addTargets seen acc targets = acc @ new \<and> distinct new \<and> set new \<inter> set seen = {}"
proof (induction seen acc targets rule: addTargets.induct)
  case (2 seen acc target targets)
  show ?case
  proof (cases "TrimSpace target = [] \<or> TrimSpace target \<in> set seen")
    case True
    then show ?thesis using 2(1) by (auto simp: Let_def)
  next
    case False
    from 2(2) [OF refl] False obtain new where
      "addTargets (TrimSpace target # seen) (acc @ [TrimSpace target]) targets = (acc @ [TrimSpace target]) @ new"
      "distinct new" "set new \<inter> set (TrimSpace target # seen) = {}" by blast
    with False show ?thesis
      by (intro exI [of _ "TrimSpace target # new"]) (auto simp: Let_def)
  qed
qed simp

lemma normalizeFallbacks_from_set:
  "s \<noteq> [] \<Longrightarrow> set (normalizeFallbacks_from m fb s) = set (m s) \<union> declaredTargets fb s"
proof (induction m fb rule: normalizeFallbacks_from.induct)
  case (2 normalized source targets rest)
  have split: "declaredTargets ((source, targets) # rest) s =
      (if TrimSpace source = s then {t \<in> TrimSpace ` set targets. t \<noteq> []} else {}) \<union> declaredTargets rest s" for s
    by (auto simp: declaredTargets_def)
  show ?case
  proof (cases "TrimSpace source = []")
    case True
    then show ?thesis using 2(1) [OF refl True 2(3)] 2(3) by (simp add: split)
  next
    case False
    then have "normalizeFallbacks_from normalized ((source, targets) # rest) s =
        normalizeFallbacks_from (normalized(TrimSpace source := addTargets [] (normalized (TrimSpace source)) targets)) rest s"
      by (simp add: Let_def)
    then show ?thesis
      unfolding 2(2) [OF refl False 2(3)] split by (auto simp: addTargets_set 2(2) [OF refl False 2(3)])
  qed
qed (simp add: declaredTargets_def)

lemma normalizeFallbacks_from_Nil:
  "m [] = [] \<Longrightarrow> normalizeFallbacks_from m fb [] = []"
  by (induction m fb rule: normalizeFallbacks_from.induct) (auto simp: Let_def)

lemma normalizeFallbacks_from_other:
  "s \<notin> TrimSpace ` fst ` set fb \<Longrightarrow> normalizeFallbacks_from m fb s = m s"
  by (induction m fb rule: normalizeFallbacks_from.induct) (auto simp: Let_def)

lemma normalizeFallbacks_from_distinct:
  "distinct (map (\<lambda>e. TrimSpace (fst e)) fb) \<Longrightarrow> (\<And>e. e \<in> set fb \<Longrightarrow> m (TrimSpace (fst e)) = []) \<Longrightarrow>
     distinct (m s) \<Longrightarrow> distinct (normalizeFallbacks_from m fb s)"
proof (induction m fb rule: normalizeFallbacks_from.induct)
  case (2 normalized source targets rest)
  let ?s = "TrimSpace source"
  have "distinct (addTargets [] (normalized ?s) targets)"
    using addTargets_prefix [of "[]" "normalized ?s" targets] 2(4) [of "(source, targets)"] by auto
  then have "distinct ((normalized(?s := addTargets [] (normalized ?s) targets)) s)"
    using 2(5) by simp
  moreover have "TrimSpace (fst e) \<noteq> ?s" if "e \<in> set rest" for e
    using 2(3) that by (metis (mono_tags, lifting) distinct.simps(2) fst_conv image_eqI list.map(2) list.set_map)
  then have "(normalized(?s := addTargets [] (normalized ?s) targets)) (TrimSpace (fst e)) = []" if "e \<in> set rest" for e
    using that 2(4) by simp
  ultimately have "?s \<noteq> [] \<Longrightarrow>
      distinct (normalizeFallbacks_from (normalized(?s := addTargets [] (normalized ?s) targets)) rest s)"
    using 2(3) by (intro 2(2) [OF refl]) simp_all
  moreover have "distinct (normalizeFallbacks_from normalized rest s)" if "?s = []"
    using that 2(3-5) by (intro 2(1) [OF refl]) simp_all
  ultimately show ?case by (simp add: Let_def)
qed simp

section \<open>The search\<close>

text \<open>
  The fallback graph restricted to the configured models, and the candidates of a model: what is
  reachable from it. \<open>visitAll\<close> keeps the candidates closed under the edges, apart from the models
  whose fallbacks are still being visited.
\<close>

definition fallbackEdges :: "string list \<Rightarrow> (string \<Rightarrow> string list) \<Rightarrow> (string \<times> string) set" where
  "fallbackEdges models fallbacks = {(m, t). m \<in> set models \<and> t \<in> set models \<and> t \<in> set (fallbacks m)}"

text \<open>One iteration: what \<^verbatim>\<open>visit(m)\<close> makes of the candidates.\<close>

definition visitOne :: "string list \<Rightarrow> (string \<Rightarrow> string list) \<Rightarrow> string list \<Rightarrow> string \<Rightarrow> string list" where
  "visitOne models fb c m = (if m \<in> set c \<or> m \<notin> set models then c else visitAll models fb (fb m) (c @ [m]))"

lemma visitAll_Cons: "visitAll models fb (m # ms) c = visitAll models fb ms (visitOne models fb c m)"
  by (simp add: visitOne_def)

lemma visitAll_induct [consumes 0, case_names Nil Cons]:
  assumes "\<And>c. P [] c"
    and "\<And>m ms c. (m \<notin> set c \<Longrightarrow> m \<in> set models \<Longrightarrow> P (fb m) (c @ [m])) \<Longrightarrow> P ms (visitOne models fb c m) \<Longrightarrow> P (m # ms) c"
  shows "P ms c"
proof -
  have "m = models \<and> f = fb \<longrightarrow> P ms c" for m f
  proof (induction m f ms c rule: visitAll.induct)
    case (2 m f x xs c)
    show ?case
    proof (intro impI)
      assume "m = models \<and> f = fb"
      then have mf: "m = models" "f = fb" by simp_all
      from 2 show "P (x # xs) c" unfolding mf by (intro assms(2)) (simp_all add: visitOne_def)
    qed
  qed (simp add: assms(1))
  then show ?thesis by simp
qed

declare visitAll.simps(2) [simp del] visitAll_Cons [simp]

lemma visitAll_keeps:
  "distinct c \<Longrightarrow> set c \<subseteq> set models \<Longrightarrow>
     distinct (visitAll models fb ms c) \<and> set (visitAll models fb ms c) \<subseteq> set models \<and>
     (\<exists>new. visitAll models fb ms c = c @ new)"
proof (induction ms c rule: visitAll_induct [where models = models and fb = fb])
  case (Cons m ms c)
  have one: "distinct (visitOne models fb c m) \<and> set (visitOne models fb c m) \<subseteq> set models \<and>
      (\<exists>new. visitOne models fb c m = c @ new)"
    using Cons(1,3,4) by (auto simp: visitOne_def)
  then obtain n1 where n1: "visitOne models fb c m = c @ n1" by blast
  from one Cons(2) obtain n2 where "visitAll models fb ms (visitOne models fb c m) = visitOne models fb c m @ n2"
    by blast
  with one Cons(2) n1 show ?case by simp
qed simp

lemma visitAll_grows: "set c \<subseteq> set (visitAll models fb ms c)"
proof (induction ms c rule: visitAll_induct [where models = models and fb = fb])
  case (Cons m ms c)
  have "set c \<subseteq> set (visitOne models fb c m)"
    using Cons(1) by (auto simp: visitOne_def)
  with Cons(2) show ?case by simp
qed simp

lemma visitOne_grows: "set c \<subseteq> set (visitOne models fb c m)"
  using visitAll_grows [of c models fb "[m]"] by simp

lemma visitOne_visits: "m \<in> set models \<Longrightarrow> m \<in> set (visitOne models fb c m)"
  using visitAll_grows [of "c @ [m]" models fb "fb m"] by (auto simp: visitOne_def)

lemma visitAll_visits: "set ms \<inter> set models \<subseteq> set (visitAll models fb ms c)"
proof (induction ms arbitrary: c)
  case (Cons m ms)
  then show ?case
    using visitAll_grows [of "visitOne models fb c m" models fb ms] visitOne_visits [of m models fb c] by auto
qed simp

lemma visitAll_closed:
  "(m, t) \<in> fallbackEdges models fb \<Longrightarrow> m \<in> set (visitAll models fb ms c) \<Longrightarrow> m \<in> set c \<or> t \<in> set (visitAll models fb ms c)"
proof (induction ms c rule: visitAll_induct [where models = models and fb = fb])
  case (Cons x ms c)
  have one: "m \<in> set c \<or> t \<in> set (visitOne models fb c x)" if m: "m \<in> set (visitOne models fb c x)"
  proof (cases "x \<in> set c \<or> x \<notin> set models")
    case True
    with m show ?thesis by (simp add: visitOne_def)
  next
    case False
    then have vo: "visitOne models fb c x = visitAll models fb (fb x) (c @ [x])" by (simp add: visitOne_def)
    have "t \<in> set (visitOne models fb c x)" if "m = x"
      using that Cons(3) visitAll_visits [of "fb x" models fb "c @ [x]"] vo by (auto simp: fallbackEdges_def)
    with Cons(1) [OF _ _ Cons(3)] False m vo show ?thesis by auto
  qed
  with Cons(2-4) visitAll_grows [of "visitOne models fb c x" models fb ms] show ?case by auto
qed simp

lemma visitAll_reachable:
  "(\<And>x. x \<in> set ms \<Longrightarrow> x \<in> set models \<Longrightarrow> x \<in> R) \<Longrightarrow> set c \<subseteq> R \<Longrightarrow> fallbackEdges models fb `` R \<subseteq> R \<Longrightarrow>
     set (visitAll models fb ms c) \<subseteq> R"
proof (induction ms c rule: visitAll_induct [where models = models and fb = fb])
  case (Cons x ms c)
  have "set (visitOne models fb c x) \<subseteq> R"
  proof (cases "x \<in> set c \<or> x \<notin> set models")
    case False
    then have "x \<in> R" using Cons(3) by simp
    moreover have "y \<in> R" if "y \<in> set (fb x)" "y \<in> set models" for y
      using that False \<open>x \<in> R\<close> Cons(5) by (auto simp: fallbackEdges_def)
    ultimately show ?thesis using Cons(1,4,5) False by (simp add: visitOne_def)
  qed (use Cons(4) in \<open>simp add: visitOne_def\<close>)
  then show ?case using Cons(2,3,5) by simp
qed simp

lemma candidates_reachable:
  assumes "model \<in> set models"
  shows "set (candidateModels models fb model) = (fallbackEdges models fb)\<^sup>* `` {model}"
proof
  show "set (candidateModels models fb model) \<subseteq> (fallbackEdges models fb)\<^sup>* `` {model}"
    unfolding candidateModels_def by (rule visitAll_reachable) (auto intro: rtrancl_into_rtrancl)
  show "(fallbackEdges models fb)\<^sup>* `` {model} \<subseteq> set (candidateModels models fb model)"
  proof
    fix x assume "x \<in> (fallbackEdges models fb)\<^sup>* `` {model}"
    then have "(model, x) \<in> (fallbackEdges models fb)\<^sup>*" by simp
    then show "x \<in> set (candidateModels models fb model)"
    proof induction
      case base
      then show ?case
        using assms visitAll_visits [of "[model]" models fb "[]"] by (simp add: candidateModels_def)
    next
      case (step y z)
      then show ?case
        using visitAll_closed [of y z models fb "[model]" "[]"] by (simp add: candidateModels_def)
    qed
  qed
qed

lemma candidates_head:
  "candidateModels models fb model = (if model \<in> set models then model # tl (candidateModels models fb model) else [])"
proof (cases "model \<in> set models")
  case True
  then obtain new where "visitAll models fb (fb model) [model] = [model] @ new"
    using visitAll_keeps [of "[model]" models fb "fb model"] by auto
  with True show ?thesis by (simp add: candidateModels_def visitOne_def)
qed (simp add: candidateModels_def visitOne_def)

text \<open>C12. The fallback chain of a request: an unknown model has none; for a configured model the chain
  starts with the model itself, lists every configured model that is reachable over the fallback
  table exactly once and nothing else. The search ends also when the table has cycles.\<close>

theorem candidate_chain:
  "(model \<notin> set models \<longrightarrow> candidateModels models fb model = []) \<and>
   (model \<in> set models \<longrightarrow>
      distinct (candidateModels models fb model) \<and> candidateModels models fb model \<noteq> [] \<and>
      hd (candidateModels models fb model) = model \<and>
      set (candidateModels models fb model) = (fallbackEdges models fb)\<^sup>* `` {model})"
proof -
  have "distinct (candidateModels models fb model)"
    using visitAll_keeps [of "[]" models fb "[model]"] by (simp add: candidateModels_def)
  moreover have "model \<in> set models \<Longrightarrow> candidateModels models fb model \<noteq> [] \<and> hd (candidateModels models fb model) = model"
    using candidates_head [of models fb model] by (metis list.sel(1) list.simps(3))
  moreover have "model \<notin> set models \<Longrightarrow> candidateModels models fb model = []"
    using candidates_head [of models fb model] by simp
  ultimately show ?thesis using candidates_reachable by simp
qed

text \<open>A table with a cycle: every model of it is tried once.\<close>

definition demoFallbacks :: "(string \<times> string list) list" where
  "demoFallbacks = [(''a'', [''b '', ''b'', ''x'']), (''b'', [''c'', ''a''])]"

theorem candidate_chain_witness:
  "candidateModels [''a'', ''b'', ''c''] (normalizeFallbacks demoFallbacks) ''a'' = [''a'', ''b'', ''c''] \<and>
   set (candidateModels [''a'', ''b'', ''c''] (normalizeFallbacks demoFallbacks) ''a'') =
     (fallbackEdges [''a'', ''b'', ''c''] (normalizeFallbacks demoFallbacks))\<^sup>* `` {''a''}"
  using candidate_chain [of "''a''" "[''a'', ''b'', ''c'']" "normalizeFallbacks demoFallbacks"]
  by (auto simp: candidateModels_def visitOne_def normalizeFallbacks_def demoFallbacks_def TrimSpace_def ascii_space_def strip_with.simps
      narrow_space_def Let_def)

text \<open>The normalised table keeps what the file declares: the targets of a source are the trimmed,
  non-empty targets of all keys that trim to it, in no case for the empty name, and without
  duplicates when no two keys trim to the same source.\<close>

theorem normalized_table:
  "(\<forall>s. set (normalizeFallbacks fb s) = (if s = [] then {} else declaredTargets fb s)) \<and>
   (distinct (map (\<lambda>e. TrimSpace (fst e)) fb) \<longrightarrow> (\<forall>s. distinct (normalizeFallbacks fb s)))"
  using normalizeFallbacks_from_set [of _ "\<lambda>_. []" fb] normalizeFallbacks_from_Nil [of "\<lambda>_. []" fb]
    normalizeFallbacks_from_distinct [of fb "\<lambda>_. []"]
  by (auto simp: normalizeFallbacks_def)

theorem normalized_table_witness:
  "set (normalizeFallbacks demoFallbacks ''a'') = declaredTargets demoFallbacks ''a'' \<and>
     distinct (normalizeFallbacks demoFallbacks ''a'')"
  using normalized_table [of demoFallbacks]
  by (auto simp: demoFallbacks_def TrimSpace_def ascii_space_def strip_with.simps narrow_space_def)

end
