(* ===== verification/Circuit_Breaker.thy ===== *)
theory Circuit_Breaker
  imports Config_Types
begin

text \<open>
  The per-backend circuit breaker, \<^verbatim>\<open>internal/llm/circuit_breaker.go\<close>. \<^verbatim>\<open>Allow\<close> and
  \<^verbatim>\<open>finish\<close> hold the mutex for their whole body, so each is one atomic step on the breaker. A
  permit is returned to the caller, who settles it with \<^verbatim>\<open>Succeed\<close>, \<^verbatim>\<open>Fail\<close> or \<^verbatim>\<open>Ignore\<close>. The
  gauge \<^verbatim>\<open>circuit_breaker_state\<close> is part of the state (\<open>None\<close>: no metrics configured).
\<close>

datatype circuitState = circuitStateClosed | circuitStateHalfOpen | circuitStateOpen

fun stateCode :: "circuitState \<Rightarrow> int" where
  "stateCode circuitStateClosed = 0"
| "stateCode circuitStateHalfOpen = 1"
| "stateCode circuitStateOpen = 2"

record backendCircuitState =
  state :: circuitState
  consecutiveFailures :: int
  openedAt :: time
  halfOpenInFlight :: int

record circuitBreaker =
  br_cfg :: CircuitBreakerConfig
  br_gauge :: "(string \<rightharpoonup> int) option"
  br_states :: "string \<rightharpoonup> backendCircuitState"

text \<open>\<open>pm_breaker\<close> says whether the permit points to a breaker; the breaker itself is the state
  the methods take.\<close>

record circuitBreakerPermit =
  pm_breaker :: bool
  pm_backend :: string
  pm_allowed :: bool
  pm_done :: bool

definition emptyPermit :: circuitBreakerPermit where
  "emptyPermit = \<lparr>pm_breaker = False, pm_backend = [], pm_allowed = False, pm_done = False\<rparr>"

definition grantedPermit :: "string \<Rightarrow> circuitBreakerPermit" where
  "grantedPermit backend = \<lparr>pm_breaker = True, pm_backend = backend, pm_allowed = True, pm_done = False\<rparr>"

definition closedState :: backendCircuitState where
  "closedState = \<lparr>state = circuitStateClosed, consecutiveFailures = 0, openedAt = zeroTime, halfOpenInFlight = 0\<rparr>"

definition setStateMetricLocked :: "circuitBreaker \<Rightarrow> string \<Rightarrow> circuitState \<Rightarrow> circuitBreaker" where
  "setStateMetricLocked b backend st =
     (case br_gauge b of None \<Rightarrow> b | Some g \<Rightarrow> b\<lparr>br_gauge := Some (g(backend \<mapsto> stateCode st))\<rparr>)"

definition putState :: "circuitBreaker \<Rightarrow> string \<Rightarrow> backendCircuitState \<Rightarrow> circuitBreaker" where
  "putState b backend st = b\<lparr>br_states := (br_states b)(backend \<mapsto> st)\<rparr>"

definition newCircuitBreaker :: "CircuitBreakerConfig \<Rightarrow> string list \<Rightarrow> bool \<Rightarrow> circuitBreaker" where
  "newCircuitBreaker cfg backends metrics =
     fold (\<lambda>backend b. setStateMetricLocked (putState b backend closedState) backend circuitStateClosed) backends
       \<lparr>br_cfg = cfg, br_gauge = (if metrics then Some Map.empty else None), br_states = Map.empty\<rparr>"

definition stateLocked :: "circuitBreaker \<Rightarrow> string \<Rightarrow> circuitBreaker \<times> backendCircuitState" where
  "stateLocked b backend =
     (case br_states b backend of
        Some st \<Rightarrow> (b, st)
      | None \<Rightarrow> (setStateMetricLocked (putState b backend closedState) backend circuitStateClosed, closedState))"

text \<open>\<^verbatim>\<open>transitionLocked\<close> updates the state in place; here it returns the new state.\<close>

definition transitionLocked :: "circuitBreaker \<Rightarrow> string \<Rightarrow> backendCircuitState \<Rightarrow> circuitState \<Rightarrow> circuitBreaker \<times> backendCircuitState" where
  "transitionLocked b backend st nxt =
     (if state st = nxt then (setStateMetricLocked b backend nxt, st)
      else
        let st1 = st\<lparr>state := nxt\<rparr>;
            st2 = (if nxt = circuitStateClosed then st1\<lparr>consecutiveFailures := 0, halfOpenInFlight := 0\<rparr> else st1)
        in (setStateMetricLocked (putState b backend st2) backend nxt, st2))"

definition openLocked :: "circuitBreaker \<Rightarrow> string \<Rightarrow> backendCircuitState \<Rightarrow> time \<Rightarrow> circuitBreaker" where
  "openLocked b backend st now =
     (let st' = st\<lparr>openedAt := now, halfOpenInFlight := 0\<rparr>
      in fst (transitionLocked (putState b backend st') backend st' circuitStateOpen))"

fun Allow :: "circuitBreaker option \<Rightarrow> time \<Rightarrow> string \<Rightarrow> circuitBreaker option \<times> circuitBreakerPermit \<times> bool" where
  "Allow None now backend = (None, emptyPermit, True)"
| "Allow (Some b) now backend =
     (if \<not> cb_Enabled (br_cfg b) then (Some b, emptyPermit, True)
      else
        let (b1, st) = stateLocked b backend;
            (b2, st2) = (if state st = circuitStateOpen \<and> timeSub now (openedAt st) \<ge> cb_OpenTimeout (br_cfg b)
                         then transitionLocked b1 backend st circuitStateHalfOpen else (b1, st))
        in case state st2 of
             circuitStateOpen \<Rightarrow> (Some b2, emptyPermit, False)
           | circuitStateHalfOpen \<Rightarrow>
               if halfOpenInFlight st2 \<ge> cb_HalfOpenMaxRequests (br_cfg b) then (Some b2, emptyPermit, False)
               else (Some (putState b2 backend (st2\<lparr>halfOpenInFlight := wrap64 (halfOpenInFlight st2 + 1)\<rparr>)),
                     grantedPermit backend, True)
           | circuitStateClosed \<Rightarrow> (Some b2, grantedPermit backend, True))"

declare Allow.simps(2) [simp del]

text \<open>\<^verbatim>\<open>finish(success, count)\<close>: the permit and the breaker after it.\<close>

definition finish :: "circuitBreakerPermit option \<Rightarrow> circuitBreaker \<Rightarrow> time \<Rightarrow> bool \<Rightarrow> bool \<Rightarrow>
    circuitBreakerPermit option \<times> circuitBreaker" where
  "finish p b now success count =
     (case p of
        None \<Rightarrow> (None, b)
      | Some p \<Rightarrow>
          if pm_done p \<or> \<not> pm_allowed p \<or> \<not> pm_breaker p \<or> \<not> cb_Enabled (br_cfg b) then (Some p, b)
          else
            let backend = pm_backend p;
                (b1, st) = stateLocked b backend;
                st1 = (if state st = circuitStateHalfOpen \<and> halfOpenInFlight st > 0
                       then st\<lparr>halfOpenInFlight := wrap64 (halfOpenInFlight st - 1)\<rparr> else st);
                b2 = putState b1 backend st1
            in (Some (p\<lparr>pm_done := True\<rparr>),
                if \<not> count then b2
                else if success then
                  (let st2 = st1\<lparr>consecutiveFailures := 0\<rparr>
                   in fst (transitionLocked (putState b2 backend st2) backend st2 circuitStateClosed))
                else case state st1 of
                    circuitStateHalfOpen \<Rightarrow> openLocked b2 backend st1 now
                  | circuitStateOpen \<Rightarrow> b2
                  | circuitStateClosed \<Rightarrow>
                      (let st2 = st1\<lparr>consecutiveFailures := wrap64 (consecutiveFailures st1 + 1)\<rparr>;
                           b3 = putState b2 backend st2
                       in if consecutiveFailures st2 \<ge> cb_FailureThreshold (br_cfg b) then openLocked b3 backend st2 now else b3)))"

definition Succeed :: "circuitBreakerPermit option \<Rightarrow> circuitBreaker \<Rightarrow> time \<Rightarrow> circuitBreakerPermit option \<times> circuitBreaker" where
  "Succeed p b now = finish p b now True True"

definition Fail :: "circuitBreakerPermit option \<Rightarrow> circuitBreaker \<Rightarrow> time \<Rightarrow> circuitBreakerPermit option \<times> circuitBreaker" where
  "Fail p b now = finish p b now False True"

definition Ignore :: "circuitBreakerPermit option \<Rightarrow> circuitBreaker \<Rightarrow> time \<Rightarrow> circuitBreakerPermit option \<times> circuitBreaker" where
  "Ignore p b now = finish p b now False False"


section \<open>One circuit at a time\<close>

text \<open>
  The abstract specification: the circuit of one backend as a machine of its own. A backend
  without an entry has a closed circuit. \<open>allowState\<close> and \<open>finishState\<close> are the transitions of
  \<^verbatim>\<open>Allow\<close> and \<^verbatim>\<open>finish\<close> on it; the breaker implements one such machine per backend.
\<close>

definition circuit :: "circuitBreaker \<Rightarrow> string \<Rightarrow> backendCircuitState" where
  "circuit b backend = (case br_states b backend of None \<Rightarrow> closedState | Some st \<Rightarrow> st)"

definition allowState :: "CircuitBreakerConfig \<Rightarrow> time \<Rightarrow> backendCircuitState \<Rightarrow> backendCircuitState \<times> bool" where
  "allowState cfg now st =
     (let st1 = (if state st = circuitStateOpen \<and> timeSub now (openedAt st) \<ge> cb_OpenTimeout cfg
                 then st\<lparr>state := circuitStateHalfOpen\<rparr> else st)
      in case state st1 of
           circuitStateOpen \<Rightarrow> (st1, False)
         | circuitStateHalfOpen \<Rightarrow> if halfOpenInFlight st1 \<ge> cb_HalfOpenMaxRequests cfg then (st1, False)
             else (st1\<lparr>halfOpenInFlight := wrap64 (halfOpenInFlight st1 + 1)\<rparr>, True)
         | circuitStateClosed \<Rightarrow> (st1, True))"

definition leaveProbe :: "backendCircuitState \<Rightarrow> backendCircuitState" where
  "leaveProbe st = (if state st = circuitStateHalfOpen \<and> halfOpenInFlight st > 0
     then st\<lparr>halfOpenInFlight := wrap64 (halfOpenInFlight st - 1)\<rparr> else st)"

definition openState :: "time \<Rightarrow> backendCircuitState \<Rightarrow> backendCircuitState" where
  "openState now st = st\<lparr>state := circuitStateOpen, openedAt := now, halfOpenInFlight := 0\<rparr>"

definition succeedState :: "backendCircuitState \<Rightarrow> backendCircuitState" where
  "succeedState st = (if state st = circuitStateClosed then st\<lparr>consecutiveFailures := 0\<rparr>
     else st\<lparr>state := circuitStateClosed, consecutiveFailures := 0, halfOpenInFlight := 0\<rparr>)"

definition failState :: "CircuitBreakerConfig \<Rightarrow> time \<Rightarrow> backendCircuitState \<Rightarrow> backendCircuitState" where
  "failState cfg now st = (case state st of
       circuitStateHalfOpen \<Rightarrow> openState now (leaveProbe st)
     | circuitStateOpen \<Rightarrow> st
     | circuitStateClosed \<Rightarrow>
         (let st' = st\<lparr>consecutiveFailures := wrap64 (consecutiveFailures st + 1)\<rparr>
          in if consecutiveFailures st' \<ge> cb_FailureThreshold cfg then openState now st' else st'))"

definition finishState :: "CircuitBreakerConfig \<Rightarrow> time \<Rightarrow> bool \<Rightarrow> bool \<Rightarrow> backendCircuitState \<Rightarrow> backendCircuitState" where
  "finishState cfg now success count st =
     (if \<not> count then leaveProbe st else if success then succeedState (leaveProbe st) else failState cfg now st)"

text \<open>The gauge shows the state of every known circuit.\<close>

definition gaugeOk :: "circuitBreaker \<Rightarrow> bool" where
  "gaugeOk b \<longleftrightarrow> (case br_gauge b of None \<Rightarrow> True
     | Some g \<Rightarrow> \<forall>k. g k = map_option (\<lambda>st. stateCode (state st)) (br_states b k))"

text \<open>\<open>updates b k st b'\<close>: the step changed the circuit of backend \<open>k\<close> to \<open>st\<close> and nothing else, and
  the gauge follows.\<close>

definition updates :: "circuitBreaker \<Rightarrow> string \<Rightarrow> backendCircuitState \<Rightarrow> circuitBreaker \<Rightarrow> bool" where
  "updates b k st b' \<longleftrightarrow> br_cfg b' = br_cfg b \<and> br_states b' = (br_states b)(k \<mapsto> st) \<and> (gaugeOk b \<longrightarrow> gaugeOk b')"

lemma updates_circuit:
  "updates b k st b' \<Longrightarrow> circuit b' j = (if j = k then st else circuit b j)"
  by (simp add: updates_def circuit_def)

lemma setStateMetric_fields [simp]:
  "br_cfg (setStateMetricLocked b k s) = br_cfg b" "br_states (setStateMetricLocked b k s) = br_states b"
  by (simp_all add: setStateMetricLocked_def split: option.split)

lemma putState_fields [simp]:
  "br_cfg (putState b k s) = br_cfg b" "br_states (putState b k s) = (br_states b)(k \<mapsto> s)"
  "br_gauge (putState b k s) = br_gauge b"
  by (simp_all add: putState_def)

text \<open>Gauge agreement everywhere but possibly at one backend.\<close>

definition gaugeOkBut :: "string \<Rightarrow> circuitBreaker \<Rightarrow> bool" where
  "gaugeOkBut k b \<longleftrightarrow> (case br_gauge b of None \<Rightarrow> True
     | Some g \<Rightarrow> \<forall>j. j \<noteq> k \<longrightarrow> g j = map_option (\<lambda>st. stateCode (state st)) (br_states b j))"

lemma gaugeOkBut_put [simp]: "gaugeOkBut k (putState b k st) = gaugeOkBut k b"
  by (auto simp: gaugeOkBut_def split: option.split)

lemma gaugeOk_but: "gaugeOk b \<Longrightarrow> gaugeOkBut k b"
  by (simp add: gaugeOk_def gaugeOkBut_def split: option.splits)

lemma gaugeOk_set:
  "gaugeOkBut k b \<Longrightarrow> br_states b k = Some st \<Longrightarrow> gaugeOk (setStateMetricLocked b k (state st))"
  by (auto simp: gaugeOk_def gaugeOkBut_def setStateMetricLocked_def split: option.splits)

lemma gaugeOk_put_same:
  "gaugeOk b \<Longrightarrow> br_states b k = Some st \<Longrightarrow> state st' = state st \<Longrightarrow> gaugeOk (putState b k st')"
  by (auto simp: gaugeOk_def split: option.splits)

lemma stateLocked_updates:
  assumes "stateLocked b k = (b', st)"
  shows "st = circuit b k \<and> br_states b' k = Some st \<and> updates b k st b'"
proof (cases "br_states b k")
  case None
  have "gaugeOk (setStateMetricLocked (putState b k closedState) k (state closedState))" if "gaugeOk b"
    by (rule gaugeOk_set [where st = closedState]) (use that in \<open>simp_all add: gaugeOk_but\<close>)
  with None assms show ?thesis
    by (auto simp: stateLocked_def circuit_def updates_def closedState_def)
next
  case (Some x)
  with assms show ?thesis
    by (auto simp: stateLocked_def circuit_def updates_def)
qed

lemma updates_put:
  "updates b k st b' \<Longrightarrow> state st' = state st \<Longrightarrow> updates b k st' (putState b' k st')"
  by (auto simp: updates_def intro: gaugeOk_put_same)

lemma updates_transition:
  assumes "br_states b' = (br_states b)(k \<mapsto> st)" "br_cfg b' = br_cfg b" "gaugeOk b \<Longrightarrow> gaugeOkBut k b'"
    and "transitionLocked b' k st nxt = (b2, st2)"
  shows "updates b k st2 b2 \<and> st2 = (if state st = nxt then st
     else if nxt = circuitStateClosed then st\<lparr>state := nxt, consecutiveFailures := 0, halfOpenInFlight := 0\<rparr>
     else st\<lparr>state := nxt\<rparr>)"
proof (cases "state st = nxt")
  case True
  with assms(4) have "b2 = setStateMetricLocked b' k (state st)" "st2 = st"
    by (auto simp: transitionLocked_def)
  with True assms show ?thesis by (auto simp: updates_def intro: gaugeOk_set)
next
  case False
  with assms(4) have st2: "state st2 = nxt" "b2 = setStateMetricLocked (putState b' k st2) k (state st2)"
    by (auto simp: transitionLocked_def Let_def)
  then have "updates b k st2 b2"
    using assms(1,2,3) gaugeOk_set [of k "putState b' k st2" st2] by (simp add: updates_def)
  moreover have "st2 = (if nxt = circuitStateClosed then st\<lparr>state := nxt, consecutiveFailures := 0, halfOpenInFlight := 0\<rparr>
     else st\<lparr>state := nxt\<rparr>)"
    using False assms(4) by (auto simp: transitionLocked_def Let_def)
  ultimately show ?thesis
    using False by simp
qed

lemma updates_but: "updates b k st b' \<Longrightarrow> gaugeOk b \<Longrightarrow> gaugeOkBut k b'"
  by (simp add: updates_def gaugeOk_but)

lemma updates_open:
  assumes "updates b k st b'"
  shows "updates b k (openState now st) (openLocked b' k st now)"
proof -
  let ?st = "st\<lparr>openedAt := now, halfOpenInFlight := 0\<rparr>"
  obtain b2 st2 where t: "transitionLocked (putState b' k ?st) k ?st circuitStateOpen = (b2, st2)"
    by fastforce
  have h: "br_states (putState b' k ?st) = (br_states b)(k \<mapsto> ?st)" "br_cfg (putState b' k ?st) = br_cfg b"
    "gaugeOk b \<Longrightarrow> gaugeOkBut k (putState b' k ?st)"
    using assms updates_but [OF assms] by (simp_all add: updates_def)
  have "updates b k (openState now st) b2"
    using updates_transition [OF h t] by (cases st) (auto simp: openState_def split: if_splits)
  then show ?thesis
    using t by (simp add: openLocked_def Let_def)
qed

text \<open>The breaker implements one circuit per backend.\<close>

lemma Allow_updates:
  assumes en: "cb_Enabled (br_cfg b)" and al: "Allow (Some b) now k = (bp, p, ok)"
  shows "\<exists>b'. bp = Some b' \<and> updates b k (fst (allowState (br_cfg b) now (circuit b k))) b' \<and>
     ok = snd (allowState (br_cfg b) now (circuit b k)) \<and> p = (if ok then grantedPermit k else emptyPermit)"
proof -
  obtain b1 st where s1: "stateLocked b k = (b1, st)" by fastforce
  have st: "st = circuit b k" "br_states b1 k = Some st" "updates b k st b1"
    using stateLocked_updates [OF s1] by auto
  let ?go = "state st = circuitStateOpen \<and> timeSub now (openedAt st) \<ge> cb_OpenTimeout (br_cfg b)"
  obtain b2 st2 where s2: "(if ?go then transitionLocked b1 k st circuitStateHalfOpen else (b1, st)) = (b2, st2)" by fastforce
  have st2: "updates b k st2 b2 \<and> st2 = (if ?go then st\<lparr>state := circuitStateHalfOpen\<rparr> else st)"
  proof (cases ?go)
    case True
    with s2 have "transitionLocked b1 k st circuitStateHalfOpen = (b2, st2)" by simp
    then show ?thesis
      using updates_transition [of b1 b k st circuitStateHalfOpen b2 st2, OF _ _ updates_but [OF st(3)]] st(3) True
      by (auto simp: updates_def)
  next
    case False
    then have "b2 = b1" "st2 = st" using s2 by auto
    then show ?thesis using st(3) False by simp
  qed
  have "Allow (Some b) now k =
    (case state st2 of
       circuitStateOpen \<Rightarrow> (Some b2, emptyPermit, False)
     | circuitStateHalfOpen \<Rightarrow>
         if halfOpenInFlight st2 \<ge> cb_HalfOpenMaxRequests (br_cfg b) then (Some b2, emptyPermit, False)
         else (Some (putState b2 k (st2\<lparr>halfOpenInFlight := wrap64 (halfOpenInFlight st2 + 1)\<rparr>)), grantedPermit k, True)
     | circuitStateClosed \<Rightarrow> (Some b2, grantedPermit k, True))"
    unfolding Allow.simps(2) using en s1 s2 by (simp only: Let_def prod.case if_True not_True_eq_False if_False)
  moreover have "(if ?go then st\<lparr>state := circuitStateHalfOpen\<rparr> else st) = st2"
    using st2 by simp
  then have "allowState (br_cfg b) now (circuit b k) =
     (case state st2 of
           circuitStateOpen \<Rightarrow> (st2, False)
         | circuitStateHalfOpen \<Rightarrow> if halfOpenInFlight st2 \<ge> cb_HalfOpenMaxRequests (br_cfg b) then (st2, False)
             else (st2\<lparr>halfOpenInFlight := wrap64 (halfOpenInFlight st2 + 1)\<rparr>, True)
         | circuitStateClosed \<Rightarrow> (st2, True))"
    by (simp only: allowState_def Let_def st(1) [symmetric])
  moreover have "updates b k (st2\<lparr>halfOpenInFlight := n\<rparr>) (putState b2 k (st2\<lparr>halfOpenInFlight := n\<rparr>))" for n
    by (rule updates_put) (use st2 in auto)
  ultimately show ?thesis
    using al st2 by (auto split: circuitState.splits if_splits)
qed

text \<open>The two branches of \<^verbatim>\<open>finish\<close> that change more than the probes.\<close>

definition failLocked :: "circuitBreaker \<Rightarrow> string \<Rightarrow> backendCircuitState \<Rightarrow> time \<Rightarrow> circuitBreaker" where
  "failLocked b k st now =
     (case state st of
        circuitStateHalfOpen \<Rightarrow> openLocked b k st now
      | circuitStateOpen \<Rightarrow> b
      | circuitStateClosed \<Rightarrow>
          (let st2 = st\<lparr>consecutiveFailures := wrap64 (consecutiveFailures st + 1)\<rparr>
           in if consecutiveFailures st2 \<ge> cb_FailureThreshold (br_cfg b)
              then openLocked (putState b k st2) k st2 now else putState b k st2))"

lemma succeed_updates:
  assumes "updates b k st b'"
  defines "st2 \<equiv> st\<lparr>consecutiveFailures := 0\<rparr>"
  shows "updates b k (succeedState st) (fst (transitionLocked (putState b' k st2) k st2 circuitStateClosed))"
proof -
  obtain b3 st3 where t: "transitionLocked (putState b' k st2) k st2 circuitStateClosed = (b3, st3)" by fastforce
  have u: "updates b k st2 (putState b' k st2)" by (rule updates_put [OF assms(1)]) (simp add: st2_def)
  have h: "br_states (putState b' k st2) = (br_states b)(k \<mapsto> st2)" "br_cfg (putState b' k st2) = br_cfg b"
    using u by (simp_all add: updates_def)
  have "updates b k st3 b3 \<and> st3 = succeedState st"
    using updates_transition [OF h updates_but [OF u] t] by (auto simp: succeedState_def st2_def)
  then show ?thesis by (auto simp: t)
qed

lemma fail_updates:
  assumes "updates b k (leaveProbe st) b'"
  shows "updates b k (failState (br_cfg b) now st) (failLocked b' k (leaveProbe st) now)"
proof (cases "state st")
  case circuitStateClosed
  then have st: "leaveProbe st = st" by (simp add: leaveProbe_def)
  have "updates b k (st\<lparr>consecutiveFailures := n\<rparr>) (putState b' k (st\<lparr>consecutiveFailures := n\<rparr>))" for n
    by (rule updates_put [OF assms]) (simp add: st)
  moreover note updates_open [OF this]
  moreover have "br_cfg b' = br_cfg b" using assms by (simp add: updates_def)
  ultimately show ?thesis using circuitStateClosed by (auto simp: failLocked_def failState_def Let_def st)
next
  case circuitStateHalfOpen
  moreover from this have "state (leaveProbe st) = circuitStateHalfOpen" by (simp add: leaveProbe_def)
  ultimately show ?thesis using updates_open [OF assms] by (simp add: failLocked_def failState_def)
next
  case circuitStateOpen
  then have "leaveProbe st = st" by (simp add: leaveProbe_def)
  then show ?thesis using assms circuitStateOpen by (simp add: failLocked_def failState_def)
qed

lemma finish_updates:
  assumes en: "cb_Enabled (br_cfg b)" and p: "pm_allowed p" "pm_breaker p" "\<not> pm_done p"
  shows "\<exists>b'. finish (Some p) b now success count = (Some (p\<lparr>pm_done := True\<rparr>), b') \<and>
     updates b (pm_backend p) (finishState (br_cfg b) now success count (circuit b (pm_backend p))) b'"
proof -
  let ?k = "pm_backend p"
  obtain b1 st where s1: "stateLocked b ?k = (b1, st)" by fastforce
  have st: "st = circuit b ?k" "updates b ?k st b1"
    using stateLocked_updates [OF s1] by auto
  let ?st1 = "leaveProbe st" and ?st2 = "(leaveProbe st)\<lparr>consecutiveFailures := 0\<rparr>"
  let ?b2 = "putState b1 ?k ?st1"
  have u2: "updates b ?k ?st1 ?b2"
    by (rule updates_put [OF st(2)]) (simp add: leaveProbe_def)
  have "br_cfg ?b2 = br_cfg b" using u2 by (simp add: updates_def)
  then have "finish (Some p) b now success count = (Some (p\<lparr>pm_done := True\<rparr>),
      if \<not> count then ?b2
      else if success then fst (transitionLocked (putState ?b2 ?k ?st2) ?k ?st2 circuitStateClosed)
      else failLocked ?b2 ?k ?st1 now)"
    using en p s1 by (simp add: finish_def failLocked_def leaveProbe_def [symmetric] Let_def cong: circuitState.case_cong)
  then show ?thesis
    using u2 succeed_updates [OF u2] fail_updates [OF u2, of now] by (simp add: finishState_def st(1) [symmetric])
qed


section \<open>Concurrent requests against a breaker\<close>

text \<open>
  A run of the breaker: the clock advances, a request is admitted or turned away, an admitted
  request settles its permit. \<open>inflight\<close> are the permits not yet settled; the flag says that the
  permit was handed out by a half-open circuit, that is, that the request is a probe.
\<close>

record breaker_sys =
  brk :: circuitBreaker
  bclock :: time
  inflight :: "(circuitBreakerPermit \<times> bool) list"

inductive breaker_step :: "breaker_sys \<Rightarrow> breaker_sys \<Rightarrow> bool" where
  bk_tick: "bclock s \<le> t \<Longrightarrow> breaker_step s (s\<lparr>bclock := t\<rparr>)"
| bk_admit: "Allow (Some (brk s)) (bclock s) k = (Some b', p, True) \<Longrightarrow>
     breaker_step s (s\<lparr>brk := b', inflight := (p, state (circuit b' k) = circuitStateHalfOpen) # inflight s\<rparr>)"
| bk_deny: "Allow (Some (brk s)) (bclock s) k = (Some b', p, False) \<Longrightarrow> breaker_step s (s\<lparr>brk := b'\<rparr>)"
| bk_finish: "pf \<in> set (inflight s) \<Longrightarrow> finish (Some (fst pf)) (brk s) (bclock s) success count = (p', b') \<Longrightarrow>
     breaker_step s (s\<lparr>brk := b', inflight := remove1 pf (inflight s)\<rparr>)"

inductive_cases breaker_step_elim: "breaker_step s s'"

definition breakerCfgOk :: "CircuitBreakerConfig \<Rightarrow> bool" where
  "breakerCfgOk cfg \<longleftrightarrow> cb_Enabled cfg \<and> 0 < cb_FailureThreshold cfg \<and> cb_FailureThreshold cfg < 2 ^ 63 \<and>
     0 < cb_HalfOpenMaxRequests cfg \<and> cb_HalfOpenMaxRequests cfg < 2 ^ 63 \<and> 0 < cb_OpenTimeout cfg"

definition breaker_start :: "CircuitBreakerConfig \<Rightarrow> breaker_sys \<Rightarrow> bool" where
  "breaker_start cfg s \<longleftrightarrow> (\<exists>backends metrics now.
     s = \<lparr>brk = newCircuitBreaker cfg backends metrics, bclock = now, inflight = []\<rparr>)"

definition circuitOk :: "CircuitBreakerConfig \<Rightarrow> time \<Rightarrow> backendCircuitState \<Rightarrow> bool" where
  "circuitOk cfg now st \<longleftrightarrow>
     0 \<le> halfOpenInFlight st \<and> halfOpenInFlight st \<le> cb_HalfOpenMaxRequests cfg \<and>
     0 \<le> consecutiveFailures st \<and> consecutiveFailures st \<le> cb_FailureThreshold cfg \<and>
     (state st = circuitStateClosed \<longrightarrow> halfOpenInFlight st = 0 \<and> consecutiveFailures st < cb_FailureThreshold cfg) \<and>
     (state st = circuitStateOpen \<longrightarrow> halfOpenInFlight st = 0 \<and> openedAt st \<le> now)"

lemma closedState_ok: "breakerCfgOk cfg \<Longrightarrow> circuitOk cfg now closedState"
  by (simp add: circuitOk_def closedState_def breakerCfgOk_def)

lemma allowState_ok:
  assumes "breakerCfgOk cfg" "circuitOk cfg now st"
  shows "circuitOk cfg now (fst (allowState cfg now st))"
proof -
  have "wrap64 (halfOpenInFlight st + 1) = halfOpenInFlight st + 1" if "halfOpenInFlight st < cb_HalfOpenMaxRequests cfg"
    using that assms by (intro wrap64_id) (auto simp: int64_def breakerCfgOk_def circuitOk_def)
  moreover have "wrap64 1 = 1" by (simp add: wrap64_def)
  ultimately show ?thesis
    using assms by (auto simp: allowState_def Let_def circuitOk_def breakerCfgOk_def split: circuitState.splits)
qed

lemma leaveProbe_ok:
  assumes "breakerCfgOk cfg" "circuitOk cfg now st"
  shows "circuitOk cfg now (leaveProbe st)"
proof -
  have "wrap64 (halfOpenInFlight st - 1) = halfOpenInFlight st - 1" if "0 < halfOpenInFlight st"
    using that assms by (intro wrap64_id) (auto simp: int64_def breakerCfgOk_def circuitOk_def)
  then show ?thesis
    using assms by (auto simp: leaveProbe_def circuitOk_def)
qed

lemma openState_ok: "circuitOk cfg now st \<Longrightarrow> circuitOk cfg now (openState now st)"
  by (auto simp: circuitOk_def openState_def)

lemma failState_ok:
  assumes "breakerCfgOk cfg" "circuitOk cfg now st"
  shows "circuitOk cfg now (failState cfg now st)"
proof (cases "state st")
  case circuitStateClosed
  with assms have "int64 (consecutiveFailures st + 1)"
    by (auto simp: circuitOk_def int64_def breakerCfgOk_def)
  with circuitStateClosed assms show ?thesis
    by (auto simp: failState_def Let_def circuitOk_def openState_def breakerCfgOk_def)
next
  case circuitStateHalfOpen
  then show ?thesis
    using openState_ok leaveProbe_ok [OF assms] by (simp add: failState_def)
next
  case circuitStateOpen
  then show ?thesis using assms by (simp add: failState_def)
qed

lemma finishState_ok:
  assumes "breakerCfgOk cfg" "circuitOk cfg now st"
  shows "circuitOk cfg now (finishState cfg now success count st)"
proof -
  have "circuitOk cfg now (succeedState st')" if "circuitOk cfg now st'" for st'
    using that assms(1) by (auto simp: succeedState_def circuitOk_def breakerCfgOk_def)
  then show ?thesis
    using leaveProbe_ok [OF assms] failState_ok [OF assms] by (simp add: finishState_def)
qed

lemma circuitOk_later: "circuitOk cfg now st \<Longrightarrow> now \<le> t \<Longrightarrow> circuitOk cfg t st"
  by (auto simp: circuitOk_def)

lemma granted_fields [simp]:
  "pm_allowed (grantedPermit k)" "pm_breaker (grantedPermit k)" "\<not> pm_done (grantedPermit k)"
  "pm_backend (grantedPermit k) = k"
  by (simp_all add: grantedPermit_def)

text \<open>The invariant of a breaker.\<close>

definition breaker_inv :: "CircuitBreakerConfig \<Rightarrow> breaker_sys \<Rightarrow> bool" where
  "breaker_inv cfg s \<longleftrightarrow> (breakerCfgOk cfg \<longrightarrow>
     br_cfg (brk s) = cfg \<and> gaugeOk (brk s) \<and> (\<forall>k. circuitOk cfg (bclock s) (circuit (brk s) k)) \<and>
     (\<forall>(p, f) \<in> set (inflight s). p = grantedPermit (pm_backend p)))"

lemma newCircuitBreaker_fold:
  assumes "gaugeOk b" "\<And>k. circuit b k = closedState" "br_cfg b = cfg"
    and "b' = fold (\<lambda>backend b. setStateMetricLocked (putState b backend closedState) backend circuitStateClosed) ks b"
  shows "gaugeOk b' \<and> (\<forall>k. circuit b' k = closedState) \<and> br_cfg b' = cfg"
  using assms
proof (induction ks arbitrary: b)
  case (Cons k ks)
  let ?b = "setStateMetricLocked (putState b k closedState) k circuitStateClosed"
  have "gaugeOk (setStateMetricLocked (putState b k closedState) k (state closedState))"
    by (rule gaugeOk_set [where st = closedState]) (use Cons.prems(1) in \<open>simp_all add: gaugeOk_but\<close>)
  then have "gaugeOk ?b" by (simp add: closedState_def)
  moreover have "circuit ?b j = closedState" for j
    using Cons.prems(2) by (auto simp: circuit_def split: option.splits)
  ultimately show ?case
    using Cons.IH [of ?b] Cons.prems(3,4) by simp
qed simp

lemma newCircuitBreaker_ok:
  "gaugeOk (newCircuitBreaker cfg ks m) \<and> (\<forall>k. circuit (newCircuitBreaker cfg ks m) k = closedState) \<and>
     br_cfg (newCircuitBreaker cfg ks m) = cfg"
  unfolding newCircuitBreaker_def
  by (rule newCircuitBreaker_fold [OF _ _ _ refl]) (simp_all add: gaugeOk_def circuit_def)

lemma breaker_inv_step:
  assumes inv: "breaker_inv cfg s" and step: "breaker_step s s'"
  shows "breaker_inv cfg s'"
proof (cases "breakerCfgOk cfg")
  case ok: True
  with inv have c: "br_cfg (brk s) = cfg" "gaugeOk (brk s)" "\<And>k. circuitOk cfg (bclock s) (circuit (brk s) k)"
    and pm: "\<forall>(p, f) \<in> set (inflight s). p = grantedPermit (pm_backend p)"
    by (auto simp: breaker_inv_def)
  have en: "cb_Enabled (br_cfg (brk s))" using ok c by (simp add: breakerCfgOk_def)
  have upd: "br_cfg b' = cfg \<and> gaugeOk b' \<and> (\<forall>j. circuitOk cfg (bclock s) (circuit b' j))"
    if "updates (brk s) k st b'" "circuitOk cfg (bclock s) st" for k st b'
    using that updates_circuit [OF that(1)] c by (auto simp: updates_def)
  show ?thesis
    using step
  proof (cases rule: breaker_step.cases)
    case (bk_tick t)
    then show ?thesis using c pm ok circuitOk_later by (fastforce simp: breaker_inv_def)
  next
    case (bk_admit k b' p)
    have u: "updates (brk s) k (fst (allowState cfg (bclock s) (circuit (brk s) k))) b'" and "p = grantedPermit k"
      using Allow_updates [OF en bk_admit(2)] c(1) by auto
    then show ?thesis
      using upd [OF u allowState_ok [OF ok c(3)]] pm bk_admit(1) by (auto simp: breaker_inv_def grantedPermit_def)
  next
    case (bk_deny k b' p)
    have u: "updates (brk s) k (fst (allowState cfg (bclock s) (circuit (brk s) k))) b'"
      using Allow_updates [OF en bk_deny(2)] c(1) by auto
    show ?thesis
      using upd [OF u allowState_ok [OF ok c(3)]] pm bk_deny(1) by (auto simp: breaker_inv_def)
  next
    case (bk_finish pf success count p' b')
    then have "fst pf = grantedPermit (pm_backend (fst pf))" using pm by auto
    then have g: "pm_allowed (fst pf)" "pm_breaker (fst pf)" "\<not> pm_done (fst pf)"
      by (metis granted_fields)+
    have u: "updates (brk s) (pm_backend (fst pf))
        (finishState cfg (bclock s) success count (circuit (brk s) (pm_backend (fst pf)))) b'"
      using finish_updates [OF en g, of "bclock s" success count] bk_finish(3) c(1) by auto
    show ?thesis
      using upd [OF u finishState_ok [OF ok c(3)]] pm bk_finish(1)
      by (auto simp: breaker_inv_def dest: set_remove1_subset [THEN subsetD])
  qed
qed (simp add: breaker_inv_def)

interpretation breaker_sys: invariant_system "breaker_start cfg" breaker_step "breaker_inv cfg" for cfg
proof
  fix s
  assume "breaker_start cfg s"
  then show "breaker_inv cfg s"
    using newCircuitBreaker_ok closedState_ok by (auto simp: breaker_inv_def breaker_start_def)
qed (rule breaker_inv_step)

section \<open>Properties of the breaker\<close>

definition demoBreakerCfg :: CircuitBreakerConfig where
  "demoBreakerCfg = \<lparr>cb_Enabled = True, cb_FailureThreshold = 1, cb_OpenTimeout = second, cb_HalfOpenMaxRequests = 1\<rparr>"

lemma demoBreakerCfg_ok: "breakerCfgOk demoBreakerCfg"
  by (simp add: breakerCfgOk_def demoBreakerCfg_def second_def)

text \<open>C2. Safety of the breaker: in every run of concurrent requests every circuit is in a legal state.
  A closed circuit has fewer consecutive failures than the threshold and no probe counted, an open
  one was opened in the past and has no probe counted, the probe counter of a half-open one stays
  within its limit, and the exported gauge always shows the true state of every circuit.\<close>

theorem breaker_always_legal:
  assumes "breakerCfgOk cfg" and "reach (breaker_start cfg) breaker_step s"
  shows "circuitOk cfg (bclock s) (circuit (brk s) k) \<and> gaugeOk (brk s)"
  using breaker_sys.reach_inv [OF assms(2)] assms(1) by (simp add: breaker_inv_def)

theorem breaker_always_legal_witness:
  "circuitOk demoBreakerCfg 7 (circuit (newCircuitBreaker demoBreakerCfg [''a''] True) ''a'') \<and>
     gaugeOk (newCircuitBreaker demoBreakerCfg [''a''] True)"
proof -
  let ?s = "\<lparr>brk = newCircuitBreaker demoBreakerCfg [''a''] True, bclock = 7, inflight = []\<rparr>"
  have "reach (breaker_start demoBreakerCfg) breaker_step ?s"
    by (rule reach_start) (auto simp: breaker_start_def)
  from breaker_always_legal [OF demoBreakerCfg_ok this, of "''a''"] show ?thesis by simp
qed

text \<open>C3. The breaker refines one independent circuit per backend: an admission decision and the
  settling of a permit act on the circuit of that backend exactly as the single-circuit machine does,
  and leave the circuit of every other backend and the configuration as they are.\<close>

theorem breaker_refines_circuits:
  assumes "cb_Enabled (br_cfg b)" and "pm_allowed p" "pm_breaker p" "\<not> pm_done p"
  shows "(\<exists>b' pm. Allow (Some b) now k = (Some b', pm, snd (allowState (br_cfg b) now (circuit b k))) \<and> br_cfg b' = br_cfg b \<and>
       (\<forall>j. circuit b' j = (if j = k then fst (allowState (br_cfg b) now (circuit b k)) else circuit b j))) \<and>
     (\<exists>b'. finish (Some p) b now success count = (Some (p\<lparr>pm_done := True\<rparr>), b') \<and> br_cfg b' = br_cfg b \<and>
       (\<forall>j. circuit b' j = (if j = pm_backend p then finishState (br_cfg b) now success count (circuit b (pm_backend p))
          else circuit b j)))"
proof (intro conjI)
  obtain bp pm ok where al: "Allow (Some b) now k = (bp, pm, ok)" by (cases "Allow (Some b) now k")
  then show "\<exists>b' pm. Allow (Some b) now k = (Some b', pm, snd (allowState (br_cfg b) now (circuit b k))) \<and> br_cfg b' = br_cfg b \<and>
       (\<forall>j. circuit b' j = (if j = k then fst (allowState (br_cfg b) now (circuit b k)) else circuit b j))"
    using Allow_updates [OF assms(1) al] updates_circuit by (fastforce simp: updates_def)
  show "\<exists>b'. finish (Some p) b now success count = (Some (p\<lparr>pm_done := True\<rparr>), b') \<and> br_cfg b' = br_cfg b \<and>
       (\<forall>j. circuit b' j = (if j = pm_backend p then finishState (br_cfg b) now success count (circuit b (pm_backend p))
          else circuit b j))"
    using finish_updates [OF assms, of now success count] updates_circuit by (fastforce simp: updates_def)
qed

theorem breaker_refines_circuits_witness:
  "\<exists>b' pm. Allow (Some (newCircuitBreaker demoBreakerCfg [''a''] True)) 0 ''a'' = (Some b', pm, True)"
proof -
  let ?b = "newCircuitBreaker demoBreakerCfg [''a''] True"
  have cfg: "br_cfg ?b = demoBreakerCfg" and st: "circuit ?b ''a'' = closedState"
    using newCircuitBreaker_ok by auto
  have "cb_Enabled (br_cfg ?b)" unfolding cfg by (simp add: demoBreakerCfg_def)
  moreover have "snd (allowState demoBreakerCfg 0 closedState)"
    by (simp add: allowState_def closedState_def)
  ultimately show ?thesis
    using breaker_refines_circuits [of ?b "grantedPermit ''a''" 0 "''a''" True True] cfg st by auto
qed

text \<open>An open circuit admits nobody before its timeout, and changes in no way; at the timeout the
  next request is admitted as the first probe of a half-open circuit.\<close>

theorem open_circuit_admission:
  assumes "breakerCfgOk cfg" and "circuitOk cfg now st" and "state st = circuitStateOpen"
  shows "allowState cfg now st =
     (if timeSub now (openedAt st) < cb_OpenTimeout cfg then (st, False)
      else (st\<lparr>state := circuitStateHalfOpen, halfOpenInFlight := 1\<rparr>, True))"
proof -
  have "halfOpenInFlight st = 0" using assms by (simp add: circuitOk_def)
  moreover have "wrap64 1 = 1" by (simp add: wrap64_def)
  ultimately show ?thesis
    using assms(1,3) by (simp add: allowState_def Let_def breakerCfgOk_def)
qed

theorem open_circuit_admission_witness:
  "allowState demoBreakerCfg 5 (openState 4 closedState) = (openState 4 closedState, False)"
proof -
  have "circuitOk demoBreakerCfg 5 (openState 4 closedState)" "state (openState 4 closedState) = circuitStateOpen"
    by (simp_all add: circuitOk_def demoBreakerCfg_def openState_def closedState_def)
  from open_circuit_admission [OF demoBreakerCfg_ok this] show ?thesis
    by (simp add: openState_def closedState_def timeSub_def maxInt64_def minInt64_def demoBreakerCfg_def second_def)
qed

text \<open>Failures of one backend at the given times, each settling a permit that \<^verbatim>\<open>Allow\<close> granted for it.\<close>

definition failAll :: "string \<Rightarrow> time list \<Rightarrow> circuitBreaker \<Rightarrow> circuitBreaker" where
  "failAll k ts b = fold (\<lambda>t b. snd (Fail (Some (grantedPermit k)) b t)) ts b"

lemma failAll_snoc [simp]: "failAll k (ts @ [t]) b = snd (Fail (Some (grantedPermit k)) (failAll k ts b) t)"
  by (simp add: failAll_def)

lemma Fail_circuit:
  assumes "cb_Enabled (br_cfg b)"
  shows "br_cfg (snd (Fail (Some (grantedPermit k)) b t)) = br_cfg b"
    and "circuit (snd (Fail (Some (grantedPermit k)) b t)) k = failState (br_cfg b) t (circuit b k)"
proof -
  obtain b' where b': "finish (Some (grantedPermit k)) b t False True = (Some ((grantedPermit k)\<lparr>pm_done := True\<rparr>), b')"
    "updates b k (finishState (br_cfg b) t False True (circuit b k)) b'"
    using finish_updates [OF assms, of "grantedPermit k" t False True] by auto
  then show "br_cfg (snd (Fail (Some (grantedPermit k)) b t)) = br_cfg b" by (simp add: Fail_def updates_def)
  show "circuit (snd (Fail (Some (grantedPermit k)) b t)) k = failState (br_cfg b) t (circuit b k)"
    using b'(1) updates_circuit [OF b'(2)] by (simp add: Fail_def finishState_def)
qed

lemma failAll_closed:
  assumes ok: "breakerCfgOk (br_cfg b)" and st: "state (circuit b k) = circuitStateClosed" "consecutiveFailures (circuit b k) = 0"
    and "int (length ts) < cb_FailureThreshold (br_cfg b)"
  shows "br_cfg (failAll k ts b) = br_cfg b \<and> circuit (failAll k ts b) k = (circuit b k)\<lparr>consecutiveFailures := int (length ts)\<rparr>"
  using assms(4)
proof (induction ts rule: rev_induct)
  case Nil
  then show ?case using st by (simp add: failAll_def)
next
  case (snoc t ts)
  have "wrap64 (int (length ts) + 1) = int (length ts) + 1"
    using snoc.prems ok by (intro wrap64_id) (simp add: int64_def breakerCfgOk_def)
  with snoc Fail_circuit [of "failAll k ts b" k t] ok st show ?case by (simp add: breakerCfgOk_def failState_def Let_def)
qed

text \<open>What \<^verbatim>\<open>Allow\<close> decides, from the circuit of the backend.\<close>

lemma Allow_decision: "cb_Enabled (br_cfg b) \<Longrightarrow> snd (snd (Allow (Some b) now k)) = snd (allowState (br_cfg b) now (circuit b k))"
  using Allow_updates [of b now k] by (cases "Allow (Some b) now k") auto

text \<open>C20. The breaker opens a circuit exactly at the configured number of consecutive failures: from a closed circuit
  without failures, as many calls of \<^verbatim>\<open>Fail\<close> on granted permits as are below the threshold leave it closed and counting, and
  \<^verbatim>\<open>Allow\<close> admits the next request; the failure that reaches the threshold opens it at that moment, and \<^verbatim>\<open>Allow\<close> then refuses
  every request until the open timeout has passed.\<close>

theorem circuit_opens_at_threshold:
  assumes ok: "breakerCfgOk (br_cfg b)" and st: "state (circuit b k) = circuitStateClosed" "consecutiveFailures (circuit b k) = 0"
  shows "(int (length ts) < cb_FailureThreshold (br_cfg b) \<longrightarrow>
        state (circuit (failAll k ts b) k) = circuitStateClosed \<and> consecutiveFailures (circuit (failAll k ts b) k) = int (length ts) \<and>
        snd (snd (Allow (Some (failAll k ts b)) now k))) \<and>
     (int (length ts) + 1 = cb_FailureThreshold (br_cfg b) \<longrightarrow>
        state (circuit (failAll k (ts @ [t]) b) k) = circuitStateOpen \<and> openedAt (circuit (failAll k (ts @ [t]) b) k) = t \<and>
        (timeSub now t < cb_OpenTimeout (br_cfg b) \<longrightarrow> \<not> snd (snd (Allow (Some (failAll k (ts @ [t]) b)) now k))))"
proof (rule conjI; rule impI)
  have en: "cb_Enabled (br_cfg b)" using ok by (simp add: breakerCfgOk_def)
  {
    assume "int (length ts) < cb_FailureThreshold (br_cfg b)"
    from failAll_closed [OF ok st this] st en
    show "state (circuit (failAll k ts b) k) = circuitStateClosed \<and> consecutiveFailures (circuit (failAll k ts b) k) = int (length ts) \<and>
        snd (snd (Allow (Some (failAll k ts b)) now k))"
      by (simp add: Allow_decision allowState_def)
  }
  assume n: "int (length ts) + 1 = cb_FailureThreshold (br_cfg b)"
  then have f: "br_cfg (failAll k ts b) = br_cfg b" "circuit (failAll k ts b) k = (circuit b k)\<lparr>consecutiveFailures := int (length ts)\<rparr>"
    using failAll_closed [OF ok st, of ts] by auto
  have "wrap64 (int (length ts) + 1) = int (length ts) + 1"
    using n ok by (intro wrap64_id) (simp add: int64_def breakerCfgOk_def)
  with Fail_circuit [of "failAll k ts b" k t] en f n st
  have g: "br_cfg (failAll k (ts @ [t]) b) = br_cfg b" "state (circuit (failAll k (ts @ [t]) b) k) = circuitStateOpen"
      "openedAt (circuit (failAll k (ts @ [t]) b) k) = t"
    by (simp_all add: failState_def openState_def Let_def)
  then have "\<not> snd (snd (Allow (Some (failAll k (ts @ [t]) b)) now k))" if "timeSub now t < cb_OpenTimeout (br_cfg b)"
    using that en by (subst Allow_decision) (auto simp: allowState_def Let_def)
  with g show "state (circuit (failAll k (ts @ [t]) b) k) = circuitStateOpen \<and> openedAt (circuit (failAll k (ts @ [t]) b) k) = t \<and>
        (timeSub now t < cb_OpenTimeout (br_cfg b) \<longrightarrow> \<not> snd (snd (Allow (Some (failAll k (ts @ [t]) b)) now k)))"
    by blast
qed

theorem circuit_opens_at_threshold_witness:
  "state (circuit (failAll ''a'' [42] (newCircuitBreaker demoBreakerCfg [''a''] True)) ''a'') = circuitStateOpen \<and>
     \<not> snd (snd (Allow (Some (failAll ''a'' [42] (newCircuitBreaker demoBreakerCfg [''a''] True))) 43 ''a''))"
proof -
  let ?b = "newCircuitBreaker demoBreakerCfg [''a''] True"
  have cfg: "br_cfg ?b = demoBreakerCfg" and st: "circuit ?b ''a'' = closedState"
    using newCircuitBreaker_ok by auto
  have "breakerCfgOk (br_cfg ?b)" unfolding cfg by (rule demoBreakerCfg_ok)
  from circuit_opens_at_threshold [OF this, of "''a''" "[]" 43 42] st show ?thesis
    unfolding cfg by (simp add: closedState_def demoBreakerCfg_def timeSub_def maxInt64_def minInt64_def second_def)
qed

text \<open>A probe decides a half-open circuit: one counted success closes it with all counters cleared,
  one counted failure opens it again from that moment, and an ignored outcome only gives its probe
  slot back.\<close>

theorem half_open_resolution:
  assumes "breakerCfgOk cfg" and "circuitOk cfg now st" and "state st = circuitStateHalfOpen"
  shows "finishState cfg now True True st = st\<lparr>state := circuitStateClosed, consecutiveFailures := 0, halfOpenInFlight := 0\<rparr> \<and>
     finishState cfg now False True st = st\<lparr>state := circuitStateOpen, openedAt := now, halfOpenInFlight := 0\<rparr> \<and>
     finishState cfg now False False st = st\<lparr>halfOpenInFlight := max 0 (halfOpenInFlight st - 1)\<rparr>"
proof -
  have "wrap64 (halfOpenInFlight st - 1) = halfOpenInFlight st - 1" if "0 < halfOpenInFlight st"
    using that assms by (intro wrap64_id) (auto simp: int64_def breakerCfgOk_def circuitOk_def)
  then have lp: "leaveProbe st = st\<lparr>halfOpenInFlight := max 0 (halfOpenInFlight st - 1)\<rparr>"
    using assms(2,3) by (auto simp: leaveProbe_def circuitOk_def)
  with assms(3) show ?thesis
    by (simp add: finishState_def succeedState_def failState_def openState_def)
qed

theorem half_open_resolution_witness:
  "finishState demoBreakerCfg 9 True True (closedState\<lparr>state := circuitStateHalfOpen, halfOpenInFlight := 1\<rparr>) =
     closedState\<lparr>state := circuitStateClosed, consecutiveFailures := 0, halfOpenInFlight := 0\<rparr>"
proof -
  have "circuitOk demoBreakerCfg 9 (closedState\<lparr>state := circuitStateHalfOpen, halfOpenInFlight := 1\<rparr>)"
    by (simp add: circuitOk_def closedState_def demoBreakerCfg_def)
  from half_open_resolution [OF demoBreakerCfg_ok this] show ?thesis by (simp add: closedState_def)
qed

text \<open>A breaker that knows one backend, for concrete runs.\<close>

definition soloBreaker :: "backendCircuitState \<Rightarrow> circuitBreaker" where
  "soloBreaker st = \<lparr>br_cfg = demoBreakerCfg, br_gauge = None, br_states = [''a'' \<mapsto> st]\<rparr>"

definition halfOpenState :: "int \<Rightarrow> backendCircuitState" where
  "halfOpenState n = \<lparr>state = circuitStateHalfOpen, consecutiveFailures = 1, openedAt = 0, halfOpenInFlight = n\<rparr>"

definition openedState :: backendCircuitState where
  "openedState = \<lparr>state = circuitStateOpen, consecutiveFailures = 1, openedAt = 0, halfOpenInFlight = 0\<rparr>"

lemmas breaker_eval = soloBreaker_def halfOpenState_def openedState_def closedState_def demoBreakerCfg_def Allow.simps(2)
  finish_def stateLocked_def transitionLocked_def openLocked_def setStateMetricLocked_def putState_def
  timeSub_def maxInt64_def minInt64_def second_def wrap64_def grantedPermit_def circuit_def Let_def

lemma solo_new: "newCircuitBreaker demoBreakerCfg [''a''] False = soloBreaker closedState"
  by (simp add: newCircuitBreaker_def breaker_eval)

lemma solo_runs:
  "Allow (Some (soloBreaker closedState)) 0 ''a'' = (Some (soloBreaker closedState), grantedPermit ''a'', True)"
  "finish (Some (grantedPermit ''a'')) (soloBreaker closedState) 0 False True =
     (Some ((grantedPermit ''a'')\<lparr>pm_done := True\<rparr>), soloBreaker openedState)"
  "Allow (Some (soloBreaker openedState)) second ''a'' = (Some (soloBreaker (halfOpenState 1)), grantedPermit ''a'', True)"
  "finish (Some (grantedPermit ''a'')) (soloBreaker (halfOpenState 1)) second False False =
     (Some ((grantedPermit ''a'')\<lparr>pm_done := True\<rparr>), soloBreaker (halfOpenState 0))"
  "Allow (Some (soloBreaker (halfOpenState 0))) second ''a'' = (Some (soloBreaker (halfOpenState 1)), grantedPermit ''a'', True)"
  by (simp_all add: breaker_eval)

text \<open>C38. The limit on concurrent probes is not kept when a request admitted before the circuit opened
  finishes while it is half-open: settling it gives back a probe slot it never held. With a limit of
  one, two probes are in flight at the same time.\<close>

theorem probe_limit_exceeded:
  "\<exists>s. reach (breaker_start demoBreakerCfg) breaker_step s \<and> cb_HalfOpenMaxRequests demoBreakerCfg = 1 \<and>
     state (circuit (brk s) ''a'') = circuitStateHalfOpen \<and>
     inflight s = [(grantedPermit ''a'', True), (grantedPermit ''a'', True)]"
proof -
  let ?p = "grantedPermit ''a''" and ?s = "\<lambda>st t ps. \<lparr>brk = soloBreaker st, bclock = t, inflight = ps\<rparr>"
  have probe: "state (circuit (soloBreaker closedState) ''a'') \<noteq> circuitStateHalfOpen"
    "\<And>n. state (circuit (soloBreaker (halfOpenState n)) ''a'') = circuitStateHalfOpen"
    by (simp_all add: soloBreaker_def circuit_def closedState_def halfOpenState_def)
  have "reach (breaker_start demoBreakerCfg) breaker_step (?s closedState 0 [])"
    by (rule reach_start) (metis breaker_start_def solo_new)
  moreover have "breaker_step (?s closedState 0 ps) (?s closedState 0 ((?p, False) # ps))" for ps
    using bk_admit [of "?s closedState 0 ps" "''a''"] solo_runs(1) probe(1) by simp
  moreover have "breaker_step (?s closedState 0 [(?p, False), (?p, False)]) (?s openedState 0 [(?p, False)])"
    using bk_finish [of "(?p, False)" "?s closedState 0 [(?p, False), (?p, False)]" False True] solo_runs(2) by simp
  moreover have "breaker_step (?s openedState 0 [(?p, False)]) (?s openedState second [(?p, False)])"
    using bk_tick [of "?s openedState 0 [(?p, False)]" second] by (simp add: second_def)
  moreover have "breaker_step (?s openedState second [(?p, False)]) (?s (halfOpenState 1) second [(?p, True), (?p, False)])"
    using bk_admit [of "?s openedState second [(?p, False)]" "''a''"] solo_runs(3) probe(2) by simp
  moreover have "breaker_step (?s (halfOpenState 1) second [(?p, True), (?p, False)]) (?s (halfOpenState 0) second [(?p, True)])"
    using bk_finish [of "(?p, False)" "?s (halfOpenState 1) second [(?p, True), (?p, False)]" False False] solo_runs(4) by simp
  moreover have "breaker_step (?s (halfOpenState 0) second [(?p, True)]) (?s (halfOpenState 1) second [(?p, True), (?p, True)])"
    using bk_admit [of "?s (halfOpenState 0) second [(?p, True)]" "''a''"] solo_runs(5) probe(2) by simp
  ultimately have "reach (breaker_start demoBreakerCfg) breaker_step (?s (halfOpenState 1) second [(?p, True), (?p, True)])"
    by (meson reach_step)
  then show ?thesis
    using probe(2) by (intro exI conjI) (assumption, simp_all add: demoBreakerCfg_def)
qed

text \<open>A late success closes an open circuit: when a request admitted before the circuit opened
  reports success while it is open, the circuit closes at once, before its open timeout and without
  a half-open phase.\<close>

theorem late_success_closes_open_circuit:
  assumes "state st = circuitStateOpen"
  shows "state (finishState cfg now True True st) = circuitStateClosed \<and>
     snd (allowState cfg now (finishState cfg now True True st))"
  using assms by (simp add: finishState_def leaveProbe_def succeedState_def allowState_def)

theorem late_success_closes_open_circuit_witness:
  "timeSub 1 (openedAt openedState) < cb_OpenTimeout demoBreakerCfg \<and>
     state (finishState demoBreakerCfg 1 True True openedState) = circuitStateClosed"
  using late_success_closes_open_circuit [of openedState demoBreakerCfg 1]
  by (simp add: openedState_def demoBreakerCfg_def timeSub_def maxInt64_def minInt64_def second_def)

end
