(* ===== verification/Go_Net.thy ===== *)
theory Go_Net
  imports Go_Strings
begin

text \<open>
  What the gateway uses of Go's packages \<^verbatim>\<open>net\<close> and \<^verbatim>\<open>net/url\<close> (Go 1.25.0):
  \<^verbatim>\<open>net.SplitHostPort\<close> and, of the result of \<^verbatim>\<open>url.Parse\<close>, the scheme and the host. \<open>None\<close> is
  an error.
\<close>

text \<open>The part before and the part after the last occurrence of a byte.\<close>

definition cutLast :: "char \<Rightarrow> string \<Rightarrow> (string \<times> string) option" where
  "cutLast d s = (case Cut d (rev s) of (a, b, found) \<Rightarrow> if found then Some (rev b, rev a) else None)"

definition SplitHostPort :: "string \<Rightarrow> (string \<times> string) option" where
  "SplitHostPort hostport =
     (case cutLast (CHR '':'') hostport of
        None \<Rightarrow> None
      | Some (front, port) \<Rightarrow>
          if HasPrefix hostport ''['' then
            (case Cut (CHR '']'') hostport of (a, b, found) \<Rightarrow>
               if \<not> found \<or> length a + 1 \<noteq> length front then None
               else if CHR ''['' \<in> set (tl hostport) \<or> CHR '']'' \<in> set b then None
               else Some (tl a, port))
          else if CHR '':'' \<in> set front \<or> CHR ''['' \<in> set hostport \<or> CHR '']'' \<in> set hostport then None
          else Some (front, port))"

section \<open>URLs\<close>

definition is_alpha :: "char \<Rightarrow> bool" where
  "is_alpha c \<longleftrightarrow> (let b = (of_char c :: nat) in (65 \<le> b \<and> b \<le> 90) \<or> (97 \<le> b \<and> b \<le> 122))"

definition is_digit :: "char \<Rightarrow> bool" where
  "is_digit c \<longleftrightarrow> dec_value c \<noteq> None"

definition ctl_byte :: "char \<Rightarrow> bool" where
  "ctl_byte c \<longleftrightarrow> (of_char c :: nat) < 32 \<or> (of_char c :: nat) = 127"

text \<open>
  \<^verbatim>\<open>getScheme\<close>, with the scheme read so far in reverse: \<open>None\<close> is the error of a colon in front,
  \<open>Some ([], raw)\<close> a URL without a scheme.
\<close>

fun getScheme_from :: "string \<Rightarrow> string \<Rightarrow> string \<Rightarrow> (string \<times> string) option" where
  "getScheme_from raw acc [] = Some ([], raw)"
| "getScheme_from raw acc (c # s) =
     (if is_alpha c then getScheme_from raw (c # acc) s
      else if is_digit c \<or> c \<in> set ''+-.'' then (if acc = [] then Some ([], raw) else getScheme_from raw (c # acc) s)
      else if c = CHR '':'' then (if acc = [] then None else Some (rev acc, s))
      else Some ([], raw))"

definition getScheme :: "string \<Rightarrow> (string \<times> string) option" where
  "getScheme raw = getScheme_from raw [] raw"

text \<open>The bytes \<^verbatim>\<open>shouldEscape\<close> allows in a host.\<close>

definition host_byte :: "char \<Rightarrow> bool" where
  "host_byte c \<longleftrightarrow> is_alpha c \<or> is_digit c \<or> c \<in> set ''!$&()*+,;=:[]<>-_.~'' \<or> c = CHR 0x27 \<or> c = CHR 0x22"

text \<open>
  \<^verbatim>\<open>unescape\<close>. \<open>esc_ok\<close> says which escaped bytes the mode accepts, \<open>raw_ok\<close> which unescaped ones.
\<close>

fun unescape :: "(char \<Rightarrow> bool) \<Rightarrow> (char \<Rightarrow> bool) \<Rightarrow> string \<Rightarrow> string option" where
  "unescape esc_ok raw_ok [] = Some []"
| "unescape esc_ok raw_ok (c # s) =
     (if c = CHR 0x25 then
        (case s of
           a # b # s' \<Rightarrow>
             (case (hex_value a, hex_value b) of
                (Some x, Some y) \<Rightarrow>
                  (let v = char_of (16 * x + y)
                   in if esc_ok v then map_option ((#) v) (unescape esc_ok raw_ok s') else None)
              | _ \<Rightarrow> None)
         | _ \<Rightarrow> None)
      else if raw_ok c then map_option ((#) c) (unescape esc_ok raw_ok s)
      else None)"

definition unescapeAny :: "string \<Rightarrow> string option" where
  "unescapeAny = unescape (\<lambda>_. True) (\<lambda>_. True)"

definition unescapeHost :: "string \<Rightarrow> string option" where
  "unescapeHost = unescape (\<lambda>v. 128 \<le> (of_char v :: nat) \<or> v = CHR 0x25) (\<lambda>c. 128 \<le> (of_char c :: nat) \<or> host_byte c)"

definition unescapeZone :: "string \<Rightarrow> string option" where
  "unescapeZone = unescape (\<lambda>v. v = CHR 0x25 \<or> v = CHR '' '' \<or> host_byte v) (\<lambda>c. 128 \<le> (of_char c :: nat) \<or> host_byte c)"

fun validOptionalPort :: "string \<Rightarrow> bool" where
  "validOptionalPort [] = True"
| "validOptionalPort (c # s) = (c = CHR '':'' \<and> list_all is_digit s)"

definition validUserinfo :: "string \<Rightarrow> bool" where
  "validUserinfo s = list_all (\<lambda>c. is_alpha c \<or> is_digit c \<or> c \<in> set ''-._:~!$&()*+,;=@'' \<or> c = CHR 0x27 \<or> c = CHR 0x25) s"

text \<open>The parts of a string before and from the first occurrence of a pattern.\<close>

fun breakAt :: "string \<Rightarrow> string \<Rightarrow> (string \<times> string) option" where
  "breakAt p [] = (if p = [] then Some ([], []) else None)"
| "breakAt p (c # s) = (if HasPrefix (c # s) p then Some ([], c # s)
     else case breakAt p s of None \<Rightarrow> None | Some (a, b) \<Rightarrow> Some (c # a, b))"

definition parseHost :: "string \<Rightarrow> string option" where
  "parseHost host =
     (if HasPrefix host ''['' then
        (case cutLast (CHR '']'') host of
           None \<Rightarrow> None
         | Some (a, b) \<Rightarrow>
             if \<not> validOptionalPort b then None
             else case breakAt [CHR 0x25, CHR ''2'', CHR ''5''] a of
                 None \<Rightarrow> unescapeHost host
               | Some (h1, h2) \<Rightarrow>
                   (case (unescapeHost h1, unescapeZone h2, unescapeHost (CHR '']'' # b)) of
                      (Some x, Some y, Some z) \<Rightarrow> Some (x @ y @ z)
                    | _ \<Rightarrow> None))
      else case cutLast (CHR '':'') host of
          None \<Rightarrow> unescapeHost host
        | Some (a, b) \<Rightarrow> if validOptionalPort (CHR '':'' # b) then unescapeHost host else None)"

definition parseAuthority :: "string \<Rightarrow> string option" where
  "parseAuthority authority =
     (case cutLast (CHR ''@'') authority of
        None \<Rightarrow> parseHost authority
      | Some (userinfo, h) \<Rightarrow>
          (case parseHost h of
             None \<Rightarrow> None
           | Some host \<Rightarrow> if validUserinfo userinfo \<and> unescapeAny userinfo \<noteq> None then Some host else None))"

text \<open>\<^verbatim>\<open>url.Parse\<close>: scheme and host. User name and password are unescaped separately in the source;
  as the colon between them is not part of an escape, both succeed when the whole does.\<close>

definition url_parse :: "string \<Rightarrow> (string \<times> string) option" where
  "url_parse raw =
     (if list_ex ctl_byte raw then None
      else if raw = ''*'' then Some ([], [])
      else case getScheme raw of
          None \<Rightarrow> None
        | Some (scheme0, rest0) \<Rightarrow>
            (let scheme = ToLower scheme0;
                 rest = fst (Cut (CHR ''?'') rest0)
             in if \<not> HasPrefix rest ''/'' \<and> scheme \<noteq> [] then Some (scheme, [])
                else if \<not> HasPrefix rest ''/'' \<and> CHR '':'' \<in> set (fst (Cut (CHR ''/'') rest)) then None
                else if (scheme \<noteq> [] \<or> \<not> HasPrefix rest ''///'') \<and> HasPrefix rest ''//'' then
                  (let authority = takeWhile (\<lambda>c. c \<noteq> CHR ''/'') (drop 2 rest);
                       path = dropWhile (\<lambda>c. c \<noteq> CHR ''/'') (drop 2 rest)
                   in case parseAuthority authority of
                        None \<Rightarrow> None
                      | Some host \<Rightarrow> if unescapeAny path = None then None else Some (scheme, host))
                else if unescapeAny rest = None then None else Some (scheme, [])))"

definition url_Parse :: "string \<Rightarrow> (string \<times> string) option" where
  "url_Parse raw =
     (case Cut (CHR ''#'') raw of (u, frag, found) \<Rightarrow>
        (case url_parse u of
           None \<Rightarrow> None
         | Some r \<Rightarrow> if unescapeAny frag = None then None else Some r))"

section \<open>Laws\<close>

lemma cutLast_append: "d \<notin> set b \<Longrightarrow> cutLast d (a @ d # b) = Some (a, b)"
  by (simp add: cutLast_def Cut_sep)

lemma SplitHostPort_join:
  assumes "set host \<inter> {CHR '':'', CHR ''['', CHR '']''} = {}" and "set port \<inter> {CHR '':'', CHR ''['', CHR '']''} = {}"
  shows "SplitHostPort (host @ '':'' @ port) = Some (host, port)"
proof -
  have "\<not> HasPrefix (host @ '':'' @ port) ''[''"
    using assms by (cases host) (auto simp: HasPrefix_def)
  with assms cutLast_append [of "CHR '':''" port host] show ?thesis
    by (auto simp: SplitHostPort_def)
qed

lemma breakAt_append: "breakAt p s = Some (a, b) \<Longrightarrow> s = a @ b \<and> HasPrefix b p"
  by (induction s arbitrary: a b) (auto simp: HasPrefix_def split: if_splits option.splits)

end
