(* ===== verification/Go_Json.thy ===== *)
theory Go_Json
  imports Go_Strings
begin

text \<open>
  What the gateway uses of Go's package \<^verbatim>\<open>encoding/json\<close>: reading a JSON text
  (\<^verbatim>\<open>json.Unmarshal\<close> into strings, numbers, slices, structs and \<^verbatim>\<open>RawMessage\<close>) and writing one.
  A text is split into tokens; the tokens drive a machine with a stack of open arrays and objects,
  like Go's scanner with its parse states and its nesting limit of 10000. The members of a parsed
  array or object keep the bytes they were read from, which is what a \<^verbatim>\<open>RawMessage\<close> stores.
  \<open>None\<close> is an error. Every caller in the gateway discards the result of a failed
  \<^verbatim>\<open>Unmarshal\<close>, so a decoder stops at the first error.
\<close>

section \<open>Tokens\<close>

datatype tok = TLit string | TNum string | TStr string | TPunct char

definition json_ws :: "char \<Rightarrow> bool" where
  "json_ws c \<longleftrightarrow> c = CHR '' '' \<or> c = CHR 0x09 \<or> c = CHR 0x0A \<or> c = CHR 0x0D"

definition json_digit :: "char \<Rightarrow> bool" where
  "json_digit c \<longleftrightarrow> dec_value c \<noteq> None"

text \<open>The length of the escape sequence at the front of a string, 0 if it is not a legal one.\<close>

definition escLen :: "string \<Rightarrow> nat" where
  "escLen s =
     (if take 1 (tl s) = ''u''
      then (if 6 \<le> length s \<and> list_all (\<lambda>h. hex_value h \<noteq> None) (take 4 (drop 2 s)) then 6 else 0)
      else if 2 \<le> length s \<and> (s ! 1 = CHR 0x22 \<or> s ! 1 = CHR 0x5C \<or> s ! 1 \<in> set ''/bfnrt'') then 2
      else 0)"

text \<open>The body of a string literal up to the closing quote, still escaped, and what follows it.\<close>

function scanString :: "string \<Rightarrow> (string \<times> string) option" where
  "scanString s =
     (if s = [] then None
      else if hd s = CHR 0x22 then Some ([], tl s)
      else if hd s = CHR 0x5C then
        (if escLen s = 0 then None
         else map_option (\<lambda>(b, r). (take (escLen s) s @ b, r)) (scanString (drop (escLen s) s)))
      else if (of_char (hd s) :: nat) < 32 then None
      else map_option (\<lambda>(b, r). (hd s # b, r)) (scanString (tl s)))"
  by pat_completeness auto
termination
  by (relation "measure length") auto

declare scanString.simps [simp del]

lemma scanString_shorter: "scanString s = Some (b, r) \<Longrightarrow> length r < length s"
proof (induction s arbitrary: b rule: scanString.induct)
  case (1 s)
  from 1(3) have s: "s \<noteq> []" by (auto simp: scanString.simps [of "[]"])
  have esc: "length r < length s" if "hd s \<noteq> CHR 0x22" "hd s = CHR 0x5C" "escLen s \<noteq> 0" "scanString (drop (escLen s) s) = Some (b', r)" for b'
    using 1(1) [OF s that] by simp
  have plain: "length r < length s"
    if "hd s \<noteq> CHR 0x22" "hd s \<noteq> CHR 0x5C" "\<not> (of_char (hd s) :: nat) < 32" "scanString (tl s) = Some (b', r)" for b'
    using 1(2) [OF s that] by simp
  show ?case
    using 1(3) s esc plain by (subst (asm) scanString.simps) (auto split: if_splits)
qed

text \<open>A number: optional minus, integer part without leading zeros, fraction, exponent.\<close>

definition dropDigits1 :: "string \<Rightarrow> string option" where
  "dropDigits1 s = (if s \<noteq> [] \<and> json_digit (hd s) then Some (dropWhile json_digit s) else None)"

definition numInt :: "string \<Rightarrow> string option" where
  "numInt s = (let s1 = TrimPrefix s ''-''
     in if HasPrefix s1 ''0'' then Some (tl s1) else dropDigits1 s1)"

definition numFrac :: "string \<Rightarrow> string option" where
  "numFrac s = (if HasPrefix s ''.'' then dropDigits1 (tl s) else Some s)"

definition numExp :: "string \<Rightarrow> string option" where
  "numExp s =
     (if HasPrefix s ''e'' \<or> HasPrefix s ''E''
      then dropDigits1 (if HasPrefix (tl s) ''+'' \<or> HasPrefix (tl s) ''-'' then drop 2 s else tl s)
      else Some s)"

definition validNumber :: "string \<Rightarrow> bool" where
  "validNumber s = (Option.bind (Option.bind (numInt s) numFrac) numExp = Some [])"

definition num_char :: "char \<Rightarrow> bool" where
  "num_char c \<longleftrightarrow> json_digit c \<or> c \<in> set ''+-.eE''"

text \<open>The tokens of a text, each with the white space in front of it.\<close>

function lex_from :: "string \<Rightarrow> string \<Rightarrow> (string \<times> tok) list option" where
  "lex_from ws [] = Some []"
| "lex_from ws (c # s) =
     (if json_ws c then lex_from (ws @ [c]) s
      else if c \<in> set ''{}[],:'' then map_option ((#) (ws, TPunct c)) (lex_from [] s)
      else if c = CHR 0x22 then
        (case scanString s of
           None \<Rightarrow> None
         | Some (b, r) \<Rightarrow> map_option ((#) (ws, TStr b)) (lex_from [] r))
      else if num_char c then
        (let n = takeWhile num_char (c # s)
         in if validNumber n then map_option ((#) (ws, TNum n)) (lex_from [] (dropWhile num_char s)) else None)
      else if HasPrefix (c # s) ''null'' then map_option ((#) (ws, TLit ''null'')) (lex_from [] (drop 3 s))
      else if HasPrefix (c # s) ''true'' then map_option ((#) (ws, TLit ''true'')) (lex_from [] (drop 3 s))
      else if HasPrefix (c # s) ''false'' then map_option ((#) (ws, TLit ''false'')) (lex_from [] (drop 4 s))
      else None)"
  by pat_completeness auto
termination
  by (relation "measure (\<lambda>(ws, s). length s)") (auto simp: le_imp_less_Suc length_dropWhile_le dest!: scanString_shorter)

declare lex_from.simps(2) [simp del]

definition lex :: "string \<Rightarrow> (string \<times> tok) list option" where
  "lex s = lex_from [] s"

fun tok_raw :: "tok \<Rightarrow> string" where
  "tok_raw (TLit s) = s"
| "tok_raw (TNum s) = s"
| "tok_raw (TStr s) = [CHR 0x22] @ s @ [CHR 0x22]"
| "tok_raw (TPunct c) = [c]"

section \<open>String literals\<close>

definition utf8_encode :: "nat \<Rightarrow> string" where
  "utf8_encode n =
     (if n < 0x80 then [char_of n]
      else if n < 0x800 then [char_of (0xC0 + n div 64), char_of (0x80 + n mod 64)]
      else if n < 0x10000 then [char_of (0xE0 + n div 4096), char_of (0x80 + n div 64 mod 64), char_of (0x80 + n mod 64)]
      else [char_of (0xF0 + n div 262144), char_of (0x80 + n div 4096 mod 64), char_of (0x80 + n div 64 mod 64), char_of (0x80 + n mod 64)])"

definition replacement :: string where
  "replacement = [CHR 0xEF, CHR 0xBF, CHR 0xBD]"

text \<open>A UTF-8 sequence of one byte that is not ASCII is invalid and becomes U+FFFD.\<close>

definition fixRune :: "string \<Rightarrow> string" where
  "fixRune r = (if length r = 1 \<and> 128 \<le> (of_char (hd r) :: nat) then replacement else r)"

definition hex4 :: "string \<Rightarrow> nat option" where
  "hex4 s =
     (case map hex_value (take 4 s) of
        [Some a, Some b, Some c, Some d] \<Rightarrow> Some (4096 * a + 256 * b + 16 * c + d)
      | _ \<Rightarrow> None)"

definition isSurrogate :: "nat \<Rightarrow> bool" where
  "isSurrogate n \<longleftrightarrow> 0xD800 \<le> n \<and> n < 0xE000"

text \<open>The second half of a surrogate pair at the front of a string.\<close>

definition lowHalf :: "string \<Rightarrow> nat option" where
  "lowHalf s =
     (if take 2 s = [CHR 0x5C, CHR ''u''] then
        (case hex4 (drop 2 s) of
           Some n \<Rightarrow> if 0xDC00 \<le> n \<and> n < 0xE000 then Some n else None
         | None \<Rightarrow> None)
      else None)"

definition escapeByte :: "char \<Rightarrow> char" where
  "escapeByte e =
     (if e = CHR ''b'' then CHR 0x08 else if e = CHR ''f'' then CHR 0x0C else if e = CHR ''n'' then CHR 0x0A
      else if e = CHR ''r'' then CHR 0x0D else if e = CHR ''t'' then CHR 0x09 else e)"

text \<open>\<^verbatim>\<open>unquote\<close> on the body of a literal the scanner accepted.\<close>

function unquote :: "string \<Rightarrow> string" where
  "unquote s =
     (if s = [] then []
      else if hd s = CHR 0x5C then
        (if take 1 (tl s) = ''u'' then
           (case hex4 (drop 2 s) of
              None \<Rightarrow> []
            | Some n \<Rightarrow>
                if isSurrogate n then
                  (case (if n < 0xDC00 then lowHalf (drop 6 s) else None) of
                     Some m \<Rightarrow> utf8_encode (0x10000 + (n - 0xD800) * 1024 + (m - 0xDC00)) @ unquote (drop 12 s)
                   | None \<Rightarrow> replacement @ unquote (drop 6 s))
                else utf8_encode n @ unquote (drop 6 s))
         else map escapeByte (take 1 (tl s)) @ unquote (drop 2 s))
      else fixRune (take (rune_len s) s) @ unquote (drop (rune_len s) s))"
  by pat_completeness auto
termination
  by (relation "measure length") auto

declare unquote.simps [simp del]

section \<open>The parser\<close>

datatype json =
    JNull | JBool bool | JNum string | JStr string
  | JArr "(string \<times> json) list"
  | JObj "(string \<times> string \<times> json) list"

text \<open>An open array or object: its members so far, last first, for an object the key that is being
  read, and the bytes read so far.\<close>

datatype frame = FArr "(string \<times> json) list" string | FObj "(string \<times> string \<times> json) list" string string

datatype expect = XValue | XFirst | XKey | XFirstKey | XColon | XSep | XEnd json

definition maxNestingDepth :: nat where
  "maxNestingDepth = 10000"

fun addRaw :: "string \<Rightarrow> frame list \<Rightarrow> frame list" where
  "addRaw w [] = []"
| "addRaw w (FArr es r # fs) = FArr es (r @ w) # fs"
| "addRaw w (FObj ms k r # fs) = FObj ms k (r @ w) # fs"

fun finishValue :: "json \<Rightarrow> string \<Rightarrow> frame list \<Rightarrow> frame list \<times> expect" where
  "finishValue v raw [] = ([], XEnd v)"
| "finishValue v raw (FArr es r # fs) = (FArr ((raw, v) # es) (r @ raw) # fs, XSep)"
| "finishValue v raw (FObj ms k r # fs) = (FObj ((k, raw, v) # ms) k (r @ raw) # fs, XSep)"

fun startValue :: "string \<Rightarrow> tok \<Rightarrow> frame list \<Rightarrow> (frame list \<times> expect) option" where
  "startValue w (TLit l) fs =
     Some (finishValue (if l = ''null'' then JNull else JBool (l = ''true'')) l (addRaw w fs))"
| "startValue w (TNum n) fs = Some (finishValue (JNum n) n (addRaw w fs))"
| "startValue w (TStr b) fs = Some (finishValue (JStr (unquote b)) (tok_raw (TStr b)) (addRaw w fs))"
| "startValue w (TPunct c) fs =
     (if maxNestingDepth \<le> length fs then None
      else if c = CHR ''['' then Some (FArr [] ''['' # addRaw w fs, XFirst)
      else if c = CHR ''{'' then Some (FObj [] [] ''{'' # addRaw w fs, XFirstKey)
      else None)"

fun closeFrame :: "string \<Rightarrow> frame list \<Rightarrow> (frame list \<times> expect) option" where
  "closeFrame w (FArr es r # fs) = Some (finishValue (JArr (rev es)) (r @ w @ '']'') fs)"
| "closeFrame w (FObj ms k r # fs) = Some (finishValue (JObj (rev ms)) (r @ w @ ''}'') fs)"
| "closeFrame w [] = None"

fun keyToken :: "string \<Rightarrow> tok \<Rightarrow> frame list \<Rightarrow> (frame list \<times> expect) option" where
  "keyToken w (TStr b) (FObj ms k r # fs) = Some (FObj ms (unquote b) (r @ w @ tok_raw (TStr b)) # fs, XColon)"
| "keyToken w t fs = None"

fun sepToken :: "string \<Rightarrow> tok \<Rightarrow> frame list \<Rightarrow> (frame list \<times> expect) option" where
  "sepToken w t (FArr es r # fs) =
     (if t = TPunct (CHR '','') then Some (addRaw (w @ '','') (FArr es r # fs), XValue)
      else if t = TPunct (CHR '']'') then closeFrame w (FArr es r # fs) else None)"
| "sepToken w t (FObj ms k r # fs) =
     (if t = TPunct (CHR '','') then Some (addRaw (w @ '','') (FObj ms k r # fs), XKey)
      else if t = TPunct (CHR ''}'') then closeFrame w (FObj ms k r # fs) else None)"
| "sepToken w t [] = None"

fun stepToken :: "frame list \<times> expect \<Rightarrow> string \<times> tok \<Rightarrow> (frame list \<times> expect) option" where
  "stepToken (fs, XValue) (w, t) = startValue w t fs"
| "stepToken (fs, XFirst) (w, t) = (if t = TPunct (CHR '']'') then closeFrame w fs else startValue w t fs)"
| "stepToken (fs, XKey) (w, t) = keyToken w t fs"
| "stepToken (fs, XFirstKey) (w, t) = (if t = TPunct (CHR ''}'') then closeFrame w fs else keyToken w t fs)"
| "stepToken (fs, XColon) (w, t) = (if t = TPunct (CHR '':'') then Some (addRaw (w @ '':'') fs, XValue) else None)"
| "stepToken (fs, XSep) (w, t) = sepToken w t fs"
| "stepToken (fs, XEnd v) (w, t) = None"

fun runTokens :: "frame list \<times> expect \<Rightarrow> (string \<times> tok) list \<Rightarrow> (frame list \<times> expect) option" where
  "runTokens st [] = Some st"
| "runTokens st (t # ts) = Option.bind (stepToken st t) (\<lambda>st'. runTokens st' ts)"

definition parse_json :: "string \<Rightarrow> json option" where
  "parse_json s =
     Option.bind (lex s) (\<lambda>ts.
       case runTokens ([], XValue) ts of Some ([], XEnd v) \<Rightarrow> Some v | _ \<Rightarrow> None)"

section \<open>Decoding into Go values\<close>

text \<open>A decoder takes the value that is there and the JSON value that is read into it.\<close>

fun decString :: "string \<Rightarrow> json \<Rightarrow> string option" where
  "decString old (JStr s) = Some s"
| "decString old JNull = Some old"
| "decString old _ = None"

fun decBool :: "bool \<Rightarrow> json \<Rightarrow> bool option" where
  "decBool old (JBool b) = Some b"
| "decBool old JNull = Some old"
| "decBool old _ = None"

text \<open>\<^verbatim>\<open>strconv.ParseInt(n, 10, 64)\<close> on a number literal is \<open>Atoi\<close>.\<close>

fun decInt :: "int \<Rightarrow> json \<Rightarrow> int option" where
  "decInt old (JNum n) = Atoi n"
| "decInt old JNull = Some old"
| "decInt old _ = None"

text \<open>Into a pointer: null makes it nil, any other value is decoded into what it points to.\<close>

fun decPtr :: "'a \<Rightarrow> ('a \<Rightarrow> json \<Rightarrow> 'a option) \<Rightarrow> 'a option \<Rightarrow> json \<Rightarrow> 'a option option" where
  "decPtr zero dec old JNull = Some None"
| "decPtr zero dec old v = map_option Some (dec (case old of None \<Rightarrow> zero | Some x \<Rightarrow> x) v)"

text \<open>
  Into a slice. A slice is its backing array and its length: decoding writes element \<open>i\<close> over what
  the backing array has at \<open>i\<close>, the zero value past its end.
\<close>

record 'a slice =
  backing :: "'a list"
  slen :: nat

definition emptySlice :: "'a slice" where
  "emptySlice = \<lparr>backing = [], slen = 0\<rparr>"

definition items :: "'a slice \<Rightarrow> 'a list" where
  "items s = take (slen s) (backing s)"

fun decElems :: "'a \<Rightarrow> ('a \<Rightarrow> string \<Rightarrow> json \<Rightarrow> 'a option) \<Rightarrow> 'a list \<Rightarrow> (string \<times> json) list \<Rightarrow> 'a list option" where
  "decElems zero dec old [] = Some old"
| "decElems zero dec old ((raw, v) # es) =
     Option.bind (dec (case old of [] \<Rightarrow> zero | x # _ \<Rightarrow> x) raw v) (\<lambda>x.
       map_option ((#) x) (decElems zero dec (tl old) es))"

fun decSlice :: "'a \<Rightarrow> ('a \<Rightarrow> string \<Rightarrow> json \<Rightarrow> 'a option) \<Rightarrow> 'a slice \<Rightarrow> json \<Rightarrow> 'a slice option" where
  "decSlice zero dec old JNull = Some emptySlice"
| "decSlice zero dec old (JArr es) =
     (if es = [] then Some emptySlice
      else map_option (\<lambda>b. \<lparr>backing = b, slen = length es\<rparr>) (decElems zero dec (backing old) es))"
| "decSlice zero dec old _ = None"

text \<open>
  Into a struct. A key selects the field with that name, or else the field whose name is equal
  under case folding; \<open>set_field\<close> decodes into the field with the given name and ignores any other.
\<close>

fun jsonFold :: "string \<Rightarrow> string" where
  "jsonFold [] = []"
| "jsonFold (a # s) =
     (if a = CHR 0xC5 \<and> s \<noteq> [] \<and> hd s = CHR 0xBF then CHR ''s'' # jsonFold (tl s)
      else if a = CHR 0xE2 \<and> take 2 s = [CHR 0x84, CHR 0xAA] then CHR ''k'' # jsonFold (drop 2 s)
      else lower_byte a # jsonFold s)"

definition fieldOf :: "string list \<Rightarrow> string \<Rightarrow> string option" where
  "fieldOf names key =
     (if key \<in> set names then Some key else find (\<lambda>f. jsonFold f = jsonFold key) names)"

fun decMembers :: "string list \<Rightarrow> (string \<Rightarrow> string \<Rightarrow> json \<Rightarrow> 'a \<Rightarrow> 'a option) \<Rightarrow> (string \<times> string \<times> json) list \<Rightarrow> 'a \<Rightarrow> 'a option" where
  "decMembers names set_field [] x = Some x"
| "decMembers names set_field ((key, raw, v) # ms) x =
     Option.bind (case fieldOf names key of None \<Rightarrow> Some x | Some f \<Rightarrow> set_field f raw v x) (\<lambda>x'.
       decMembers names set_field ms x')"

fun decStruct :: "string list \<Rightarrow> (string \<Rightarrow> string \<Rightarrow> json \<Rightarrow> 'a \<Rightarrow> 'a option) \<Rightarrow> 'a \<Rightarrow> json \<Rightarrow> 'a option" where
  "decStruct names set_field x (JObj ms) = decMembers names set_field ms x"
| "decStruct names set_field x JNull = Some x"
| "decStruct names set_field x _ = None"

section \<open>Writing\<close>

text \<open>A string literal as the encoder writes it: quotes, backslashes, control bytes, the three HTML
  characters and U+2028/U+2029 are escaped, invalid UTF-8 becomes an escaped U+FFFD.\<close>

definition hexByte :: "char \<Rightarrow> string" where
  "hexByte c = [hex_digit ((of_char c :: nat) div 16), hex_digit ((of_char c :: nat) mod 16)]"

definition quoteRune :: "string \<Rightarrow> string" where
  "quoteRune r =
     (if length r = 1 then
        (let c = hd r; b = (of_char c :: nat)
         in if c = CHR 0x22 \<or> c = CHR 0x5C then [CHR 0x5C, c]
            else if b = 8 then [CHR 0x5C, CHR ''b''] else if b = 12 then [CHR 0x5C, CHR ''f'']
            else if b = 10 then [CHR 0x5C, CHR ''n''] else if b = 13 then [CHR 0x5C, CHR ''r'']
            else if b = 9 then [CHR 0x5C, CHR ''t'']
            else if b < 32 \<or> c \<in> set ''<>&'' then [CHR 0x5C, CHR ''u'', CHR ''0'', CHR ''0''] @ hexByte c
            else if 128 \<le> b then [CHR 0x5C] @ ''ufffd''
            else [c])
      else if r = [CHR 0xE2, CHR 0x80, CHR 0xA8] then [CHR 0x5C] @ ''u2028''
      else if r = [CHR 0xE2, CHR 0x80, CHR 0xA9] then [CHR 0x5C] @ ''u2029''
      else r)"

definition quote :: "string \<Rightarrow> string" where
  "quote s = [CHR 0x22] @ concat (map quoteRune (runes s)) @ [CHR 0x22]"

text \<open>Objects and arrays from the texts of their members.\<close>

definition enc_obj :: "(string \<times> string) list \<Rightarrow> string" where
  "enc_obj ms = ''{'' @ Join (map (\<lambda>(k, v). quote k @ '':'' @ v) ms) '','' @ ''}''"

definition enc_arr :: "string list \<Rightarrow> string" where
  "enc_arr vs = ''['' @ Join vs '','' @ '']''"

definition enc_ptr :: "string option \<Rightarrow> string" where
  "enc_ptr p = (case p of None \<Rightarrow> ''null'' | Some s \<Rightarrow> quote s)"

text \<open>\<^verbatim>\<open>json.Compact\<close> with HTML escaping, applied to a \<^verbatim>\<open>RawMessage\<close> that is written: the tokens without
  the white space between them.\<close>

definition escRune :: "string \<Rightarrow> string" where
  "escRune r = (if r = ''<'' \<or> r = ''>'' \<or> r = ''&'' \<or> length r = 3 \<and> take 2 r = [CHR 0xE2, CHR 0x80] \<and> (r ! 2 = CHR 0xA8 \<or> r ! 2 = CHR 0xA9)
     then quoteRune r else r)"

definition compact :: "string \<Rightarrow> string option" where
  "compact raw = map_option (\<lambda>ts. concat (map (\<lambda>(_, t). concat (map escRune (runes (tok_raw t)))) ts)) (lex raw)"

end
