(* ===== verification/Http_Model.thy ===== *)
theory Http_Model
  imports Go_Json "HOL-Library.AList"
begin

text \<open>
  What the gateway uses of \<^verbatim>\<open>net/http\<close>: headers, requests and response writers. The writers
  that the gateway wraps around the one of the server (\<^verbatim>\<open>captureWriter\<close> of
  \<^verbatim>\<open>internal/tokenusage/capture_writer.go\<close> and \<^verbatim>\<open>responseWriter\<close> of
  \<^verbatim>\<open>internal/tracing/response_writer.go\<close>) are layers of one datatype \<open>writer\<close>, so that a handler
  is a function on writers whatever was wrapped around them.
\<close>

section \<open>Headers\<close>

type_synonym Header = "(string \<times> string list) list"

definition tokenByte :: "char \<Rightarrow> bool" where
  "tokenByte c \<longleftrightarrow>
     (let b = (of_char c :: nat)
      in (65 \<le> b \<and> b \<le> 90) \<or> (97 \<le> b \<and> b \<le> 122) \<or> (48 \<le> b \<and> b \<le> 57) \<or>
         c \<in> set ''!#$&*+-.^_|~'' \<or> b = 0x25 \<or> b = 0x27 \<or> b = 0x60)"

definition upper_byte :: "char \<Rightarrow> char" where
  "upper_byte c = (if 97 \<le> (of_char c :: nat) \<and> (of_char c :: nat) \<le> 122 then char_of ((of_char c :: nat) - 32) else c)"

fun canonFrom :: "bool \<Rightarrow> string \<Rightarrow> string" where
  "canonFrom up [] = []"
| "canonFrom up (c # s) = (if up then upper_byte c else lower_byte c) # canonFrom (c = CHR ''-'') s"

text \<open>\<^verbatim>\<open>http.CanonicalHeaderKey\<close>: a key with a byte that is not allowed in a token stays as it is.\<close>

definition CanonicalHeaderKey :: "string \<Rightarrow> string" where
  "CanonicalHeaderKey s = (if list_all tokenByte s then canonFrom True s else s)"

definition headerValues :: "Header \<Rightarrow> string \<Rightarrow> string list" where
  "headerValues h k = (case map_of h k of None \<Rightarrow> [] | Some vs \<Rightarrow> vs)"

definition hGet :: "Header \<Rightarrow> string \<Rightarrow> string" where
  "hGet h k = (case headerValues h (CanonicalHeaderKey k) of [] \<Rightarrow> [] | v # _ \<Rightarrow> v)"

definition hSet :: "string \<Rightarrow> string \<Rightarrow> Header \<Rightarrow> Header" where
  "hSet k v h = AList.update (CanonicalHeaderKey k) [v] h"

definition hAdd :: "string \<Rightarrow> string \<Rightarrow> Header \<Rightarrow> Header" where
  "hAdd k v h = AList.update (CanonicalHeaderKey k) (headerValues h (CanonicalHeaderKey k) @ [v]) h"

section \<open>Requests\<close>

text \<open>The caller's identity (\<^verbatim>\<open>auth.Identity\<close>) and the trace of a request (\<^verbatim>\<open>tracing.Info\<close>) travel in
  its context. \<open>rq_span\<close> is the OpenTelemetry span context of the request, if it has a valid one:
  trace id, span id, flags and state as that library prints them. \<open>rq_Path\<close>, \<open>rq_RawPath\<close> and
  \<open>rq_RawQuery\<close> are the fields of \<^verbatim>\<open>r.URL\<close>.\<close>

record Identity =
  KeyID :: string
  UserID :: string
  TenantID :: string
  Scopes :: "string list"

record Info =
  TraceID :: string
  SpanID :: string
  ParentSpanID :: string
  TraceFlags :: string
  TraceState :: string

record Request =
  rq_Method :: string
  rq_Path :: string
  rq_Header :: Header
  rq_Body :: string
  rq_identity :: "Identity option"
  rq_info :: "Info option"
  rq_span :: "(string \<times> string \<times> string \<times> string) option"
  rq_RawPath :: string
  rq_RawQuery :: string

text \<open>\<^verbatim>\<open>io.ReadAll(http.MaxBytesReader(w, r.Body, limit))\<close>: \<open>None\<close> when the body is longer.\<close>

definition readBody :: "nat \<Rightarrow> Request \<Rightarrow> string option" where
  "readBody limit r = (if length (rq_Body r) \<le> limit then Some (rq_Body r) else None)"

section \<open>The writer of the server\<close>

text \<open>
  \<open>rw_status\<close> is the status that was sent, \<open>rw_sent\<close> the header at that moment. \<open>rw_faults\<close> says of
  each coming write whether the connection fails; \<open>rw_panic\<close> records the panic on a status
  outside 100 to 999.
\<close>

record serverWriter =
  rw_header :: Header
  rw_status :: "int option"
  rw_sent :: Header
  rw_body :: string
  rw_flusher :: bool
  rw_faults :: "bool list"
  rw_panic :: bool

definition newServerWriter :: "bool list \<Rightarrow> serverWriter" where
  "newServerWriter faults = \<lparr>rw_header = [], rw_status = None, rw_sent = [], rw_body = [], rw_flusher = True,
     rw_faults = faults, rw_panic = False\<rparr>"

definition rw_WriteHeader :: "int \<Rightarrow> serverWriter \<Rightarrow> serverWriter" where
  "rw_WriteHeader code w =
     (if rw_status w \<noteq> None then w
      else if code < 100 \<or> code > 999 then w\<lparr>rw_panic := True\<rparr>
      else if code \<le> 199 \<and> code \<noteq> 101 then w
      else w\<lparr>rw_status := Some code, rw_sent := rw_header w\<rparr>)"

definition bodyAllowed :: "int \<Rightarrow> bool" where
  "bodyAllowed status \<longleftrightarrow> \<not> (100 \<le> status \<and> status \<le> 199) \<and> status \<noteq> 204 \<and> status \<noteq> 304"

text \<open>A write returns the number of bytes and whether it succeeded.\<close>

definition rw_Write :: "string \<Rightarrow> serverWriter \<Rightarrow> serverWriter \<times> nat \<times> bool" where
  "rw_Write p w =
     (let w1 = (if rw_status w = None then rw_WriteHeader 200 w else w)
      in if p = [] then (w1, 0, True)
         else if \<not> bodyAllowed (the (rw_status w1)) then (w1, 0, False)
         else case rw_faults w1 of
             True # fs \<Rightarrow> (w1\<lparr>rw_faults := fs\<rparr>, 0, False)
           | False # fs \<Rightarrow> (w1\<lparr>rw_faults := fs, rw_body := rw_body w1 @ p\<rparr>, length p, True)
           | [] \<Rightarrow> (w1\<lparr>rw_body := rw_body w1 @ p\<rparr>, length p, True))"

section \<open>The writers of the gateway\<close>

record captureWriter =
  cw_status :: int
  cw_body :: string
  cw_limit :: int
  cw_written :: bool
  cw_truncated :: bool

record responseWriter =
  tw_statusCode :: int
  tw_bytesWritten :: int
  tw_wroteHeader :: bool

datatype writer = Server serverWriter | Capturing captureWriter writer | Tracking responseWriter writer

fun writerBase :: "writer \<Rightarrow> serverWriter" where
  "writerBase (Server b) = b"
| "writerBase (Capturing c w) = writerBase w"
| "writerBase (Tracking t w) = writerBase w"

text \<open>\<^verbatim>\<open>w.Header()\<close> is the header of the innermost writer; \<open>onHeader\<close> changes it.\<close>

definition headerOf :: "writer \<Rightarrow> Header" where
  "headerOf w = rw_header (writerBase w)"

fun onHeader :: "(Header \<Rightarrow> Header) \<Rightarrow> writer \<Rightarrow> writer" where
  "onHeader f (Server b) = Server (b\<lparr>rw_header := f (rw_header b)\<rparr>)"
| "onHeader f (Capturing c w) = Capturing c (onHeader f w)"
| "onHeader f (Tracking t w) = Tracking t (onHeader f w)"

fun WriteHeader :: "int \<Rightarrow> writer \<Rightarrow> writer" where
  "WriteHeader code (Server b) = Server (rw_WriteHeader code b)"
| "WriteHeader code (Capturing c w) =
     (if cw_written c then Capturing c w
      else Capturing (c\<lparr>cw_status := code, cw_written := True\<rparr>) (WriteHeader code w))"
| "WriteHeader code (Tracking t w) =
     (if tw_wroteHeader t then Tracking t w
      else Tracking (t\<lparr>tw_statusCode := code, tw_wroteHeader := True\<rparr>) (WriteHeader code w))"

lemma size_WriteHeader [simp, termination_simp]: "size (WriteHeader code w) = size w"
  by (induction w) auto

text \<open>\<^verbatim>\<open>captureWriter.capture\<close>: the first \<open>cw_limit\<close> bytes of the response.\<close>

definition capture :: "string \<Rightarrow> captureWriter \<Rightarrow> captureWriter" where
  "capture p c =
     (if cw_limit c \<le> 0 \<or> cw_truncated c then c\<lparr>cw_truncated := True\<rparr>
      else let remaining = cw_limit c - int (length (cw_body c))
           in if remaining \<le> 0 then c\<lparr>cw_truncated := True\<rparr>
              else if int (length p) > remaining
              then c\<lparr>cw_body := cw_body c @ take (nat remaining) p, cw_truncated := True\<rparr>
              else c\<lparr>cw_body := cw_body c @ p\<rparr>)"

fun Write :: "string \<Rightarrow> writer \<Rightarrow> writer \<times> nat \<times> bool" where
  "Write p (Server b) = (case rw_Write p b of (b', n, ok) \<Rightarrow> (Server b', n, ok))"
| "Write p (Capturing c w) =
     (let c1 = (if cw_written c then c else c\<lparr>cw_status := 200, cw_written := True\<rparr>);
          w1 = (if cw_written c then w else WriteHeader 200 w)
      in case Write p w1 of (w2, n, ok) \<Rightarrow> (Capturing (capture p c1) w2, n, ok))"
| "Write p (Tracking t w) =
     (let t1 = (if tw_wroteHeader t then t else t\<lparr>tw_statusCode := 200, tw_wroteHeader := True\<rparr>);
          w1 = (if tw_wroteHeader t then w else WriteHeader 200 w)
      in case Write p w1 of (w2, n, ok) \<Rightarrow> (Tracking (t1\<lparr>tw_bytesWritten := wrap64 (tw_bytesWritten t1 + int n)\<rparr>) w2, n, ok))"

text \<open>\<^verbatim>\<open>w.(http.Flusher)\<close>: a capturing writer can flush if the writer below can, a tracking writer
  always has the method.\<close>

fun isFlusher :: "writer \<Rightarrow> bool" where
  "isFlusher (Server b) = rw_flusher b"
| "isFlusher (Capturing c w) = isFlusher w"
| "isFlusher (Tracking t w) = True"

fun Flush :: "writer \<Rightarrow> writer" where
  "Flush (Server b) = Server (if rw_status b = None then rw_WriteHeader 200 b else b)"
| "Flush (Capturing c w) =
     (let c1 = (if cw_written c then c else c\<lparr>cw_status := 200, cw_written := True\<rparr>);
          w1 = (if cw_written c then w else WriteHeader 200 w)
      in Capturing c1 (if isFlusher w1 then Flush w1 else w1))"
| "Flush (Tracking t w) =
     (let t1 = (if tw_wroteHeader t then t else t\<lparr>tw_statusCode := 200, tw_wroteHeader := True\<rparr>);
          w1 = (if tw_wroteHeader t then w else WriteHeader 200 w)
      in Tracking t1 (if isFlusher w1 then Flush w1 else w1))"

definition newCaptureWriter :: "writer \<Rightarrow> int \<Rightarrow> writer" where
  "newCaptureWriter w limit =
     Capturing \<lparr>cw_status = 0, cw_body = [], cw_limit = limit, cw_written = False, cw_truncated = False\<rparr> w"

definition captureStatus :: "captureWriter \<Rightarrow> int" where
  "captureStatus c = (if cw_status c = 0 then 200 else cw_status c)"

definition newResponseWriter :: "writer \<Rightarrow> writer" where
  "newResponseWriter w = Tracking \<lparr>tw_statusCode = 200, tw_bytesWritten = 0, tw_wroteHeader = False\<rparr> w"

text \<open>\<^verbatim>\<open>responseWriter.ReadFrom\<close>: the bytes of the reader go to the writer below, all of them in one
  write here.\<close>

fun ReadFrom :: "string \<Rightarrow> writer \<Rightarrow> writer \<times> nat \<times> bool" where
  "ReadFrom p (Tracking t w) =
     (let t1 = (if tw_wroteHeader t then t else t\<lparr>tw_statusCode := 200, tw_wroteHeader := True\<rparr>);
          w1 = (if tw_wroteHeader t then w else WriteHeader 200 w)
      in case Write p w1 of (w2, n, ok) \<Rightarrow> (Tracking (t1\<lparr>tw_bytesWritten := wrap64 (tw_bytesWritten t1 + int n)\<rparr>) w2, n, ok))"
| "ReadFrom p w = Write p w"

text \<open>A panic in this request, which the server turns into a closed connection.\<close>

fun panicWriter :: "writer \<Rightarrow> writer" where
  "panicWriter (Server b) = Server (b\<lparr>rw_panic := True\<rparr>)"
| "panicWriter (Capturing c w) = Capturing c (panicWriter w)"
| "panicWriter (Tracking t w) = Tracking t (panicWriter w)"

section \<open>Error responses\<close>

text \<open>A text given by its code points, for the messages that are not ASCII.\<close>

definition zh :: "nat list \<Rightarrow> string" where
  "zh cs = concat (map utf8_encode cs)"

text \<open>\<^verbatim>\<open>writeJSON\<close>: content type, status and one line of JSON; a failed write is ignored. The packages
  of the gateway each have a copy of the error writer.\<close>

definition writeJSON :: "int \<Rightarrow> string \<Rightarrow> writer \<Rightarrow> writer" where
  "writeJSON status payload w =
     fst (Write (payload @ [CHR 0x0A])
       (WriteHeader status (onHeader (hSet ''Content-Type'' ''application/json; charset=utf-8'') w)))"

definition errorResponse :: "string \<Rightarrow> string \<Rightarrow> string option \<Rightarrow> string" where
  "errorResponse message errorType param =
     enc_obj [(''error'', enc_obj [(''message'', quote message), (''type'', quote errorType),
       (''param'', enc_ptr param), (''code'', ''null'')])]"

definition writeError :: "int \<Rightarrow> string \<Rightarrow> string \<Rightarrow> writer \<Rightarrow> writer" where
  "writeError status message errorType w = writeJSON status (errorResponse message errorType None) w"

section \<open>Laws\<close>

lemma headerValues_update: "headerValues (AList.update k vs h) j = (if j = k then vs else headerValues h j)"
  by (simp add: headerValues_def update_conv')

lemma hGet_hSet [simp]:
  "hGet (hSet k v h) j = (if CanonicalHeaderKey j = CanonicalHeaderKey k then v else hGet h j)"
  by (simp add: hGet_def hSet_def headerValues_update)

lemma onHeader_base: "writerBase (onHeader f w) = (writerBase w)\<lparr>rw_header := f (rw_header (writerBase w))\<rparr>"
  by (induction w) auto

lemma headerOf_layers [simp]: "headerOf (Capturing c w) = headerOf w" "headerOf (Tracking t w) = headerOf w"
  by (simp_all add: headerOf_def)

lemma headerOf_onHeader [simp]: "headerOf (onHeader f w) = f (headerOf w)"
  by (simp add: headerOf_def onHeader_base)

lemma rw_Write_header [simp]: "rw_header (fst (rw_Write p b)) = rw_header b"
  by (simp add: rw_Write_def rw_WriteHeader_def Let_def split: list.split bool.split)

lemma headerOf_WriteHeader [simp]: "headerOf (WriteHeader code w) = headerOf w"
  by (induction w) (auto simp: headerOf_def rw_WriteHeader_def)

lemma headerOf_Write [simp]: "headerOf (fst (Write p w)) = headerOf w"
proof (induction p w rule: Write.induct)
  case (1 p b)
  then show ?case
    using rw_Write_header [of p b] by (cases "rw_Write p b") (simp add: headerOf_def)
next
  case (2 p c w)
  from 2 [OF refl refl] show ?case by (cases "cw_written c") (auto simp: Let_def split: prod.split)
next
  case (3 p t w)
  from 3 [OF refl refl] show ?case by (cases "tw_wroteHeader t") (auto simp: Let_def split: prod.split)
qed

end
