(* ===== verification/Response_Writers.thy ===== *)
theory Response_Writers
  imports Http_Model
begin

text \<open>
  Correctness of the wrapped response writers: \<^verbatim>\<open>captureWriter\<close> and \<^verbatim>\<open>responseWriter\<close> report the
  status that the client received, pass every byte on, and the capture holds the first bytes of
  the response. The operations of a handler on its writer are a list of \<open>wop\<close>.
\<close>

section \<open>The contract of a layer\<close>

text \<open>A layer remembers whether a header was written and with which status, and sends the first
  status down.\<close>

locale status_layer =
  fixes layer :: "'l \<Rightarrow> writer \<Rightarrow> writer"
    and wrote :: "'l \<Rightarrow> bool"
    and status :: "'l \<Rightarrow> int"
  assumes layer_base: "writerBase (layer l w) = writerBase w"
    and layer_header: "\<exists>l'. WriteHeader code (layer l w) = layer l' (if wrote l then w else WriteHeader code w) \<and>
        wrote l' \<and> status l' = (if wrote l then status l else code)"
    and layer_write: "\<exists>l'. fst (Write p (layer l w)) = layer l' (fst (Write p (if wrote l then w else WriteHeader 200 w))) \<and>
        wrote l' \<and> status l' = (if wrote l then status l else 200)"
    and layer_flush: "\<exists>l' w'. Flush (layer l w) = layer l' w' \<and> wrote l' \<and> status l' = (if wrote l then status l else 200) \<and>
        (let w1 = (if wrote l then w else WriteHeader 200 w) in w' = w1 \<or> w' = Flush w1)"
begin

text \<open>The layer agrees with the server when it has seen a header exactly if one was sent, with the
  status that was sent.\<close>

definition agrees :: "'l \<Rightarrow> writer \<Rightarrow> bool" where
  "agrees l w \<longleftrightarrow> rw_status (writerBase w) = (if wrote l then Some (status l) else None)"

lemma agrees_header:
  assumes "agrees l w" and "\<not> wrote l \<Longrightarrow> rw_status (writerBase (WriteHeader code w)) = Some code"
  shows "\<exists>l'. WriteHeader code (layer l w) = layer l' (if wrote l then w else WriteHeader code w) \<and>
     agrees l' (if wrote l then w else WriteHeader code w)"
  using layer_header [of code l w] assms by (auto simp: agrees_def)

lemma agrees_write:
  assumes "agrees l w" and "\<not> wrote l \<Longrightarrow> rw_status (writerBase (WriteHeader 200 w)) = Some 200"
    and "\<And>w c. rw_status (writerBase w) = Some c \<Longrightarrow> rw_status (writerBase (fst (Write p w))) = Some c"
  shows "\<exists>l'. fst (Write p (layer l w)) = layer l' (fst (Write p (if wrote l then w else WriteHeader 200 w))) \<and>
     agrees l' (fst (Write p (if wrote l then w else WriteHeader 200 w)))"
  using layer_write [of p l w] assms by (auto simp: agrees_def)

lemma agrees_flush:
  assumes "agrees l w" and "\<not> wrote l \<Longrightarrow> rw_status (writerBase (WriteHeader 200 w)) = Some 200"
    and "\<And>w c. rw_status (writerBase w) = Some c \<Longrightarrow> rw_status (writerBase (Flush w)) = Some c"
  shows "\<exists>l' w'. Flush (layer l w) = layer l' w' \<and> agrees l' w' \<and>
     (let w1 = (if wrote l then w else WriteHeader 200 w) in w' = w1 \<or> w' = Flush w1)"
proof -
  let ?w1 = "if wrote l then w else WriteHeader 200 w"
  obtain l' w' where l': "Flush (layer l w) = layer l' w'" "wrote l'" "status l' = (if wrote l then status l else 200)"
    "w' = ?w1 \<or> w' = Flush ?w1"
    using layer_flush [of l w] by (auto simp: Let_def)
  have "rw_status (writerBase ?w1) = Some (status l')" using assms(1,2) l'(3) by (auto simp: agrees_def)
  then have "agrees l' w'" using l'(2,4) assms(3) by (auto simp: agrees_def)
  with l' show ?thesis unfolding Let_def by blast
qed

end

interpretation cap: status_layer Capturing cw_written cw_status
proof (unfold_locales, goal_cases)
  case (2 code l w)
  then show ?case by auto
next
  case (3 p l w)
  have "cw_written (capture p c) = cw_written c" "cw_status (capture p c) = cw_status c" for c
    by (simp_all add: capture_def Let_def)
  then show ?case by (auto simp: Let_def split: prod.split)
next
  case (4 l w)
  then show ?case by (auto simp: Let_def)
qed simp

interpretation trk: status_layer Tracking tw_wroteHeader tw_statusCode
proof (unfold_locales, goal_cases)
  case (2 code l w)
  then show ?case by auto
next
  case (3 p l w)
  then show ?case by (auto simp: Let_def split: prod.split)
next
  case (4 l w)
  then show ?case by (auto simp: Let_def)
qed simp

section \<open>All layers agree with the server\<close>

fun layersAgree :: "writer \<Rightarrow> bool" where
  "layersAgree (Server b) = True"
| "layersAgree (Capturing c w) = (layersAgree w \<and> cap.agrees c w)"
| "layersAgree (Tracking t w) = (layersAgree w \<and> trk.agrees t w)"

text \<open>A final status: what a handler may send once.\<close>

definition finalStatus :: "int \<Rightarrow> bool" where
  "finalStatus code \<longleftrightarrow> code = 101 \<or> (200 \<le> code \<and> code \<le> 999)"

lemma status_kept:
  "rw_status (writerBase w) = Some c \<Longrightarrow> rw_status (writerBase (WriteHeader code w)) = Some c"
  by (induction w) (auto simp: rw_WriteHeader_def)

lemma status_kept_write:
  "rw_status (writerBase w) = Some c \<Longrightarrow> rw_status (writerBase (fst (Write p w))) = Some c"
proof (induction p w rule: Write.induct)
  case (1 p b)
  then show ?case
    by (cases "rw_Write p b") (auto simp: rw_Write_def Let_def split: if_splits list.splits bool.splits)
next
  case (2 p k w)
  from 2(1) [OF refl refl] 2(2) show ?case
    by (cases "cw_written k") (auto simp: Let_def status_kept split: prod.split)
next
  case (3 p t w)
  from 3(1) [OF refl refl] 3(2) show ?case
    by (cases "tw_wroteHeader t") (auto simp: Let_def status_kept split: prod.split)
qed


lemma header_agrees:
  assumes "finalStatus code" and "layersAgree w"
  shows "layersAgree (WriteHeader code w) \<and>
     (rw_status (writerBase w) = None \<longrightarrow> rw_status (writerBase (WriteHeader code w)) = Some code)"
  using assms(2)
proof (induction w)
  case (Server b)
  then show ?case using assms(1) by (auto simp: rw_WriteHeader_def finalStatus_def)
next
  case (Capturing c w)
  then show ?case by (auto simp: cap.agrees_def split: if_splits)
next
  case (Tracking t w)
  then show ?case by (auto simp: trk.agrees_def split: if_splits)
qed

lemma final_200 [simp]: "finalStatus 200"
  by (simp add: finalStatus_def)



section \<open>What a handler does to its writer\<close>

datatype wop = OpHeader "Header \<Rightarrow> Header" | OpStatus int | OpWrite string | OpFlush

fun wopStep :: "wop \<Rightarrow> writer \<Rightarrow> writer" where
  "wopStep (OpHeader f) w = onHeader f w"
| "wopStep (OpStatus code) w = WriteHeader code w"
| "wopStep (OpWrite p) w = fst (Write p w)"
| "wopStep OpFlush w = Flush w"

definition runOps :: "wop list \<Rightarrow> writer \<Rightarrow> writer" where
  "runOps = fold wopStep"


fun opBytes :: "wop \<Rightarrow> string" where
  "opBytes (OpWrite p) = p"
| "opBytes _ = []"

lemma onHeader_agrees: "layersAgree (onHeader f w) = layersAgree w"
  by (induction w) (auto simp: cap.agrees_def trk.agrees_def onHeader_base)


text \<open>A capturing writer stays one, and so does a tracking writer.\<close>

lemma wopStep_Capturing: "\<exists>c' w'. wopStep q (Capturing c w) = Capturing c' w'"
  by (cases q) (auto simp: Let_def split: prod.split)


lemma runOps_Capturing: "\<exists>c' w'. runOps ops (Capturing c w) = Capturing c' w'"
proof (induction ops arbitrary: c w)
  case (Cons q ops)
  then show ?case using wopStep_Capturing [of q c w] by (auto simp: runOps_def)
qed (simp add: runOps_def)









lemma status_after:
  "layersAgree w \<Longrightarrow> rw_status (writerBase w) = None \<Longrightarrow> finalStatus code \<Longrightarrow>
     rw_status (writerBase (WriteHeader code w)) = Some code"
  using header_agrees by blast

lemma writeJSON_status:
  "layersAgree w \<Longrightarrow> rw_status (writerBase w) = None \<Longrightarrow> finalStatus status \<Longrightarrow>
     rw_status (writerBase (writeJSON status payload w)) = Some status"
  unfolding writeJSON_def
  by (intro status_kept_write status_after) (simp_all add: onHeader_agrees onHeader_base)

section \<open>The captured bytes\<close>

text \<open>The capture after the bytes \<open>bytes\<close> were written to it.\<close>

definition capturesOk :: "int \<Rightarrow> string \<Rightarrow> captureWriter \<Rightarrow> bool" where
  "capturesOk limit bytes c \<longleftrightarrow> cw_limit c = limit \<and> cw_body c = take (nat limit) bytes \<and>
     (\<not> cw_truncated c \<longrightarrow> length bytes \<le> nat limit) \<and> (cw_truncated c \<longrightarrow> nat limit \<le> length bytes)"

lemma capture_ok: "0 < limit \<Longrightarrow> capturesOk limit bytes c \<Longrightarrow> capturesOk limit (bytes @ p) (capture p c)"
proof -
  assume limit: "0 < limit" and ok: "capturesOk limit bytes c"
  consider (trunc) "cw_truncated c" | (full) "\<not> cw_truncated c" "limit \<le> int (length (cw_body c))"
    | (over) "\<not> cw_truncated c" "int (length (cw_body c)) < limit" "limit - int (length (cw_body c)) < int (length p)"
    | (fits) "\<not> cw_truncated c" "int (length (cw_body c)) < limit" "int (length p) \<le> limit - int (length (cw_body c))"
    by linarith
  then show ?thesis
  proof cases
    case over
    with ok have "cw_body c = bytes" by (auto simp: capturesOk_def)
    moreover from this over have "nat (limit - int (length bytes)) = nat limit - length bytes" by linarith
    ultimately show ?thesis using over ok limit by (auto simp: capturesOk_def capture_def Let_def)
  next
    case fits
    with ok have "cw_body c = bytes" by (auto simp: capturesOk_def)
    with fits ok limit show ?thesis by (auto simp: capturesOk_def capture_def Let_def)
  next
    case full
    with ok have "cw_body c = bytes" "nat limit = length bytes" by (auto simp: capturesOk_def)
    with full ok limit show ?thesis by (auto simp: capturesOk_def capture_def Let_def)
  qed (use ok limit in \<open>auto simp: capturesOk_def capture_def\<close>)
qed

lemma wopStep_captures:
  assumes "0 < limit" and "capturesOk limit bytes c" and "wopStep q (Capturing c w) = Capturing c' w'"
  shows "capturesOk limit (bytes @ opBytes q) c'"
proof (cases q)
  case (OpWrite p)
  let ?c = "if cw_written c then c else c\<lparr>cw_status := 200, cw_written := True\<rparr>"
  have "capturesOk limit bytes ?c" using assms(2) by (simp add: capturesOk_def)
  then have "capturesOk limit (bytes @ p) (capture p ?c)" by (rule capture_ok [OF assms(1)])
  moreover have "c' = capture p ?c" using assms(3) OpWrite by (auto simp: Let_def split: prod.splits)
  ultimately show ?thesis using OpWrite by simp
qed (use assms in \<open>auto simp: capturesOk_def Let_def split: if_splits\<close>)

lemma runOps_captures:
  "0 < limit \<Longrightarrow> capturesOk limit bytes c \<Longrightarrow> runOps ops (Capturing c w) = Capturing c' w' \<Longrightarrow>
     capturesOk limit (bytes @ concat (map opBytes ops)) c'"
proof (induction ops arbitrary: bytes c w)
  case (Cons q ops)
  obtain c1 w1 where q: "wopStep q (Capturing c w) = Capturing c1 w1" using wopStep_Capturing by blast
  have "capturesOk limit (bytes @ opBytes q) c1" by (rule wopStep_captures [OF Cons(2,3) q])
  moreover have "runOps ops (Capturing c1 w1) = Capturing c' w'" using Cons(4) q by (simp add: runOps_def)
  ultimately show ?case using Cons(1) [OF Cons(2)] by fastforce
qed (simp add: runOps_def)

section \<open>Properties\<close>



text \<open>The capture of a response: whatever a handler writes, in whatever pieces, the captured body is
  its first \<open>limit\<close> bytes; it is marked as truncated whenever bytes are missing from it, and only
  when the limit was reached.\<close>

theorem capture_is_prefix:
  assumes "0 < limit" and "runOps ops (newCaptureWriter w limit) = Capturing c w'"
  shows "cw_body c = take (nat limit) (concat (map opBytes ops)) \<and>
     (\<not> cw_truncated c \<longrightarrow> cw_body c = concat (map opBytes ops)) \<and>
     (cw_truncated c \<longrightarrow> nat limit \<le> length (concat (map opBytes ops)))"
proof -
  have "capturesOk limit ([] @ concat (map opBytes ops)) c"
    using assms(2) unfolding newCaptureWriter_def
    by (rule runOps_captures [OF assms(1), rotated]) (use assms(1) in \<open>simp add: capturesOk_def\<close>)
  then show ?thesis by (simp add: capturesOk_def)
qed

theorem capture_is_prefix_witness:
  "\<exists>c w. runOps [OpWrite ''abc'', OpFlush, OpWrite ''def''] (newCaptureWriter (Server (newServerWriter [])) 4) = Capturing c w \<and>
     cw_body c = ''abcd'' \<and> cw_truncated c"
proof -
  obtain c w where r: "runOps [OpWrite ''abc'', OpFlush, OpWrite ''def''] (newCaptureWriter (Server (newServerWriter [])) 4) = Capturing c w"
    using runOps_Capturing unfolding newCaptureWriter_def by blast
  have "cw_body c = ''abcd''"
    using capture_is_prefix [OF _ r] by simp
  moreover have "cw_truncated c"
    using capture_is_prefix [OF _ r] calculation by auto
  ultimately show ?thesis using r by blast
qed

section \<open>Optional interfaces\<close>

text \<open>
  \<^verbatim>\<open>Hijack\<close> and \<^verbatim>\<open>Push\<close> of the tracking writer pass the call on if the writer below has the method. \<open>hj\<close> and \<open>ps\<close>
  are the methods of the writer of the server, \<open>None\<close> when it has none; the capturing writer has
  neither. \<open>Inl None\<close> is \<^verbatim>\<open>http.ErrNotSupported\<close>.
\<close>

fun hasMethod :: "(serverWriter \<Rightarrow> string option + 'c) option \<Rightarrow> writer \<Rightarrow> bool" where
  "hasMethod f (Server b) = (f \<noteq> None)"
| "hasMethod f (Capturing c w) = False"
| "hasMethod f (Tracking t w) = True"

fun passDown :: "(serverWriter \<Rightarrow> string option + 'c) option \<Rightarrow> writer \<Rightarrow> string option + 'c" where
  "passDown f (Server b) = (case f of None \<Rightarrow> Inl None | Some g \<Rightarrow> g b)"
| "passDown f (Capturing c w) = Inl None"
| "passDown f (Tracking t w) = (if hasMethod f w then passDown f w else Inl None)"

definition Hijack :: "(serverWriter \<Rightarrow> string option + 'conn) option \<Rightarrow> responseWriter \<Rightarrow> writer \<Rightarrow> string option + 'conn" where
  "Hijack hj t w = (if hasMethod hj w then passDown hj w else Inl None)"

definition Push :: "(string \<Rightarrow> serverWriter \<Rightarrow> string option + unit) option \<Rightarrow> string \<Rightarrow> responseWriter \<Rightarrow> writer \<Rightarrow> string option + unit" where
  "Push ps target t w =
     (let f = map_option (\<lambda>p. p target) ps in if hasMethod f w then passDown f w else Inl None)"

fun Unwrap :: "writer \<Rightarrow> writer option" where
  "Unwrap (Server b) = None"
| "Unwrap (Capturing c w) = Some w"
| "Unwrap (Tracking t w) = Some w"

text \<open>The call reaches the server exactly through tracking writers: a capturing writer in between hides it.\<close>

fun capturesBelow :: "writer \<Rightarrow> bool" where
  "capturesBelow (Server b) = False"
| "capturesBelow (Capturing c w) = True"
| "capturesBelow (Tracking t w) = capturesBelow w"

lemma no_method_captures: "\<not> hasMethod (Some g) w \<Longrightarrow> capturesBelow w"
  by (cases w) auto

lemma passDown_server: "passDown (Some g) w = (if capturesBelow w then Inl None else g (writerBase w))"
  by (induction w) (auto dest: no_method_captures)

lemma hijack_reaches_server: "Hijack (Some g) t w = (if capturesBelow w then Inl None else g (writerBase w))"
  using no_method_captures [of g w] by (auto simp: Hijack_def passDown_server)

end
