(* ===== verification/Sse.thy ===== *)
theory Sse
  imports Response_Writers
begin

text \<open>
  Server-sent events, \<^verbatim>\<open>internal/llm/sse.go\<close>: reading events from a backend, copying them to the
  client, and cutting the mock answer into pieces. A \<^verbatim>\<open>bufio.Reader\<close> is the bytes that are still
  to come and the error that follows them.
\<close>

datatype ioError = EOF | Canceled | DeadlineExceeded | Timeout | OtherError string

record reader =
  rd_bytes :: string
  rd_err :: ioError

text \<open>\<^verbatim>\<open>ReadString\<close> for the newline: the line with its newline, what follows, and whether there was one.\<close>

fun readLine :: "string \<Rightarrow> string \<times> string \<times> bool" where
  "readLine [] = ([], [], False)"
| "readLine (c # s) =
     (if c = CHR 0x0A then ([c], s, True)
      else case readLine s of (l, r, found) \<Rightarrow> (c # l, r, found))"

lemma readLine_append: "readLine s = (l, r, found) \<Longrightarrow> s = l @ r"
  by (induction s arbitrary: l) (auto split: if_splits prod.splits)

lemma readLine_shorter: "readLine s = (l, r, found) \<Longrightarrow> l \<noteq> [] \<Longrightarrow> length r < length s"
  using readLine_append [of s l r found] by (cases l) auto

definition crlf :: string where
  "crlf = [CHR 0x0D, CHR 0x0A]"

text \<open>
  \<^verbatim>\<open>readSSEEvent\<close>, with the data lines read so far: the data of the event, the error (\<open>None\<close> is nil),
  and the bytes left.
\<close>

function readSSE :: "string list \<Rightarrow> ioError \<Rightarrow> string \<Rightarrow> string \<times> ioError option \<times> string" where
  "readSSE dataLines e s =
     (case readLine s of (raw, rest, found) \<Rightarrow>
        if raw = [] then ([], Some e, rest)
        else
          (let line = TrimRight raw crlf
           in if line = [] then (Join dataLines [CHR 0x0A], None, rest)
              else if HasPrefix line '':'' then readSSE dataLines e rest
              else case Cut (CHR '':'') line of (field, value, ok) \<Rightarrow>
                if \<not> ok then readSSE dataLines e rest
                else
                  (let v = (if HasPrefix value '' '' then tl value else value);
                       dataLines' = (if field = ''data'' then dataLines @ [v] else dataLines)
                   in if \<not> found then (Join dataLines' [CHR 0x0A], Some e, rest)
                      else readSSE dataLines' e rest)))"
  by pat_completeness auto
termination
  by (relation "measure (\<lambda>(ds, e, s). length s)") (auto dest: readLine_shorter [OF sym])

declare readSSE.simps [simp del]

definition readSSEEvent :: "reader \<Rightarrow> reader \<times> string \<times> ioError option" where
  "readSSEEvent rd = (case readSSE [] (rd_err rd) (rd_bytes rd) of (d, err, rest) \<Rightarrow> (rd\<lparr>rd_bytes := rest\<rparr>, d, err))"

lemma readSSE_progress: "readSSE ds e s = (d, None, rest) \<Longrightarrow> length rest < length s"
proof (induction ds e s rule: readSSE.induct)
  case (1 ds e s)
  obtain raw r found where rl: "readLine s = (raw, r, found)" using prod_cases3 by blast
  have raw: "raw \<noteq> []" using 1(4) rl by (auto simp: readSSE.simps [of ds e s])
  then have less: "length r < length s" using readLine_shorter [OF rl] by simp
  let ?line = "TrimRight raw crlf"
  obtain f v ok where cut: "Cut (CHR '':'') ?line = (f, v, ok)" using prod_cases3 by blast
  show ?case
  proof (cases "?line = []")
    case True
    then show ?thesis using 1(4) rl raw less by (simp add: readSSE.simps [of ds e s])
  next
    case False
    show ?thesis
    proof (cases "HasPrefix ?line '':'' \<or> \<not> ok")
      case True
      then have "readSSE ds e r = (d, None, rest)"
        using 1(4) raw False by (auto simp: readSSE.simps [of ds e s] rl cut Let_def split: if_splits)
      moreover have "length rest < length r" if "readSSE ds e r = (d, None, rest)"
        using True 1(1) [OF rl [symmetric] refl raw refl False] 1(2) [OF rl [symmetric] refl raw refl False _ cut [symmetric] refl]
          that by blast
      ultimately show ?thesis using less by simp
    next
      case ok: False
      let ?v = "if HasPrefix v '' '' then tl v else v"
      let ?ds = "if f = ''data'' then ds @ [?v] else ds"
      have "found" and nxt: "readSSE ?ds e r = (d, None, rest)"
        using 1(4) raw False ok by (simp_all add: readSSE.simps [of ds e s] rl cut Let_def split: if_splits)
      have "length rest < length r"
        by (rule 1(3) [OF rl [symmetric] refl raw refl False _ cut [symmetric] refl _ refl refl _ nxt]) (use ok \<open>found\<close> in auto)
      with less show ?thesis by simp
    qed
  qed
qed

section \<open>Content tokens\<close>

text \<open>The content of the deltas of a chunk: \<^verbatim>\<open>streamChunk\<close> keeps nothing else.\<close>

definition decDelta :: "string \<Rightarrow> json \<Rightarrow> string option" where
  "decDelta = decStruct [''content''] (\<lambda>_ _ v old. decString old v)"

definition decChoice :: "string \<Rightarrow> string \<Rightarrow> json \<Rightarrow> string option" where
  "decChoice old raw v = decStruct [''delta''] (\<lambda>_ _ v old. decDelta old v) old v"

definition decChunk :: "string slice \<Rightarrow> json \<Rightarrow> string slice option" where
  "decChunk = decStruct [''choices''] (\<lambda>_ _ v old. decSlice [] decChoice old v)"

definition hasContentToken :: "string \<Rightarrow> bool" where
  "hasContentToken data =
     (if data = [] \<or> data = ''[DONE]'' then False
      else case Option.bind (parse_json data) (decChunk emptySlice) of
          None \<Rightarrow> False
        | Some choices \<Rightarrow> list_ex (\<lambda>content. content \<noteq> []) (items choices))"

section \<open>Writing events\<close>

definition nl :: string where
  "nl = [CHR 0x0A]"

definition writeSSEData :: "string \<Rightarrow> writer \<Rightarrow> writer \<times> bool" where
  "writeSSEData data w =
     (case Write (''data: '' @ data @ nl @ nl) w of
        (w1, _, ok) \<Rightarrow> if ok then (Flush w1, True) else (w1, False))"

text \<open>\<^verbatim>\<open>writeSSE\<close> of a payload whose JSON text is given.\<close>

definition writeSSE :: "string \<Rightarrow> writer \<Rightarrow> writer \<times> bool" where
  "writeSSE payload w = writeSSEData payload w"

fun writeBufferedSSE :: "string list \<Rightarrow> writer \<Rightarrow> writer \<times> bool" where
  "writeBufferedSSE [] w = (w, True)"
| "writeBufferedSSE (d # ds) w =
     (if d = [] then writeBufferedSSE ds w
      else case writeSSEData d w of (w1, ok) \<Rightarrow> if ok then writeBufferedSSE ds w1 else (w1, False))"

text \<open>
  \<^verbatim>\<open>streamCopyFromReader\<close>: the writer, the result, and how often the first-token metric was
  observed. \<open>observed\<close> is \<^verbatim>\<open>firstContentTokenObserved\<close>.
\<close>

function streamLoop :: "reader \<Rightarrow> bool \<Rightarrow> nat \<Rightarrow> writer \<Rightarrow> writer \<times> bool \<times> nat" where
  "streamLoop rd observed n w =
     (case readSSE [] (rd_err rd) (rd_bytes rd) of (d, err, rest) \<Rightarrow>
        (case (if d = [] then (w, True) else writeSSEData d w) of (w1, ok) \<Rightarrow>
           if \<not> ok then (w1, False, n)
           else
             (let first = (d \<noteq> [] \<and> \<not> observed \<and> hasContentToken d);
                  n' = (if first then Suc n else n)
              in case err of
                   Some e \<Rightarrow> (w1, e = EOF, n')
                 | None \<Rightarrow> streamLoop (rd\<lparr>rd_bytes := rest\<rparr>) (observed \<or> first) n' w1)))"
  by pat_completeness auto
termination
  by (relation "measure (\<lambda>(rd, _, _, _). length (rd_bytes rd))") (auto dest: readSSE_progress [OF sym])

declare streamLoop.simps [simp del]

definition streamCopyFromReader :: "writer \<Rightarrow> reader \<Rightarrow> bool \<Rightarrow> writer \<times> bool \<times> nat" where
  "streamCopyFromReader w rd observed = (if \<not> isFlusher w then (w, False, 0) else streamLoop rd observed 0 w)"

definition streamCopy :: "writer \<Rightarrow> reader \<Rightarrow> writer \<times> bool \<times> nat" where
  "streamCopy w body = (if \<not> isFlusher w then (w, False, 0) else streamCopyFromReader w body False)"

section \<open>Splitting text\<close>

function chunks :: "nat \<Rightarrow> string list \<Rightarrow> string list" where
  "chunks n rs = (if rs = [] \<or> n = 0 then [] else concat (take n rs) # chunks n (drop n rs))"
  by pat_completeness auto
termination
  by (relation "measure (\<lambda>(n, rs). length rs)") auto

declare chunks.simps [simp del]

text \<open>\<^verbatim>\<open>[]rune(text)\<close> turns every invalid byte into U+FFFD.\<close>

definition splitText :: "string \<Rightarrow> int \<Rightarrow> string list" where
  "splitText text chunkSize =
     (if text = [] then []
      else chunks (if chunkSize \<le> 0 then 12 else nat chunkSize) (map fixRune (runes text)))"

section \<open>Reading back what was written\<close>

lemma crlf_set [simp]: "set crlf = {CHR 0x0D, CHR 0x0A}"
  by (auto simp: crlf_def)

lemma readLine_line: "CHR 0x0A \<notin> set l \<Longrightarrow> readLine (l @ CHR 0x0A # s) = (l @ [CHR 0x0A], s, True)"
  by (induction l) auto

text \<open>A line that an event can carry: it has no newline and does not end in a carriage return.\<close>

definition plainLine :: "string \<Rightarrow> bool" where
  "plainLine l \<longleftrightarrow> CHR 0x0A \<notin> set l \<and> (l = [] \<or> last l \<noteq> CHR 0x0D)"

lemma trim_data_line: "plainLine l \<Longrightarrow> TrimRight ((''data: '' @ l) @ [CHR 0x0A]) crlf = ''data: '' @ l"
proof -
  assume "plainLine l"
  then have "last (''data: '' @ l) \<notin> {CHR 0x0D, CHR 0x0A}"
    by (cases l rule: rev_cases) (auto simp: plainLine_def)
  then show ?thesis
    by (subst TrimRight_append) (auto intro!: TrimRight_fixed)
qed

lemma readSSE_data:
  assumes "plainLine l"
  shows "readSSE ds e (''data: '' @ l @ CHR 0x0A # s) = readSSE (ds @ [l]) e s"
proof -
  have rl: "readLine ((''data: '' @ l) @ CHR 0x0A # s) = ((''data: '' @ l) @ [CHR 0x0A], s, True)"
    using assms by (intro readLine_line) (simp add: plainLine_def)
  have cut: "Cut (CHR '':'') (''data: '' @ l) = (''data'', '' '' @ l, True)"
    using Cut_sep [of "CHR '':''" "''data''" "'' '' @ l"] by simp
  have "\<not> HasPrefix (''data: '' @ l) '':''" by (simp add: HasPrefix_def)
  then show ?thesis
    using rl trim_data_line [OF assms] cut
    by (subst readSSE.simps) (simp add: HasPrefix_def)
qed

lemma readSSE_end: "readSSE ds e (CHR 0x0A # s) = (Join ds [CHR 0x0A], None, s)"
  by (subst readSSE.simps) (simp add: TrimRight_def)

lemma readSSE_comment:
  assumes "CHR 0x0A \<notin> set l"
  shows "readSSE ds e ('':'' @ l @ CHR 0x0A # s) = readSSE ds e s"
proof -
  have rl: "readLine (('':'' @ l) @ CHR 0x0A # s) = (('':'' @ l) @ [CHR 0x0A], s, True)"
    using assms by (intro readLine_line) simp
  have "\<exists>l'. TrimRight (('':'' @ l) @ [CHR 0x0A]) crlf = '':'' @ l'"
  proof -
    have "dropWhile (\<lambda>c. c \<in> set crlf) (xs @ '':'') \<noteq> []" for xs by (auto simp: dropWhile_eq_Nil_conv)
    moreover have "last (dropWhile (\<lambda>c. c \<in> set crlf) (xs @ '':'')) = CHR '':''" for xs
      by (induction xs) auto
    ultimately show ?thesis
      using hd_rev [of "dropWhile (\<lambda>c. c \<in> set crlf) (rev (('':'' @ l) @ [CHR 0x0A]))"]
      unfolding TrimRight_def by (metis Cons_eq_appendI append_Nil append_assoc list.collapse rev.simps(2) rev_append rev_is_Nil_conv)
  qed
  then obtain l' where "TrimRight (('':'' @ l) @ [CHR 0x0A]) crlf = '':'' @ l'" by blast
  with rl show ?thesis
    by (subst readSSE.simps) (simp add: HasPrefix_def)
qed

text \<open>The bytes of an event with the given data lines.\<close>

definition eventBytes :: "string list \<Rightarrow> string" where
  "eventBytes ls = concat (map (\<lambda>l. ''data: '' @ l @ nl) ls) @ nl"

lemma readSSE_lines:
  "\<forall>l \<in> set ls. plainLine l \<Longrightarrow>
     readSSE ds e (concat (map (\<lambda>l. ''data: '' @ l @ nl) ls) @ CHR 0x0A # s) = (Join (ds @ ls) [CHR 0x0A], None, s)"
proof (induction ls arbitrary: ds)
  case Nil
  then show ?case by (simp add: readSSE_end)
next
  case (Cons l ls)
  then show ?case
    using readSSE_data [of l ds e "concat (map (\<lambda>l. ''data: '' @ l @ nl) ls) @ CHR 0x0A # s"] by (simp add: nl_def)
qed

section \<open>The relay\<close>

text \<open>A writer on a working connection, with the status sent.\<close>

definition healthy :: "writer \<Rightarrow> bool" where
  "healthy w \<longleftrightarrow> (\<exists>st. rw_status (writerBase w) = Some st \<and> bodyAllowed st) \<and> rw_faults (writerBase w) = []"

definition sentBody :: "writer \<Rightarrow> string" where
  "sentBody w = rw_body (writerBase w)"

lemma base_WriteHeader: "rw_status (writerBase w) = Some st \<Longrightarrow> writerBase (WriteHeader code w) = writerBase w"
  by (induction w) (auto simp: rw_WriteHeader_def)

lemma healthy_Write:
  "healthy w \<Longrightarrow> writerBase (fst (Write p w)) = (writerBase w)\<lparr>rw_body := sentBody w @ p\<rparr> \<and> snd (snd (Write p w))"
proof (induction p w rule: Write.induct)
  case (1 p b)
  then show ?case by (auto simp: healthy_def sentBody_def rw_Write_def)
next
  case (2 p c w)
  then obtain st where "rw_status (writerBase w) = Some st" by (auto simp: healthy_def)
  then have "writerBase (WriteHeader 200 w) = writerBase w" by (rule base_WriteHeader)
  with 2(1) [OF refl refl] 2(2) show ?case
    by (cases "cw_written c") (auto simp: healthy_def sentBody_def Let_def split: prod.splits)
next
  case (3 p t w)
  then obtain st where "rw_status (writerBase w) = Some st" by (auto simp: healthy_def)
  then have "writerBase (WriteHeader 200 w) = writerBase w" by (rule base_WriteHeader)
  with 3(1) [OF refl refl] 3(2) show ?case
    by (cases "tw_wroteHeader t") (auto simp: healthy_def sentBody_def Let_def split: prod.splits)
qed

lemma base_Flush: "rw_status (writerBase w) = Some st \<Longrightarrow> writerBase (Flush w) = writerBase w"
proof (induction w rule: Flush.induct)
  case (2 c w)
  with base_WriteHeader [of w st 200] 2(1) [OF refl refl] show ?case
    by (cases "cw_written c") (simp_all add: Let_def)
next
  case (3 t w)
  with base_WriteHeader [of w st 200] 3(1) [OF refl refl] show ?case
    by (cases "tw_wroteHeader t") (simp_all add: Let_def)
qed simp

lemma healthy_event:
  assumes "healthy w"
  obtains w' where "writeSSEData d w = (w', True)" "healthy w'" "sentBody w' = sentBody w @ eventBytes [d]"
proof -
  obtain w1 n ok where wr: "Write (''data: '' @ d @ nl @ nl) w = (w1, n, ok)" using prod_cases3 by blast
  with healthy_Write [OF assms, of "''data: '' @ d @ nl @ nl"] have
    b: "writerBase w1 = (writerBase w)\<lparr>rw_body := sentBody w @ ''data: '' @ d @ nl @ nl\<rparr>" "ok" by simp_all
  obtain st where "rw_status (writerBase w1) = Some st" using assms b(1) by (auto simp: healthy_def)
  then have "writerBase (Flush w1) = writerBase w1" by (rule base_Flush)
  with b assms wr show ?thesis
    by (intro that [of "Flush w1"]) (auto simp: writeSSEData_def healthy_def sentBody_def eventBytes_def)
qed

lemma streamLoop_events:
  "\<forall>d \<in> set ds. d \<noteq> [] \<and> plainLine d \<Longrightarrow> healthy w \<Longrightarrow>
     \<exists>w'. streamLoop \<lparr>rd_bytes = concat (map (\<lambda>d. eventBytes [d]) ds), rd_err = EOF\<rparr> observed n w =
       (w', True, n + (if \<not> observed \<and> (\<exists>d \<in> set ds. hasContentToken d) then 1 else 0)) \<and>
       sentBody w' = sentBody w @ concat (map (\<lambda>d. eventBytes [d]) ds)"
proof (induction ds arbitrary: observed n w)
  case Nil
  then show ?case by (subst streamLoop.simps) (simp add: readSSE.simps [of _ _ "[]"])
next
  case (Cons d ds)
  let ?rest = "concat (map (\<lambda>d. eventBytes [d]) ds)"
  have read: "readSSE [] EOF (eventBytes [d] @ ?rest) = (d, None, ?rest)"
    using readSSE_lines [of "[d]" "[]" EOF ?rest] Cons(2) by (simp add: eventBytes_def nl_def)
  obtain w1 where w1: "writeSSEData d w = (w1, True)" "healthy w1" "sentBody w1 = sentBody w @ eventBytes [d]"
    using healthy_event [OF Cons(3)] by blast
  let ?first = "\<not> observed \<and> hasContentToken d"
  have "streamLoop \<lparr>rd_bytes = concat (map (\<lambda>d. eventBytes [d]) (d # ds)), rd_err = EOF\<rparr> observed n w =
      streamLoop \<lparr>rd_bytes = ?rest, rd_err = EOF\<rparr> (observed \<or> ?first) (if ?first then Suc n else n) w1"
    using Cons(2) read w1(1) by (subst streamLoop.simps) (simp add: Let_def)
  moreover obtain w2 where "streamLoop \<lparr>rd_bytes = ?rest, rd_err = EOF\<rparr> (observed \<or> ?first) (if ?first then Suc n else n) w1 =
      (w2, True, (if ?first then Suc n else n) + (if \<not> (observed \<or> ?first) \<and> (\<exists>d \<in> set ds. hasContentToken d) then 1 else 0))"
    "sentBody w2 = sentBody w1 @ ?rest"
    using Cons(1) [OF _ w1(2), of "observed \<or> ?first" "if ?first then Suc n else n"] Cons(2) by (auto simp del: Join.simps)
  moreover have "(if ?first then Suc n else n) + (if \<not> (observed \<or> ?first) \<and> (\<exists>d \<in> set ds. hasContentToken d) then 1 else 0) =
      n + (if \<not> observed \<and> (\<exists>d \<in> set (d # ds). hasContentToken d) then 1 else 0)"
    by (cases observed; cases "hasContentToken d") simp_all
  ultimately show ?case using w1(3) by simp
qed

text \<open>C22. What the gateway writes as an event its own reader reads back: \<open>writeSSEData\<close> of one line of data on a working
  connection succeeds and appends bytes that \<open>readSSEEvent\<close>, in front of whatever follows, reads as exactly that data,
  consuming the event and nothing else.\<close>

theorem sse_event_roundtrip:
  assumes "healthy w" and "plainLine d"
  shows "\<exists>w' event. writeSSEData d w = (w', True) \<and> healthy w' \<and> sentBody w' = sentBody w @ event \<and>
    readSSEEvent \<lparr>rd_bytes = event @ s, rd_err = e\<rparr> = (\<lparr>rd_bytes = s, rd_err = e\<rparr>, d, None)"
proof -
  obtain w' where w': "writeSSEData d w = (w', True)" "healthy w'" "sentBody w' = sentBody w @ eventBytes [d]"
    by (rule healthy_event [OF assms(1)])
  moreover have "readSSEEvent \<lparr>rd_bytes = eventBytes [d] @ s, rd_err = e\<rparr> = (\<lparr>rd_bytes = s, rd_err = e\<rparr>, d, None)"
    using readSSE_lines [of "[d]" "[]" e s] assms(2) by (simp add: readSSEEvent_def eventBytes_def nl_def)
  ultimately show ?thesis by blast
qed

text \<open>C21. The relay is transparent: a stream of events with one line of data each reaches the client byte
  for byte when the connection works, the copy reports success at the end of the stream, and the
  first-token metric is observed exactly once if it was not before and some event carries content.\<close>

theorem relay_is_transparent:
  assumes "\<forall>d \<in> set ds. d \<noteq> [] \<and> plainLine d" and "healthy w" and "isFlusher w"
  shows "\<exists>w'. streamCopyFromReader w \<lparr>rd_bytes = concat (map (\<lambda>d. eventBytes [d]) ds), rd_err = EOF\<rparr> observed =
       (w', True, if \<not> observed \<and> (\<exists>d \<in> set ds. hasContentToken d) then 1 else 0) \<and>
     sentBody w' = sentBody w @ concat (map (\<lambda>d. eventBytes [d]) ds)"
  using streamLoop_events [OF assms(1,2), of observed 0] assms(3) by (simp add: streamCopyFromReader_def)

definition demoWriter :: writer where
  "demoWriter = Server ((newServerWriter [])\<lparr>rw_status := Some 200\<rparr>)"

theorem sse_event_roundtrip_witness:
  "\<exists>w' event. writeSSEData ''hello'' demoWriter = (w', True) \<and> sentBody w' = event \<and>
    readSSEEvent \<lparr>rd_bytes = event @ ''rest'', rd_err = EOF\<rparr> = (\<lparr>rd_bytes = ''rest'', rd_err = EOF\<rparr>, ''hello'', None)"
proof -
  have "healthy demoWriter" "sentBody demoWriter = []" "plainLine ''hello''"
    by (simp_all add: demoWriter_def healthy_def sentBody_def newServerWriter_def bodyAllowed_def plainLine_def)
  then show ?thesis using sse_event_roundtrip [of demoWriter "''hello''" "''rest''" EOF] by auto
qed

theorem relay_is_transparent_witness:
  "\<exists>w'. streamCopyFromReader demoWriter \<lparr>rd_bytes = eventBytes [''{}''] @ eventBytes [''[DONE]''], rd_err = EOF\<rparr> False = (w', True, 0) \<and>
     sentBody w' = eventBytes [''{}''] @ eventBytes [''[DONE]'']"
proof -
  have "\<forall>d \<in> set [''{}'', ''[DONE]'']. d \<noteq> [] \<and> plainLine d" by (simp add: plainLine_def)
  moreover have "healthy demoWriter" "isFlusher demoWriter" "sentBody demoWriter = []"
    by (simp_all add: demoWriter_def healthy_def sentBody_def newServerWriter_def bodyAllowed_def)
  moreover have "\<not> hasContentToken ''{}''" "\<not> hasContentToken ''[DONE]''" by code_simp+
  ultimately show ?thesis
    using relay_is_transparent [of "[''{}'', ''[DONE]'']" demoWriter False] by simp
qed

text \<open>An event with several data lines is not relayed faithfully: its lines are joined with a newline
  and written behind a single field name, so a client that reads the relayed bytes gets the first
  line only.\<close>

theorem multiline_event_corrupted:
  "let w' = fst (streamCopyFromReader demoWriter \<lparr>rd_bytes = eventBytes [''a'', ''b''], rd_err = EOF\<rparr> False)
   in sentBody w' = ''data: a'' @ nl @ ''b'' @ nl @ nl \<and>
      readSSEEvent \<lparr>rd_bytes = sentBody w', rd_err = EOF\<rparr> = (\<lparr>rd_bytes = [], rd_err = EOF\<rparr>, ''a'', None)"
  by code_simp

text \<open>The last event of a stream without a final blank line: without a newline behind it its data is
  delivered with the end of the stream, with a newline behind it the data is lost.\<close>

theorem last_event_at_eof:
  "readSSEEvent \<lparr>rd_bytes = ''data: tail'', rd_err = EOF\<rparr> = (\<lparr>rd_bytes = [], rd_err = EOF\<rparr>, ''tail'', Some EOF) \<and>
   readSSEEvent \<lparr>rd_bytes = ''data: tail'' @ nl, rd_err = EOF\<rparr> = (\<lparr>rd_bytes = [], rd_err = EOF\<rparr>, [], Some EOF)"
  by code_simp

section \<open>Pieces of text\<close>

lemma chunks_form:
  "0 < n \<Longrightarrow> \<exists>css. chunks n rs = map concat css \<and> concat css = rs \<and>
     (\<forall>cs \<in> set css. 0 < length cs \<and> length cs \<le> n) \<and> (\<forall>cs \<in> set (butlast css). length cs = n)"
proof (induction n rs rule: chunks.induct)
  case (1 n rs)
  show ?case
  proof (cases "rs = []")
    case True
    then show ?thesis by (intro exI [of _ "[]"]) (simp add: chunks.simps)
  next
    case False
    with 1 obtain css where css: "chunks n (drop n rs) = map concat css" "concat css = drop n rs"
      "\<forall>cs \<in> set css. 0 < length cs \<and> length cs \<le> n" "\<forall>cs \<in> set (butlast css). length cs = n" by auto
    have "length (take n rs) = n" if "css \<noteq> []"
    proof -
      have "drop n rs \<noteq> []" using that css(2,3) by (cases css) auto
      then show ?thesis by simp
    qed
    then show ?thesis
      using False css 1(2) by (intro exI [of _ "take n rs # css"]) (auto simp: chunks.simps [of n rs])
  qed
qed

lemma runes_concat: "concat (runes s) = s"
proof (induction s rule: runes.induct)
  case (1 s)
  show ?case
  proof (cases "s = []")
    case True
    then show ?thesis by (subst runes.simps) simp
  next
    case False
    then show ?thesis using 1 by (subst runes.simps) simp
  qed
qed

text \<open>Splitting the mock answer loses nothing: the pieces are consecutive groups of characters of the
  text, every group but the last has exactly the requested number of characters (twelve if that is
  not positive) and none is empty; a text of valid UTF-8 is the concatenation of its pieces.\<close>

theorem split_text_pieces:
  "\<exists>css. splitText text chunkSize = map concat css \<and> concat css = map fixRune (runes text) \<and>
     (\<forall>cs \<in> set css. cs \<noteq> [] \<and> int (length cs) \<le> (if chunkSize \<le> 0 then 12 else chunkSize)) \<and>
     (\<forall>cs \<in> set (butlast css). int (length cs) = (if chunkSize \<le> 0 then 12 else chunkSize)) \<and>
     (map fixRune (runes text) = runes text \<longrightarrow> concat (splitText text chunkSize) = text)"
proof -
  let ?n = "if chunkSize \<le> 0 then 12 else nat chunkSize"
  have "0 < ?n" by simp
  from chunks_form [OF this, of "map fixRune (runes text)"]
  obtain css where css: "chunks ?n (map fixRune (runes text)) = map concat css" "concat css = map fixRune (runes text)"
    "\<forall>cs \<in> set css. 0 < length cs \<and> length cs \<le> ?n" "\<forall>cs \<in> set (butlast css). length cs = ?n"
    by blast
  have split: "splitText text chunkSize = map concat css"
    using css(1) by (auto simp: splitText_def runes.simps [of "[]"] chunks.simps [of _ "[]"])
  have "concat (map concat css) = concat (concat css)" by (induction css) auto
  then have "concat (splitText text chunkSize) = concat (map fixRune (runes text))" using split css(2) by simp
  then have "map fixRune (runes text) = runes text \<longrightarrow> concat (splitText text chunkSize) = text"
    using runes_concat [of "text"] by auto
  moreover have "cs \<noteq> [] \<and> int (length cs) \<le> (if chunkSize \<le> 0 then 12 else chunkSize)" if "cs \<in> set css" for cs
    using css(3) that by (auto split: if_splits)
  moreover have "int (length cs) = (if chunkSize \<le> 0 then 12 else chunkSize)" if "cs \<in> set (butlast css)" for cs
    using css(4) that by (auto split: if_splits)
  ultimately show ?thesis using split css(2) by blast
qed

theorem split_text_pieces_witness:
  "splitText ''hello world'' 4 = [''hell'', ''o wo'', ''rld''] \<and> concat (splitText ''hello world'' 4) = ''hello world''"
proof -
  have "map fixRune (runes ''hello world'') = runes ''hello world''" by code_simp
  moreover have "splitText ''hello world'' 4 = [''hell'', ''o wo'', ''rld'']" by code_simp
  ultimately show ?thesis using split_text_pieces [of "''hello world''" 4] by blast
qed

end
