(* ===== verification/Token_Usage.thy ===== *)
theory Token_Usage
  imports Go_Json
begin

text \<open>
  Estimating the tokens of a request (\<^verbatim>\<open>internal/tokenusage/usage.go\<close>) and reading the tokens that
  were used from a response (\<^verbatim>\<open>internal/tokenusage/response_usage.go\<close>). The bodies are byte strings,
  decoded by the JSON reader of \<open>Go_Json\<close>; \<open>None\<close> is an error of \<^verbatim>\<open>json.Unmarshal\<close>.
\<close>

section \<open>Requests\<close>

record chatMessage =
  cm_Role :: string
  cm_Content :: string

record requestPayload =
  rp_Model :: string
  rp_Messages :: "chatMessage slice"
  rp_MaxTokens :: "int option"
  rp_MaxCompletionTokens :: "int option"

record Usage =
  u_Model :: string
  u_PromptTokens :: int
  u_CompletionTokens :: int
  u_TotalTokens :: int
  u_Estimated :: bool

record RequestEstimate =
  re_Usage :: Usage
  re_CompletionBudget :: int
  re_Reservable :: bool

definition zeroMessage :: chatMessage where
  "zeroMessage = \<lparr>cm_Role = [], cm_Content = []\<rparr>"

definition zeroPayload :: requestPayload where
  "zeroPayload = \<lparr>rp_Model = [], rp_Messages = emptySlice, rp_MaxTokens = None, rp_MaxCompletionTokens = None\<rparr>"

definition setMessage :: "string \<Rightarrow> string \<Rightarrow> json \<Rightarrow> chatMessage \<Rightarrow> chatMessage option" where
  "setMessage f raw v m =
     (if f = ''role'' then map_option (\<lambda>x. m\<lparr>cm_Role := x\<rparr>) (decString (cm_Role m) v)
      else Some (m\<lparr>cm_Content := raw\<rparr>))"

definition decMessage :: "chatMessage \<Rightarrow> string \<Rightarrow> json \<Rightarrow> chatMessage option" where
  "decMessage m raw v = decStruct [''role'', ''content''] setMessage m v"

definition setPayload :: "string \<Rightarrow> string \<Rightarrow> json \<Rightarrow> requestPayload \<Rightarrow> requestPayload option" where
  "setPayload f raw v p =
     (if f = ''model'' then map_option (\<lambda>x. p\<lparr>rp_Model := x\<rparr>) (decString (rp_Model p) v)
      else if f = ''messages'' then map_option (\<lambda>x. p\<lparr>rp_Messages := x\<rparr>) (decSlice zeroMessage decMessage (rp_Messages p) v)
      else if f = ''max_tokens'' then map_option (\<lambda>x. p\<lparr>rp_MaxTokens := x\<rparr>) (decPtr 0 decInt (rp_MaxTokens p) v)
      else map_option (\<lambda>x. p\<lparr>rp_MaxCompletionTokens := x\<rparr>) (decPtr 0 decInt (rp_MaxCompletionTokens p) v))"

definition decPayload :: "string \<Rightarrow> requestPayload option" where
  "decPayload body =
     Option.bind (parse_json body)
       (decStruct [''model'', ''messages'', ''max_tokens'', ''max_completion_tokens''] setPayload zeroPayload)"

definition estimateTokens :: "string \<Rightarrow> int" where
  "estimateTokens text =
     (let t = TrimSpace text in if t = [] then 0 else int (RuneCountInString t) div 4 + 1)"

text \<open>A part of a message: its type and its text.\<close>

definition setPart :: "string \<Rightarrow> string \<Rightarrow> json \<Rightarrow> string \<times> string \<Rightarrow> (string \<times> string) option" where
  "setPart f raw v p =
     (if f = ''type'' then map_option (\<lambda>x. (x, snd p)) (decString (fst p) v)
      else map_option (\<lambda>x. (fst p, x)) (decString (snd p) v))"

definition decPart :: "string \<times> string \<Rightarrow> string \<Rightarrow> json \<Rightarrow> (string \<times> string) option" where
  "decPart p raw v = decStruct [''type'', ''text''] setPart p v"

definition messageContentText :: "chatMessage \<Rightarrow> string" where
  "messageContentText m =
     (if cm_Content m = [] then []
      else case Option.bind (parse_json (cm_Content m)) (decString []) of
        Some t \<Rightarrow> t
      | None \<Rightarrow>
          (case Option.bind (parse_json (cm_Content m)) (decSlice ([], []) decPart emptySlice) of
             Some parts \<Rightarrow> Join (map snd (filter (\<lambda>p. fst p = [] \<or> fst p = ''text'') (items parts))) []
           | None \<Rightarrow> cm_Content m))"

fun estimatePromptFrom :: "int \<Rightarrow> chatMessage list \<Rightarrow> int" where
  "estimatePromptFrom n [] = n"
| "estimatePromptFrom n (m # ms) =
     estimatePromptFrom (wrap64 (wrap64 (n + estimateTokens (cm_Role m)) + estimateTokens (messageContentText m))) ms"

definition estimatePromptTokens :: "chatMessage list \<Rightarrow> int" where
  "estimatePromptTokens ms = estimatePromptFrom 0 ms"

definition completionBudgetFromRequest :: "requestPayload \<Rightarrow> int \<Rightarrow> int" where
  "completionBudgetFromRequest p dflt =
     (if rp_MaxCompletionTokens p \<noteq> None \<and> the (rp_MaxCompletionTokens p) > 0 then the (rp_MaxCompletionTokens p)
      else if rp_MaxTokens p \<noteq> None \<and> the (rp_MaxTokens p) > 0 then the (rp_MaxTokens p)
      else if dflt > 0 then dflt
      else 0)"

definition estimatePayload :: "requestPayload \<Rightarrow> int \<Rightarrow> RequestEstimate" where
  "estimatePayload p dflt =
     (let model = TrimSpace (rp_Model p)
      in if model = [] \<or> items (rp_Messages p) = []
         then \<lparr>re_Usage = \<lparr>u_Model = model, u_PromptTokens = 0, u_CompletionTokens = 0, u_TotalTokens = 0, u_Estimated = True\<rparr>,
               re_CompletionBudget = 0, re_Reservable = False\<rparr>
         else
           let promptTokens = estimatePromptTokens (items (rp_Messages p));
               completionBudget = completionBudgetFromRequest p dflt;
               totalTokens = wrap64 (promptTokens + completionBudget)
           in \<lparr>re_Usage = \<lparr>u_Model = model, u_PromptTokens = promptTokens, u_CompletionTokens = completionBudget,
                 u_TotalTokens = (if totalTokens \<le> 0 then 1 else totalTokens), u_Estimated = True\<rparr>,
               re_CompletionBudget = completionBudget, re_Reservable = True\<rparr>)"

definition estimateRequest :: "string \<Rightarrow> int \<Rightarrow> RequestEstimate option" where
  "estimateRequest rawBody dflt = map_option (\<lambda>p. estimatePayload p dflt) (decPayload rawBody)"

section \<open>Responses\<close>

record responseUsage =
  ru_PromptTokens :: int
  ru_CompletionTokens :: int
  ru_TotalTokens :: int

text \<open>\<^verbatim>\<open>responsePayload\<close> and \<^verbatim>\<open>streamChunk\<close> have the same shape: a choice is the text of its message or
  of its delta.\<close>

record responsePayload =
  rs_Model :: string
  rs_Choices :: "string slice"
  rs_Usage :: "responseUsage option"

definition zeroUsage :: responseUsage where
  "zeroUsage = \<lparr>ru_PromptTokens = 0, ru_CompletionTokens = 0, ru_TotalTokens = 0\<rparr>"

definition zeroResponse :: responsePayload where
  "zeroResponse = \<lparr>rs_Model = [], rs_Choices = emptySlice, rs_Usage = None\<rparr>"

definition setUsage :: "string \<Rightarrow> string \<Rightarrow> json \<Rightarrow> responseUsage \<Rightarrow> responseUsage option" where
  "setUsage f raw v u =
     (if f = ''prompt_tokens'' then map_option (\<lambda>x. u\<lparr>ru_PromptTokens := x\<rparr>) (decInt (ru_PromptTokens u) v)
      else if f = ''completion_tokens'' then map_option (\<lambda>x. u\<lparr>ru_CompletionTokens := x\<rparr>) (decInt (ru_CompletionTokens u) v)
      else map_option (\<lambda>x. u\<lparr>ru_TotalTokens := x\<rparr>) (decInt (ru_TotalTokens u) v))"

definition decUsage :: "responseUsage \<Rightarrow> json \<Rightarrow> responseUsage option" where
  "decUsage = decStruct [''prompt_tokens'', ''completion_tokens'', ''total_tokens''] setUsage"

definition decContent :: "string \<Rightarrow> json \<Rightarrow> string option" where
  "decContent = decStruct [''content''] (\<lambda>_ _ v old. decString old v)"

text \<open>\<open>part\<close> is the field of a choice that holds the content: \<^verbatim>\<open>message\<close> or \<^verbatim>\<open>delta\<close>.\<close>

definition decChoiceOf :: "string \<Rightarrow> string \<Rightarrow> string \<Rightarrow> json \<Rightarrow> string option" where
  "decChoiceOf part old raw v = decStruct [part] (\<lambda>_ _ v old. decContent old v) old v"

definition setResponse :: "string \<Rightarrow> string \<Rightarrow> string \<Rightarrow> json \<Rightarrow> responsePayload \<Rightarrow> responsePayload option" where
  "setResponse part f raw v p =
     (if f = ''model'' then map_option (\<lambda>x. p\<lparr>rs_Model := x\<rparr>) (decString (rs_Model p) v)
      else if f = ''choices'' then map_option (\<lambda>x. p\<lparr>rs_Choices := x\<rparr>) (decSlice [] (decChoiceOf part) (rs_Choices p) v)
      else map_option (\<lambda>x. p\<lparr>rs_Usage := x\<rparr>) (decPtr zeroUsage decUsage (rs_Usage p) v))"

definition decResponse :: "string \<Rightarrow> string \<Rightarrow> responsePayload option" where
  "decResponse part body =
     Option.bind (parse_json body) (decStruct [''model'', ''choices'', ''usage''] (setResponse part) zeroResponse)"

fun firstNonEmpty :: "string list \<Rightarrow> string" where
  "firstNonEmpty [] = []"
| "firstNonEmpty (v # vs) = (if TrimSpace v \<noteq> [] then TrimSpace v else firstNonEmpty vs)"

definition normalizeUsage :: "Usage \<Rightarrow> RequestEstimate \<Rightarrow> Usage" where
  "normalizeUsage u0 e =
     (let u1 = u0\<lparr>u_Model := firstNonEmpty [u_Model u0, u_Model (re_Usage e)]\<rparr>;
          u2 = (if u_PromptTokens u1 < 0 then u1\<lparr>u_PromptTokens := 0\<rparr> else u1);
          u3 = (if u_CompletionTokens u2 < 0 then u2\<lparr>u_CompletionTokens := 0\<rparr> else u2);
          u4 = (if u_TotalTokens u3 \<le> 0 then u3\<lparr>u_TotalTokens := wrap64 (u_PromptTokens u3 + u_CompletionTokens u3)\<rparr> else u3)
      in if u_TotalTokens u4 \<le> 0 then u4\<lparr>u_TotalTokens := u_TotalTokens (re_Usage e), u_Estimated := True\<rparr> else u4)"

text \<open>The tokens of the choices, added up from \<open>n\<close>.\<close>

fun addChoices :: "int \<Rightarrow> string list \<Rightarrow> int" where
  "addChoices n [] = n"
| "addChoices n (c # cs) = addChoices (wrap64 (n + estimateTokens c)) cs"

text \<open>The usage a backend reported, and the one that is estimated when it reported none.\<close>

definition reportedUsage :: "string \<Rightarrow> responseUsage \<Rightarrow> RequestEstimate \<Rightarrow> Usage" where
  "reportedUsage model u e =
     normalizeUsage \<lparr>u_Model = model, u_PromptTokens = ru_PromptTokens u, u_CompletionTokens = ru_CompletionTokens u,
       u_TotalTokens = ru_TotalTokens u, u_Estimated = False\<rparr> e"

definition estimatedUsage :: "string \<Rightarrow> int \<Rightarrow> RequestEstimate \<Rightarrow> Usage" where
  "estimatedUsage model completionTokens e =
     normalizeUsage \<lparr>u_Model = model, u_PromptTokens = u_PromptTokens (re_Usage e), u_CompletionTokens = completionTokens,
       u_TotalTokens = wrap64 (u_PromptTokens (re_Usage e) + completionTokens), u_Estimated = True\<rparr> e"

definition usageFromJSONResponse :: "string \<Rightarrow> RequestEstimate \<Rightarrow> Usage" where
  "usageFromJSONResponse body e =
     (case decResponse ''message'' body of
        None \<Rightarrow> re_Usage e
      | Some p \<Rightarrow>
          let model = firstNonEmpty [rs_Model p, u_Model (re_Usage e)]
          in case rs_Usage p of
               Some u \<Rightarrow> reportedUsage model u e
             | None \<Rightarrow> estimatedUsage model (addChoices 0 (items (rs_Choices p))) e)"

text \<open>The lines of a \<^verbatim>\<open>bufio.Scanner\<close>: cut at newlines, less a carriage return at the end. The buffer
  of the scanner may grow beyond the body, so no line is too long.\<close>

fun splitLines :: "string \<Rightarrow> string list" where
  "splitLines [] = []"
| "splitLines (c # s) =
     (if c = CHR 0x0A then [] # splitLines s
      else case splitLines s of [] \<Rightarrow> [[c]] | l # ls \<Rightarrow> (c # l) # ls)"

definition dropCR :: "string \<Rightarrow> string" where
  "dropCR l = (if HasSuffix l [CHR 0x0D] then butlast l else l)"

text \<open>The data of a line of the stream, if it has any that is looked at.\<close>

definition streamData :: "string \<Rightarrow> string option" where
  "streamData raw =
     (let line = TrimSpace (dropCR raw)
      in if \<not> HasPrefix line ''data:'' then None
         else let data = TrimSpace (TrimPrefix line ''data:'')
              in if data = [] \<or> data = ''[DONE]'' then None else Some data)"

text \<open>The loop over the lines: the model, the completion tokens and the last usage that was reported.\<close>

fun scanStream :: "string list \<Rightarrow> string \<times> int \<times> responseUsage option \<Rightarrow> string \<times> int \<times> responseUsage option" where
  "scanStream [] st = st"
| "scanStream (l # ls) (model, n, actual) =
     (case Option.bind (streamData l) (decResponse ''delta'') of
        None \<Rightarrow> scanStream ls (model, n, actual)
      | Some chunk \<Rightarrow>
          let model' = firstNonEmpty [rs_Model chunk, model]
          in case rs_Usage chunk of
               Some u \<Rightarrow> scanStream ls (model', n, Some u)
             | None \<Rightarrow> scanStream ls (model', addChoices n (items (rs_Choices chunk)), actual))"

definition usageFromStreamResponse :: "string \<Rightarrow> RequestEstimate \<Rightarrow> Usage" where
  "usageFromStreamResponse body e =
     (case scanStream (splitLines body) (u_Model (re_Usage e), 0, None) of
        (model, n, Some u) \<Rightarrow> reportedUsage model u e
      | (model, n, None) \<Rightarrow> estimatedUsage model n e)"

definition usageFromResponseBody :: "string \<Rightarrow> string \<Rightarrow> bool \<Rightarrow> RequestEstimate \<Rightarrow> Usage" where
  "usageFromResponseBody body contentType truncated e =
     (if truncated then re_Usage e
      else if Contains (ToLower contentType) ''text/event-stream'' then usageFromStreamResponse body e
      else usageFromJSONResponse body e)"

section \<open>Laws of the estimate\<close>

lemma estimateTokens_nonneg [simp]: "0 \<le> estimateTokens t"
  by (simp add: estimateTokens_def Let_def)

text \<open>The prompt tokens as a sum of natural numbers, without a machine width.\<close>

definition promptSum :: "chatMessage list \<Rightarrow> int" where
  "promptSum ms = sum_list (map (\<lambda>m. estimateTokens (cm_Role m) + estimateTokens (messageContentText m)) ms)"

lemma promptSum_simps [simp]:
  "promptSum [] = 0"
  "promptSum (m # ms) = estimateTokens (cm_Role m) + estimateTokens (messageContentText m) + promptSum ms"
  by (simp_all add: promptSum_def)

lemma promptSum_nonneg [simp]: "0 \<le> promptSum ms"
  by (induction ms) simp_all

lemma estimatePromptFrom_exact:
  "0 \<le> n \<Longrightarrow> n + promptSum ms < 2 ^ 63 \<Longrightarrow> estimatePromptFrom n ms = n + promptSum ms"
proof (induction ms arbitrary: n)
  case Nil
  then show ?case by simp
next
  case (Cons m ms)
  let ?r = "estimateTokens (cm_Role m)" and ?c = "estimateTokens (messageContentText m)"
  have bounds: "0 \<le> ?r" "0 \<le> ?c" "0 \<le> promptSum ms" by simp_all
  with Cons.prems have "int64 (n + ?r)" "int64 (n + ?r + ?c)" "0 \<le> n + ?r + ?c"
    by (unfold int64_def promptSum_simps) linarith+
  with Cons.prems show ?case by (simp add: Cons.IH add.assoc)
qed

lemma completionBudget_nonneg [simp]: "0 \<le> completionBudgetFromRequest p d"
  by (simp add: completionBudgetFromRequest_def)

lemma estimatePayload_exact:
  assumes "TrimSpace (rp_Model p) \<noteq> []" "items (rp_Messages p) \<noteq> []"
    and "promptSum (items (rp_Messages p)) + completionBudgetFromRequest p d < 2 ^ 63"
  shows "estimatePayload p d =
    \<lparr>re_Usage = \<lparr>u_Model = TrimSpace (rp_Model p), u_PromptTokens = promptSum (items (rp_Messages p)),
       u_CompletionTokens = completionBudgetFromRequest p d,
       u_TotalTokens = max 1 (promptSum (items (rp_Messages p)) + completionBudgetFromRequest p d), u_Estimated = True\<rparr>,
     re_CompletionBudget = completionBudgetFromRequest p d, re_Reservable = True\<rparr>"
proof -
  let ?s = "promptSum (items (rp_Messages p))" and ?b = "completionBudgetFromRequest p d"
  have nn: "0 \<le> ?s" "0 \<le> ?b" by simp_all
  with assms(3) have "?s < 2 ^ 63" by linarith
  then have "estimatePromptTokens (items (rp_Messages p)) = ?s"
    using estimatePromptFrom_exact [of 0 "items (rp_Messages p)"] by (simp add: estimatePromptTokens_def)
  moreover have "wrap64 (?s + ?b) = ?s + ?b"
    using assms(3) nn by (intro wrap64_id) (unfold int64_def, linarith)
  ultimately show ?thesis
    using assms(1,2) by (simp add: estimatePayload_def Let_def max_def)
qed

lemma reservable_total: "re_Reservable (estimatePayload p d) \<Longrightarrow> 1 \<le> u_TotalTokens (re_Usage (estimatePayload p d))"
  by (auto simp: estimatePayload_def Let_def split: if_splits)

section \<open>Laws of the usage\<close>

lemma normalizeUsage_total:
  "u_TotalTokens (normalizeUsage u e) =
     (let s = wrap64 (max 0 (u_PromptTokens u) + max 0 (u_CompletionTokens u))
      in if 0 < u_TotalTokens u then u_TotalTokens u else if 0 < s then s else u_TotalTokens (re_Usage e))"
  by (auto simp: normalizeUsage_def Let_def max_def)

lemma normalizeUsage_pos: "1 \<le> u_TotalTokens (re_Usage e) \<Longrightarrow> 1 \<le> u_TotalTokens (normalizeUsage u e)"
  by (simp add: normalizeUsage_total Let_def)

lemma normalizeUsage_counts [simp]:
  "u_PromptTokens (normalizeUsage u e) = max 0 (u_PromptTokens u)"
  "u_CompletionTokens (normalizeUsage u e) = max 0 (u_CompletionTokens u)"
  by (auto simp: normalizeUsage_def Let_def max_def)

lemma usage_pos: "1 \<le> u_TotalTokens (re_Usage e) \<Longrightarrow> 1 \<le> u_TotalTokens (usageFromResponseBody b ct tr e)"
  by (simp add: usageFromResponseBody_def usageFromStreamResponse_def usageFromJSONResponse_def reportedUsage_def
      estimatedUsage_def normalizeUsage_pos Let_def split: option.split prod.split)

text \<open>The chunks of a stream, and what a loop over them comes to.\<close>

definition streamChunks :: "string list \<Rightarrow> responsePayload list" where
  "streamChunks ls = List.map_filter (\<lambda>l. Option.bind (streamData l) (decResponse ''delta'')) ls"

definition lastReported :: "responsePayload list \<Rightarrow> responseUsage option" where
  "lastReported cs = (case rev (List.map_filter rs_Usage cs) of [] \<Rightarrow> None | u # _ \<Rightarrow> Some u)"

definition deltaTexts :: "responsePayload list \<Rightarrow> string list" where
  "deltaTexts cs = concat (map (\<lambda>c. items (rs_Choices c)) (filter (\<lambda>c. rs_Usage c = None) cs))"

lemma streamChunks_simps:
  "streamChunks [] = []"
  "streamChunks (l # ls) = (case Option.bind (streamData l) (decResponse ''delta'') of None \<Rightarrow> [] | Some c \<Rightarrow> [c]) @ streamChunks ls"
  by (simp_all add: streamChunks_def map_filter_simps split: option.split)

lemma lastReported_Cons:
  "lastReported (c # cs) = (case lastReported cs of Some u \<Rightarrow> Some u | None \<Rightarrow> rs_Usage c)"
  by (auto simp: lastReported_def map_filter_simps split: option.split list.split)

lemma addChoices_append: "addChoices n (xs @ ys) = addChoices (addChoices n xs) ys"
  by (induction xs arbitrary: n) auto

lemma scanStream_chunks:
  "\<exists>model'. scanStream ls (model, n, actual) =
     (model', addChoices n (deltaTexts (streamChunks ls)),
      case lastReported (streamChunks ls) of Some u \<Rightarrow> Some u | None \<Rightarrow> actual)"
proof (induction ls arbitrary: model n actual)
  case Nil
  then show ?case by (simp add: streamChunks_simps deltaTexts_def lastReported_def map_filter_simps)
next
  case (Cons l ls)
  show ?case
  proof (cases "Option.bind (streamData l) (decResponse ''delta'')")
    case None
    with Cons [of model n actual] show ?thesis by (simp add: streamChunks_simps)
  next
    case (Some c)
    show ?thesis
    proof (cases "rs_Usage c")
      case None
      with Some Cons [of "firstNonEmpty [rs_Model c, model]" "addChoices n (items (rs_Choices c))" actual] show ?thesis
        by (auto simp: streamChunks_simps lastReported_Cons deltaTexts_def addChoices_append simp del: firstNonEmpty.simps
            split: option.split)
    next
      case u: (Some u)
      with Some Cons [of "firstNonEmpty [rs_Model c, model]" n "Some u"] show ?thesis
        by (auto simp: streamChunks_simps lastReported_Cons deltaTexts_def simp del: firstNonEmpty.simps
            split: option.split)
    qed
  qed
qed

definition textTokens :: "string list \<Rightarrow> int" where
  "textTokens ts = sum_list (map estimateTokens ts)"

lemma textTokens_nonneg [simp]: "0 \<le> textTokens ts"
  by (induction ts) (simp_all add: textTokens_def)

lemma addChoices_exact: "0 \<le> n \<Longrightarrow> n + textTokens ts < 2 ^ 63 \<Longrightarrow> addChoices n ts = n + textTokens ts"
proof (induction ts arbitrary: n)
  case Nil
  then show ?case by (simp add: textTokens_def)
next
  case (Cons t ts)
  have "textTokens (t # ts) = estimateTokens t + textTokens ts" by (simp add: textTokens_def)
  moreover have "0 \<le> estimateTokens t" "0 \<le> textTokens ts" by simp_all
  ultimately have "int64 (n + estimateTokens t)" "0 \<le> n + estimateTokens t" "n + estimateTokens t + textTokens ts < 2 ^ 63"
    "textTokens (t # ts) = estimateTokens t + textTokens ts"
    using Cons.prems by (unfold int64_def) linarith+
  with Cons.IH [of "n + estimateTokens t"] show ?case by simp
qed

section \<open>Properties\<close>

text \<open>C24. A request that names a model and has messages reserves the estimated tokens of its messages plus the
  completion budget it asks for (or the configured default), at least one, whenever this sum is a
  64-bit number.\<close>

theorem estimate_total:
  assumes "decPayload body = Some p" "TrimSpace (rp_Model p) \<noteq> []" "items (rp_Messages p) \<noteq> []"
    and "promptSum (items (rp_Messages p)) + completionBudgetFromRequest p d < 2 ^ 63"
  shows "\<exists>e. estimateRequest body d = Some e \<and> re_Reservable e \<and>
    u_TotalTokens (re_Usage e) = max 1 (promptSum (items (rp_Messages p)) + completionBudgetFromRequest p d) \<and>
    u_PromptTokens (re_Usage e) = promptSum (items (rp_Messages p)) \<and>
    re_CompletionBudget e = completionBudgetFromRequest p d"
  using assms(1) estimatePayload_exact [OF assms(2-4)] by (simp add: estimateRequest_def)

definition demoRequest :: string where
  \<open>demoRequest = ''{"model":" m ","messages":[{"role":"user","content":"hello gateway"}],"max_tokens":100}''\<close>

theorem estimate_total_witness:
  "\<exists>e. estimateRequest demoRequest 0 = Some e \<and> u_TotalTokens (re_Usage e) = 106"
proof -
  let ?p = "\<lparr>rp_Model = '' m '', rp_Messages = \<lparr>backing = [\<lparr>cm_Role = ''user'',
      cm_Content = [CHR 0x22] @ ''hello gateway'' @ [CHR 0x22]\<rparr>], slen = 1\<rparr>,
    rp_MaxTokens = Some 100, rp_MaxCompletionTokens = None\<rparr>"
  have "decPayload demoRequest = Some ?p" by code_simp
  moreover have "TrimSpace (rp_Model ?p) \<noteq> []" by code_simp
  moreover have "items (rp_Messages ?p) \<noteq> []" by code_simp
  moreover have s: "promptSum (items (rp_Messages ?p)) + completionBudgetFromRequest ?p 0 = 106" by code_simp
  ultimately show ?thesis
    using estimate_total [of demoRequest ?p 0] by auto
qed

text \<open>A request whose \<^verbatim>\<open>max_tokens\<close> is the largest 64-bit number overflows the sum and reserves a single
  token, whatever the configured default.\<close>

definition hugeRequest :: string where
  \<open>hugeRequest = ''{"model":"m","messages":[{"role":"user","content":"hi"}],"max_tokens":9223372036854775807}''\<close>

theorem huge_request_reserves_one_token:
  "map_option (\<lambda>e. (re_Reservable e, u_TotalTokens (re_Usage e), re_CompletionBudget e)) (estimateRequest hugeRequest d) =
     Some (True, 1, 2 ^ 63 - 1)"
proof -
  let ?p = "\<lparr>rp_Model = ''m'', rp_Messages = \<lparr>backing = [\<lparr>cm_Role = ''user'',
      cm_Content = [CHR 0x22] @ ''hi'' @ [CHR 0x22]\<rparr>], slen = 1\<rparr>,
    rp_MaxTokens = Some (2 ^ 63 - 1), rp_MaxCompletionTokens = None\<rparr>"
  have \<open>parse_json hugeRequest = Some (JObj [(''model'', ''"m"'', JStr ''m''),
      (''messages'', ''[{"role":"user","content":"hi"}]'', JArr [(''{"role":"user","content":"hi"}'',
         JObj [(''role'', ''"user"'', JStr ''user''), (''content'', ''"hi"'', JStr ''hi'')])]),
      (''max_tokens'', ''9223372036854775807'', JNum ''9223372036854775807'')])\<close> by code_simp
  moreover have "Atoi ''9223372036854775807'' = Some (2 ^ 63 - 1)"
    by (simp add: Atoi_def dec_value_def HasPrefix_def int64_def)
  ultimately have "decPayload hugeRequest = Some ?p"
    by (auto simp: decPayload_def fieldOf_def setPayload_def zeroPayload_def decMessage_def setMessage_def emptySlice_def zeroMessage_def)
  moreover have "TrimSpace ''m'' = ''m''" by code_simp
  moreover have "items (rp_Messages ?p) \<noteq> []" by code_simp
  moreover have "estimatePromptTokens (items (rp_Messages ?p)) = 3" by code_simp
  moreover have "completionBudgetFromRequest ?p d = 2 ^ 63 - 1" by (simp add: completionBudgetFromRequest_def)
  moreover have "wrap64 (3 + (2 ^ 63 - 1)) \<le> 0" by code_simp
  ultimately show ?thesis by (simp add: estimateRequest_def estimatePayload_def Let_def)
qed

text \<open>What is charged for a usage that was reported with a positive total, and what for an estimated one.\<close>

lemma reported_charged:
  "0 < ru_TotalTokens u \<Longrightarrow> u_TotalTokens (reportedUsage m u e) = ru_TotalTokens u \<and> \<not> u_Estimated (reportedUsage m u e)"
  by (simp add: reportedUsage_def normalizeUsage_def Let_def)

lemma estimated_charged:
  assumes "0 \<le> u_PromptTokens (re_Usage e)" "0 < u_PromptTokens (re_Usage e) + textTokens ts"
    "u_PromptTokens (re_Usage e) + textTokens ts < 2 ^ 63"
  shows "u_TotalTokens (estimatedUsage m (addChoices 0 ts) e) = u_PromptTokens (re_Usage e) + textTokens ts \<and>
    u_Estimated (estimatedUsage m (addChoices 0 ts) e)"
proof -
  have nn: "0 \<le> textTokens ts" by simp
  then have "textTokens ts < 2 ^ 63" using assms(1,3) by linarith
  then have add: "addChoices 0 ts = textTokens ts" using addChoices_exact [of 0 ts] by simp
  have "wrap64 (u_PromptTokens (re_Usage e) + textTokens ts) = u_PromptTokens (re_Usage e) + textTokens ts"
    using assms nn by (intro wrap64_id) (unfold int64_def, linarith)
  then show ?thesis using assms(2) by (simp add: estimatedUsage_def normalizeUsage_def Let_def add)
qed

definition isEventStream :: "string \<Rightarrow> bool" where
  "isEventStream contentType \<longleftrightarrow> Contains (ToLower contentType) ''text/event-stream''"

text \<open>The text the completion tokens of a response are estimated from, and the usage it reports: of an event stream the texts
  of the chunks without a usage, and the last usage; \<open>None\<close> when a body that is no event stream is not readable.\<close>

definition responseParts :: "string \<Rightarrow> string \<Rightarrow> (string list \<times> responseUsage option) option" where
  "responseParts b contentType =
     (if isEventStream contentType
      then let cs = streamChunks (splitLines b) in Some (deltaTexts cs, lastReported cs)
      else map_option (\<lambda>p. (items (rs_Choices p), rs_Usage p)) (decResponse ''message'' b))"

lemma usage_parts:
  "responseParts b ct = None \<Longrightarrow> usageFromResponseBody b ct False e = re_Usage e"
  "responseParts b ct = Some (ts, Some u) \<Longrightarrow> \<exists>m. usageFromResponseBody b ct False e = reportedUsage m u e"
  "responseParts b ct = Some (ts, None) \<Longrightarrow> \<exists>m. usageFromResponseBody b ct False e = estimatedUsage m (addChoices 0 ts) e"
proof -
  obtain m where scan: "scanStream (splitLines b) (u_Model (re_Usage e), 0, None) =
      (m, addChoices 0 (deltaTexts (streamChunks (splitLines b))), lastReported (streamChunks (splitLines b)))"
    using scanStream_chunks [of "splitLines b" "u_Model (re_Usage e)" 0 None] by (auto split: option.splits)
  note defs = responseParts_def isEventStream_def usageFromResponseBody_def usageFromJSONResponse_def usageFromStreamResponse_def Let_def
  show "responseParts b ct = None \<Longrightarrow> usageFromResponseBody b ct False e = re_Usage e"
    by (simp add: defs split: if_splits)
  show "responseParts b ct = Some (ts, Some u) \<Longrightarrow> \<exists>m. usageFromResponseBody b ct False e = reportedUsage m u e"
    by (auto simp: defs scan simp del: firstNonEmpty.simps split: if_splits)
  show "responseParts b ct = Some (ts, None) \<Longrightarrow> \<exists>m. usageFromResponseBody b ct False e = estimatedUsage m (addChoices 0 ts) e"
    by (auto simp: defs scan simp del: firstNonEmpty.simps split: if_splits)
qed

text \<open>C25. What a reserved request is charged for its response. It is always at least one token. If the captured body was
  truncated, or if it is no event stream and cannot be read, the estimate of the request is charged. If a usage was
  reported, in the body or last in the stream, with a positive total, this total is charged and not marked as an estimate.
  If none was reported, the estimated prompt plus the tokens of the response texts is charged, marked as an estimate, as
  long as this is a positive 64-bit number; so an event stream of which no chunk can be read is charged the prompt
  only.\<close>

theorem usage_charged:
  assumes "estimateRequest body d = Some e" "re_Reservable e"
  shows "1 \<le> u_TotalTokens (usageFromResponseBody b ct tr e) \<and>
    usageFromResponseBody b ct True e = re_Usage e \<and>
    (case responseParts b ct of
       None \<Rightarrow> usageFromResponseBody b ct False e = re_Usage e
     | Some (_, Some u) \<Rightarrow> 0 < ru_TotalTokens u \<longrightarrow>
         u_TotalTokens (usageFromResponseBody b ct False e) = ru_TotalTokens u \<and> \<not> u_Estimated (usageFromResponseBody b ct False e)
     | Some (ts, None) \<Rightarrow>
         0 \<le> u_PromptTokens (re_Usage e) \<longrightarrow> 0 < u_PromptTokens (re_Usage e) + textTokens ts \<longrightarrow>
         u_PromptTokens (re_Usage e) + textTokens ts < 2 ^ 63 \<longrightarrow>
         u_TotalTokens (usageFromResponseBody b ct False e) = u_PromptTokens (re_Usage e) + textTokens ts \<and>
         u_Estimated (usageFromResponseBody b ct False e))"
proof -
  from assms obtain p where "e = estimatePayload p d" by (auto simp: estimateRequest_def)
  with assms(2) have "1 \<le> u_TotalTokens (re_Usage e)" using reservable_total by simp
  then have "1 \<le> u_TotalTokens (usageFromResponseBody b ct tr e)" by (rule usage_pos)
  moreover have "usageFromResponseBody b ct True e = re_Usage e" by (simp add: usageFromResponseBody_def)
  moreover note usage_parts [of b ct] reported_charged [of _ _ e] estimated_charged [of e]
  ultimately show ?thesis by (auto split: option.split) metis+
qed

definition demoUsageBody :: string where
  \<open>demoUsageBody = ''{"model":"m","usage":{"prompt_tokens":7,"completion_tokens":5,"total_tokens":12}}''\<close>

definition demoStream :: string where
  \<open>demoStream = ''data: {"choices":[{"delta":{"content":"hello"}}]}'' @ [CHR 0x0A, CHR 0x0A] @
     ''data: {"choices":[],"usage":{"total_tokens":9}}'' @ [CHR 0x0A, CHR 0x0A] @ ''data: [DONE]''\<close>

theorem usage_charged_witness:
  "\<exists>e. estimateRequest demoRequest 0 = Some e \<and> u_TotalTokens (usageFromResponseBody demoUsageBody ''application/json'' False e) = 12 \<and>
     u_TotalTokens (usageFromResponseBody demoStream ''text/event-stream'' False e) = 9 \<and>
     u_TotalTokens (usageFromResponseBody ''?'' ''text/event-stream'' False e) = 6"
proof -
  have "map_option (\<lambda>e. (re_Reservable e, u_PromptTokens (re_Usage e))) (estimateRequest demoRequest 0) = Some (True, 6)" by code_simp
  then obtain e where e: "estimateRequest demoRequest 0 = Some e" "re_Reservable e" "u_PromptTokens (re_Usage e) = 6" by auto
  have "responseParts demoUsageBody ''application/json'' = Some ([], Some \<lparr>ru_PromptTokens = 7, ru_CompletionTokens = 5, ru_TotalTokens = 12\<rparr>)"
    by code_simp
  moreover have "responseParts demoStream ''text/event-stream'' = Some ([''hello''], Some \<lparr>ru_PromptTokens = 0, ru_CompletionTokens = 0, ru_TotalTokens = 9\<rparr>)"
    by code_simp
  moreover have "responseParts ''?'' ''text/event-stream'' = Some ([], None)" by code_simp
  moreover have "textTokens [] = 0" by (simp add: textTokens_def)
  ultimately show ?thesis
    using usage_charged [OF e(1,2), of demoUsageBody "''application/json''" False] usage_charged [OF e(1,2), of demoStream "''text/event-stream''" False]
      usage_charged [OF e(1,2), of "''?''" "''text/event-stream''" False] e(1,3)
    by simp
qed

end
