(* ===== verification/Sha256.thy ===== *)
theory Sha256
  imports Go_Strings
begin

text \<open>
  The hash function \<^verbatim>\<open>sha256.Sum256\<close> of Go's \<^verbatim>\<open>crypto/sha256\<close> on 32-bit words: padding, message
  schedule and the 64 rounds of every block.
\<close>

unbundle bit_operations_syntax

type_synonym w32 = "32 word"

definition shaK :: "w32 list" where
  "shaK = [
     0x428A2F98, 0x71374491, 0xB5C0FBCF, 0xE9B5DBA5, 0x3956C25B, 0x59F111F1, 0x923F82A4, 0xAB1C5ED5,
     0xD807AA98, 0x12835B01, 0x243185BE, 0x550C7DC3, 0x72BE5D74, 0x80DEB1FE, 0x9BDC06A7, 0xC19BF174,
     0xE49B69C1, 0xEFBE4786, 0x0FC19DC6, 0x240CA1CC, 0x2DE92C6F, 0x4A7484AA, 0x5CB0A9DC, 0x76F988DA,
     0x983E5152, 0xA831C66D, 0xB00327C8, 0xBF597FC7, 0xC6E00BF3, 0xD5A79147, 0x06CA6351, 0x14292967,
     0x27B70A85, 0x2E1B2138, 0x4D2C6DFC, 0x53380D13, 0x650A7354, 0x766A0ABB, 0x81C2C92E, 0x92722C85,
     0xA2BFE8A1, 0xA81A664B, 0xC24B8B70, 0xC76C51A3, 0xD192E819, 0xD6990624, 0xF40E3585, 0x106AA070,
     0x19A4C116, 0x1E376C08, 0x2748774C, 0x34B0BCB5, 0x391C0CB3, 0x4ED8AA4A, 0x5B9CCA4F, 0x682E6FF3,
     0x748F82EE, 0x78A5636F, 0x84C87814, 0x8CC70208, 0x90BEFFFA, 0xA4506CEB, 0xBEF9A3F7, 0xC67178F2]"

definition shaInit :: "w32 list" where
  "shaInit = [
     0x6A09E667, 0xBB67AE85, 0x3C6EF372, 0xA54FF53A, 0x510E527F, 0x9B05688C, 0x1F83D9AB, 0x5BE0CD19]"

definition rotr :: "nat \<Rightarrow> w32 \<Rightarrow> w32" where
  "rotr n x = drop_bit n x OR push_bit (32 - n) x"

text \<open>Big-endian words from bytes and back.\<close>

fun beWords :: "string \<Rightarrow> w32 list" where
  "beWords (a # b # c # d # s) =
     (push_bit 24 (word_of_nat (of_char a)) OR push_bit 16 (word_of_nat (of_char b)) OR
      push_bit 8 (word_of_nat (of_char c)) OR word_of_nat (of_char d)) # beWords s"
| "beWords _ = []"

definition beBytes :: "w32 \<Rightarrow> string" where
  "beBytes x = map (\<lambda>n. char_of (unat (drop_bit n x) mod 256)) [24, 16, 8, 0]"

text \<open>The message, a one bit, zeros, and the length in bits on eight bytes.\<close>

definition shaPad :: "string \<Rightarrow> string" where
  "shaPad m = m @ [CHR 0x80] @ replicate ((119 - length m mod 64) mod 64) (CHR 0x00) @
     map (\<lambda>n. char_of (8 * length m div 256 ^ n mod 256)) [7, 6, 5, 4, 3, 2, 1, 0]"

definition sched0 :: "w32 \<Rightarrow> w32" where
  "sched0 x = rotr 7 x XOR rotr 18 x XOR drop_bit 3 x"

definition sched1 :: "w32 \<Rightarrow> w32" where
  "sched1 x = rotr 17 x XOR rotr 19 x XOR drop_bit 10 x"

text \<open>The schedule grows from 16 to 64 words; \<open>n\<close> words are still missing.\<close>

fun shaSchedule :: "nat \<Rightarrow> w32 list \<Rightarrow> w32 list" where
  "shaSchedule 0 ws = ws"
| "shaSchedule (Suc n) ws =
     (let t = length ws
      in shaSchedule n (ws @ [sched1 (ws ! (t - 2)) + ws ! (t - 7) + sched0 (ws ! (t - 15)) + ws ! (t - 16)]))"

fun shaRound :: "w32 \<times> w32 \<Rightarrow> w32 list \<Rightarrow> w32 list" where
  "shaRound (k, v) [a, b, c, d, e, f, g, h] =
     (let t1 = h + (rotr 6 e XOR rotr 11 e XOR rotr 25 e) + ((e AND f) XOR (NOT e AND g)) + k + v;
          t2 = (rotr 2 a XOR rotr 13 a XOR rotr 22 a) + ((a AND b) XOR (a AND c) XOR (b AND c))
      in [t1 + t2, a, b, c, d + t1, e, f, g])"
| "shaRound _ hs = hs"

definition shaBlock :: "w32 list \<Rightarrow> w32 list \<Rightarrow> w32 list" where
  "shaBlock hs ws = map2 (+) hs (fold shaRound (zip shaK (shaSchedule 48 ws)) hs)"

function shaBlocks :: "w32 list \<Rightarrow> w32 list \<Rightarrow> w32 list" where
  "shaBlocks hs ws = (if ws = [] then hs else shaBlocks (shaBlock hs (take 16 ws)) (drop 16 ws))"
  by pat_completeness auto
termination
  by (relation "measure (\<lambda>(hs, ws). length ws)") auto

declare shaBlocks.simps [simp del]

definition sha256 :: "string \<Rightarrow> string" where
  "sha256 m = concat (map beBytes (shaBlocks shaInit (beWords (shaPad m))))"

section \<open>A digest has 32 bytes\<close>

lemma shaRound_length: "length (shaRound kv hs) = length hs"
  by (induction kv hs rule: shaRound.induct) (auto simp: Let_def)

lemma fold_shaRound_length: "length (fold shaRound kvs hs) = length hs"
  by (induction kvs arbitrary: hs) (simp_all add: shaRound_length)

lemma shaBlocks_length: "length hs = 8 \<Longrightarrow> length (shaBlocks hs ws) = 8"
proof (induction hs ws rule: shaBlocks.induct)
  case (1 hs ws)
  then show ?case
    by (subst shaBlocks.simps) (simp add: shaBlock_def fold_shaRound_length)
qed

lemma sha256_length [simp]: "length (sha256 m) = 32"
proof -
  have "length (shaBlocks shaInit ws) = 8" for ws
    by (rule shaBlocks_length) (simp add: shaInit_def)
  moreover have "length (concat (map beBytes xs)) = 4 * length xs" for xs
    by (induction xs) (simp_all add: beBytes_def)
  ultimately show ?thesis by (simp add: sha256_def)
qed

end
