(* ===== verification/Config_Validate.thy ===== *)
theory Config_Validate
  imports Go_Net Config_Types
begin

text \<open>
  Validation of a configuration: \<^verbatim>\<open>internal/config/validate.go\<close>, \<^verbatim>\<open>validateAPIKeyAuth\<close> of
  \<^verbatim>\<open>internal/config/auth.go\<close>, and \<^verbatim>\<open>applyEnvOverrides\<close> of \<^verbatim>\<open>internal/config/loader.go\<close>. A check
  returns \<open>None\<close> for nil and otherwise its error; an error is the kind of its message with the
  values the message shows, the path of the field first.
\<close>

datatype configError =
    EmptyField string | NotPositive string | Negative string | Duplicate string "string option"
  | NotAbsoluteURL string | UnsupportedScheme string | AddressFormat | AddressPort string
  | EmptyKeyIn string | StackEmpty | BothURLsEmpty string string
  | IllegalHeader | NoKeys | InvalidKeyHash nat
  | TooFewBackends | UnsupportedType nat string | NoModels nat | ModelTwice string string string
  | UnknownSource string | UnknownTarget string nat string | SelfFallback string | FallbackCycle string

text \<open>The path of an element in a message: \<open>name[i]\<close>.\<close>

definition idx :: "string \<Rightarrow> nat \<Rightarrow> string" where
  "idx name i = name @ ''['' @ Itoa (int i) @ '']''"

text \<open>A check followed by the rest of the function: the first one that fails decides.\<close>

fun andThen :: "configError option \<Rightarrow> configError option \<Rightarrow> configError option" where
  "andThen (Some e) r = Some e"
| "andThen None r = r"

definition check :: "bool \<Rightarrow> configError \<Rightarrow> configError option" where
  "check bad e = (if bad then Some e else None)"

text \<open>The checks of a function body, in order; a loop over a list with its index.\<close>

fun firstError :: "configError option list \<Rightarrow> configError option" where
  "firstError [] = None"
| "firstError (c # cs) = andThen c (firstError cs)"

fun eachFrom :: "nat \<Rightarrow> (nat \<Rightarrow> 'a \<Rightarrow> configError option) \<Rightarrow> 'a list \<Rightarrow> configError option" where
  "eachFrom i f [] = None"
| "eachFrom i f (x # xs) = andThen (f i x) (eachFrom (Suc i) f xs)"

definition blank :: "string \<Rightarrow> bool" where
  "blank s \<longleftrightarrow> TrimSpace s = []"

section \<open>Parts of the configuration\<close>

definition validateOTLPEndpoint :: "string \<Rightarrow> string \<Rightarrow> configError option" where
  "validateOTLPEndpoint field value =
     (let v = TrimSpace value
      in if v = [] then None
         else case url_Parse v of
             None \<Rightarrow> Some (NotAbsoluteURL field)
           | Some (scheme, host) \<Rightarrow>
               if scheme = [] \<or> host = [] then Some (NotAbsoluteURL field)
               else if scheme \<noteq> ''http'' \<and> scheme \<noteq> ''https'' then Some (UnsupportedScheme field)
               else None)"

definition validateOpenTelemetry :: "OpenTelemetryConfig \<Rightarrow> configError option" where
  "validateOpenTelemetry cfg =
     (if \<not> otel_Enabled cfg then None
      else firstError [
        check (blank (otel_ServiceName cfg)) (EmptyField ''observability.opentelemetry.service_name''),
        check (otel_ExportTimeout cfg \<le> 0) (NotPositive ''observability.opentelemetry.export_timeout''),
        validateOTLPEndpoint ''observability.opentelemetry.endpoint'' (otel_Endpoint cfg),
        validateOTLPEndpoint ''observability.opentelemetry.traces.endpoint'' (sig_Endpoint (otel_Traces cfg)),
        validateOTLPEndpoint ''observability.opentelemetry.logs.endpoint'' (sig_Endpoint (otel_Logs cfg)),
        eachFrom 0 (\<lambda>_ e. check (blank (fst e)) (EmptyKeyIn ''observability.opentelemetry.headers'')) (otel_Headers cfg)])"

definition validateService :: "nat \<Rightarrow> ObservabilityServiceConfig \<Rightarrow> configError option" where
  "validateService index service =
     (let prefix = idx ''observability.stack.services'' index
      in firstError [
        check (blank (svc_Name service)) (EmptyField (prefix @ ''.name'')),
        check (blank (svc_Kind service)) (EmptyField (prefix @ ''.kind'')),
        validateOTLPEndpoint (prefix @ ''.public_url'') (svc_PublicURL service),
        validateOTLPEndpoint (prefix @ ''.health_url'') (svc_HealthURL service),
        check (blank (svc_PublicURL service) \<and> blank (svc_HealthURL service)) (BothURLsEmpty (prefix @ ''.public_url'') (prefix @ ''.health_url''))])"

definition validateDashboard :: "nat \<Rightarrow> ObservabilityDashboardConfig \<Rightarrow> configError option" where
  "validateDashboard index dashboard =
     (let prefix = idx ''observability.stack.dashboards'' index
      in firstError [
        check (blank (dash_Name dashboard)) (EmptyField (prefix @ ''.name'')),
        validateOTLPEndpoint (prefix @ ''.url'') (dash_URL dashboard),
        validateOTLPEndpoint (prefix @ ''.embed_url'') (dash_EmbedURL dashboard),
        check (blank (dash_URL dashboard) \<and> blank (dash_EmbedURL dashboard)) (BothURLsEmpty (prefix @ ''.url'') (prefix @ ''.embed_url''))])"

definition validateObservabilityStack :: "ObservabilityStack \<Rightarrow> configError option" where
  "validateObservabilityStack cfg =
     (if \<not> stack_Enabled cfg then None
      else firstError [
        check (stack_Services cfg = [] \<and> stack_Dashboards cfg = []) StackEmpty,
        eachFrom 0 validateService (stack_Services cfg),
        eachFrom 0 validateDashboard (stack_Dashboards cfg)])"

definition normalizeAPIKeyHash :: "string \<Rightarrow> string option" where
  "normalizeAPIKeyHash value =
     (let hash = TrimPrefix (TrimSpace (ToLower value)) ''sha256:''
      in if length hash \<noteq> 64 then None
         else if hex_decode hash = None then None
         else Some hash)"

text \<open>The loop over the keys; \<open>ids\<close> and \<open>hashes\<close> are the sets of what was seen.\<close>

fun validateKeys :: "string set \<Rightarrow> string set \<Rightarrow> nat \<Rightarrow> APIKeyCredentialConfig list \<Rightarrow> configError option" where
  "validateKeys ids hashes i [] = None"
| "validateKeys ids hashes i (key # keys) =
     (let keyID = TrimSpace (key_ID key)
      in if keyID = [] then Some (EmptyField (idx ''auth.api_key.keys'' i @ ''.id''))
         else if keyID \<in> ids then Some (Duplicate (idx ''auth.api_key.keys'' i @ ''.id'') (Some keyID))
         else if blank (key_UserID key) then Some (EmptyField (idx ''auth.api_key.keys'' i @ ''.user_id''))
         else case normalizeAPIKeyHash (key_KeyHash key) of
             None \<Rightarrow> Some (InvalidKeyHash i)
           | Some hash \<Rightarrow>
               if hash \<in> hashes then Some (Duplicate (idx ''auth.api_key.keys'' i @ ''.key_hash'') None)
               else andThen (eachFrom 0 (\<lambda>j scope. check (blank scope) (EmptyField (idx (idx ''auth.api_key.keys'' i @ ''.scopes'') j))) (key_Scopes key))
                 (validateKeys (insert keyID ids) (insert hash hashes) (Suc i) keys))"

definition headerIllegal :: string where
  "headerIllegal = [CHR '' '', CHR 0x09, CHR 0x0D, CHR 0x0A, CHR '':'']"

definition validateAPIKeyAuth :: "APIKeyAuthConfig \<Rightarrow> configError option" where
  "validateAPIKeyAuth cfg =
     (if \<not> auth_Enabled cfg then None
      else firstError [
        check (blank (auth_Header cfg)) (EmptyField ''auth.api_key.header''),
        check (ContainsAny (auth_Header cfg) headerIllegal) IllegalHeader,
        check (auth_Keys cfg = []) NoKeys,
        validateKeys {} {} 0 (auth_Keys cfg)])"

definition validateTokenUsage :: "TokenUsageConfig \<Rightarrow> configError option" where
  "validateTokenUsage cfg =
     (if \<not> tu_Enabled cfg then None
      else firstError [
        check (blank (tu_IdentityHeader cfg)) (EmptyField ''token_usage.identity_header''),
        check (tu_Window cfg \<le> 0) (NotPositive ''token_usage.window''),
        check (tu_DefaultBudgetTokens cfg \<le> 0) (NotPositive ''token_usage.default_budget_tokens''),
        check (tu_DefaultMaxCompletionTokens cfg < 0) (Negative ''token_usage.default_max_completion_tokens''),
        eachFrom 0 (\<lambda>_ e. andThen (check (blank (fst e)) (EmptyKeyIn ''token_usage.user_budgets''))
          (check (snd e \<le> 0) (NotPositive (''token_usage.user_budgets['' @ fst e @ '']'')))) (tu_UserBudgets cfg)])"

definition validateCircuitBreaker :: "CircuitBreakerConfig \<Rightarrow> configError option" where
  "validateCircuitBreaker cfg = firstError [
     check (cb_FailureThreshold cfg \<le> 0) (NotPositive ''ai.circuit_breaker.failure_threshold''),
     check (cb_OpenTimeout cfg \<le> 0) (NotPositive ''ai.circuit_breaker.open_timeout''),
     check (cb_HalfOpenMaxRequests cfg \<le> 0) (NotPositive ''ai.circuit_breaker.half_open_max_requests'')]"

section \<open>Fallbacks\<close>

text \<open>
  The first loop of \<^verbatim>\<open>validateFallbacks\<close>: it checks every source and target and builds the table
  \<^verbatim>\<open>normalized\<close>, an association list in the order its keys are entered.
\<close>

fun lookupTargets :: "(string \<times> string list) list \<Rightarrow> string \<Rightarrow> string list" where
  "lookupTargets [] s = []"
| "lookupTargets ((k, ts) # m) s = (if k = s then ts else lookupTargets m s)"

lemma lookupTargets_unknown: "s \<notin> fst ` set m \<Longrightarrow> lookupTargets m s = []"
  by (induction m s rule: lookupTargets.induct) auto

fun appendTarget :: "(string \<times> string list) list \<Rightarrow> string \<Rightarrow> string \<Rightarrow> (string \<times> string list) list" where
  "appendTarget [] s t = [(s, [t])]"
| "appendTarget ((k, ts) # m) s t = (if k = s then (k, ts @ [t]) # m else (k, ts) # appendTarget m s t)"

fun checkTargets :: "(string \<rightharpoonup> string) \<Rightarrow> string \<Rightarrow> nat \<Rightarrow> string list \<Rightarrow> (string \<times> string list) list \<Rightarrow>
    configError + (string \<times> string list) list" where
  "checkTargets models source i [] normalized = Inr normalized"
| "checkTargets models source i (target # targets) normalized =
     (let t = TrimSpace target
      in if t = [] then Inl (EmptyField (idx (''ai.fallbacks['' @ source @ '']'') i))
         else if models t = None then Inl (UnknownTarget source i t)
         else if t = source then Inl (SelfFallback source)
         else checkTargets models source (Suc i) targets (appendTarget normalized source t))"

fun checkSources :: "(string \<rightharpoonup> string) \<Rightarrow> (string \<times> string list) list \<Rightarrow> (string \<times> string list) list \<Rightarrow>
    configError + (string \<times> string list) list" where
  "checkSources models [] normalized = Inr normalized"
| "checkSources models ((source, targets) # rest) normalized =
     (let s = TrimSpace source
      in if s = [] then Inl (EmptyKeyIn ''ai.fallbacks'')
         else if models s = None then Inl (UnknownSource s)
         else case checkTargets models s 0 targets normalized of
             Inl e \<Rightarrow> Inl e
           | Inr normalized' \<Rightarrow> checkSources models rest normalized')"

text \<open>
  The closure \<^verbatim>\<open>visit\<close>, run on a list of models one after the other. \<open>visiting\<close> is the stack of
  models whose visit is running: \<^verbatim>\<open>visit\<close> sets its entry of the map and clears it again before
  it returns nil, so on a normal return the map is what it was. The result is the model on a
  cycle or the models visited.
\<close>

function visitModels :: "(string \<times> string list) list \<Rightarrow> string list \<Rightarrow> string list \<Rightarrow> string set \<Rightarrow> string + string set" where
  "visitModels tbl visiting [] visited = Inr visited"
| "visitModels tbl visiting (model # models) visited =
     (if model \<in> set visiting then Inl model
      else if model \<in> visited then visitModels tbl visiting models visited
      else case visitModels tbl (model # visiting) (lookupTargets tbl model) visited of
          Inl e \<Rightarrow> Inl e
        | Inr visited' \<Rightarrow> visitModels tbl visiting models (insert model visited'))"
  by pat_completeness auto

termination
proof (relation "inv_image ({(x, y). x < y} <*lex*> {(x, y). x < y})
    (\<lambda>(tbl, visiting, models, _). (card (fst ` set tbl - set visiting), length models))", goal_cases)
  case 1
  show ?case by (intro wf_inv_image wf_lex_prod wf_less)
next
  case (3 tbl visiting model models visited)
  show ?case
  proof (cases "model \<in> fst ` set tbl")
    case True
    with 3 have "card (fst ` set tbl - set (model # visiting)) < card (fst ` set tbl - set visiting)"
      by (intro psubset_card_mono) auto
    then show ?thesis by simp
  next
    case False
    then have "fst ` set tbl - set (model # visiting) = fst ` set tbl - set visiting" by auto
    with False show ?thesis by (simp add: lookupTargets_unknown)
  qed
qed auto

definition validateFallbacks :: "(string \<times> string list) list \<Rightarrow> (string \<rightharpoonup> string) \<Rightarrow> configError option" where
  "validateFallbacks fallbacks models =
     (case checkSources models fallbacks [] of
        Inl e \<Rightarrow> Some e
      | Inr normalized \<Rightarrow>
          (case visitModels normalized [] (map fst normalized) {} of
             Inl m \<Rightarrow> Some (FallbackCycle m)
           | Inr _ \<Rightarrow> None))"

section \<open>Backends and the whole configuration\<close>

definition backendTypeCheck :: "nat \<Rightarrow> ModelBackendConfig \<Rightarrow> configError option" where
  "backendTypeCheck i backend =
     (let backendType = TrimSpace (ToLower (be_Type backend))
      in if backendType = ''mock'' then None
         else if backendType \<in> {''openai'', ''openai_compatible'', ''openai-compatible''} then
           (let baseURL = TrimSpace (be_BaseURL backend)
            in if baseURL = [] then Some (EmptyField (idx ''ai.backends'' i @ ''.base_url''))
               else case url_Parse baseURL of
                   None \<Rightarrow> Some (NotAbsoluteURL (idx ''ai.backends'' i @ ''.base_url''))
                 | Some (scheme, host) \<Rightarrow>
                     if scheme = [] \<or> host = [] then Some (NotAbsoluteURL (idx ''ai.backends'' i @ ''.base_url''))
                     else if scheme \<noteq> ''http'' \<and> scheme \<noteq> ''https'' then Some (UnsupportedScheme (idx ''ai.backends'' i @ ''.base_url''))
                     else None)
         else Some (UnsupportedType i (be_Type backend)))"

text \<open>The loop over the models of a backend; \<open>models\<close> maps a model to its backend.\<close>

fun addModels :: "nat \<Rightarrow> string \<Rightarrow> nat \<Rightarrow> string list \<Rightarrow> (string \<rightharpoonup> string) \<Rightarrow> configError + (string \<rightharpoonup> string)" where
  "addModels i name j [] models = Inr models"
| "addModels i name j (model # rest) models =
     (let m = TrimSpace model
      in if m = [] then Inl (EmptyField (idx (idx ''ai.backends'' i @ ''.models'') j))
         else case models m of
             Some owner \<Rightarrow> Inl (ModelTwice m owner name)
           | None \<Rightarrow> addModels i name (Suc j) rest (models(m \<mapsto> name)))"

fun addBackends :: "nat \<Rightarrow> ModelBackendConfig list \<Rightarrow> string set \<Rightarrow> (string \<rightharpoonup> string) \<Rightarrow> configError + (string \<rightharpoonup> string)" where
  "addBackends i [] names models = Inr models"
| "addBackends i (backend # rest) names models =
     (let name = TrimSpace (be_Name backend)
      in if name = [] then Inl (EmptyField (idx ''ai.backends'' i @ ''.name''))
         else if name \<in> names then Inl (Duplicate (idx ''ai.backends'' i @ ''.name'') (Some name))
         else case backendTypeCheck i backend of
             Some e \<Rightarrow> Inl e
           | None \<Rightarrow>
               if be_Models backend = [] then Inl (NoModels i)
               else case addModels i name 0 (be_Models backend) models of
                   Inl e \<Rightarrow> Inl e
                 | Inr models' \<Rightarrow> addBackends (Suc i) rest (insert name names) models')"

definition validateAddress :: "string \<Rightarrow> configError option" where
  "validateAddress address =
     (if blank address then Some (EmptyField ''server.address'')
      else case SplitHostPort address of
          None \<Rightarrow> Some AddressFormat
        | Some (_, port) \<Rightarrow>
            (case Atoi port of
               None \<Rightarrow> Some (AddressPort port)
             | Some n \<Rightarrow> if n \<le> 0 \<or> n > 65535 then Some (AddressPort port) else None))"

definition validateUserRateLimit :: "UserRateLimitConfig \<Rightarrow> configError option" where
  "validateUserRateLimit cfg =
     (if \<not> rl_Enabled cfg then None
      else firstError [
        check (blank (rl_IdentityHeader cfg)) (EmptyField ''rate_limit.user.identity_header''),
        check (rl_RequestsPerSecond cfg \<le> 0) (NotPositive ''rate_limit.user.requests_per_second''),
        check (rl_Burst cfg \<le> 0) (NotPositive ''rate_limit.user.burst'')])"

definition validateModels :: "AIConfig \<Rightarrow> configError option" where
  "validateModels ai =
     (if length (ai_Backends ai) < 2 then Some TooFewBackends
      else case addBackends 0 (ai_Backends ai) {} Map.empty of
          Inl e \<Rightarrow> Some e
        | Inr models \<Rightarrow> validateFallbacks (ai_Fallbacks ai) models)"

definition Validate :: "Config \<Rightarrow> configError option" where
  "Validate c = firstError [
     validateAddress (srv_Address (cfg_Server c)),
     check (srv_ReadHeaderTimeout (cfg_Server c) \<le> 0) (NotPositive ''server.read_header_timeout''),
     check (srv_ShutdownTimeout (cfg_Server c) \<le> 0) (NotPositive ''server.shutdown_timeout''),
     check (blank (obs_MetricsNamespace (cfg_Observability c))) (EmptyField ''observability.metrics_namespace''),
     validateOpenTelemetry (obs_OpenTelemetry (cfg_Observability c)),
     validateObservabilityStack (obs_Stack (cfg_Observability c)),
     validateAPIKeyAuth (cfg_Auth c),
     validateUserRateLimit (rate_User (cfg_RateLimit c)),
     check (cc_Enabled (rate_Concurrency (cfg_RateLimit c)) \<and> cc_MaxInFlight (rate_Concurrency (cfg_RateLimit c)) \<le> 0)
       (NotPositive ''rate_limit.concurrency.max_in_flight''),
     validateTokenUsage (cfg_TokenUsage c),
     check (ai_RequestTimeout (cfg_AI c) \<le> 0) (NotPositive ''ai.request_timeout''),
     check (ai_FirstTokenTimeout (cfg_AI c) \<le> 0) (NotPositive ''ai.first_token_timeout''),
     validateCircuitBreaker (ai_CircuitBreaker (cfg_AI c)),
     validateModels (cfg_AI c)]"

text \<open>The environment is a function from variable names; an unset variable reads as the empty
  string.\<close>

definition applyEnvOverrides :: "(string \<Rightarrow> string) \<Rightarrow> Config \<Rightarrow> Config" where
  "applyEnvOverrides env cfg =
     (let set_addr = (\<lambda>v c. if v \<noteq> [] then c\<lparr>cfg_Server := (cfg_Server c)\<lparr>srv_Address := v\<rparr>\<rparr> else c)
      in set_addr (env ''GATEWAY_ADDR'') (set_addr (env ''GATEWAY_ADDRESS'') cfg))"

text \<open>
  \<^verbatim>\<open>Load\<close>. \<open>readFile\<close> is the file system, \<open>decode\<close> the JSON decoder that overwrites the defaults
  with the fields of the file; \<open>None\<close> is an error.
\<close>

datatype loadError = ReadError | DecodeError | Invalid configError

definition Load :: "(string \<Rightarrow> string) \<Rightarrow> (string \<Rightarrow> string option) \<Rightarrow> (string \<Rightarrow> Config \<Rightarrow> Config option) \<Rightarrow> string \<Rightarrow> loadError + Config" where
  "Load env readFile decode path0 =
     (let path = (if path0 = [] then env ''GATEWAY_CONFIG'' else path0);
          read = (if path = [] then Inr Default
                  else case readFile path of
                      None \<Rightarrow> Inl ReadError
                    | Some data \<Rightarrow> (case decode data Default of None \<Rightarrow> Inl DecodeError | Some cfg \<Rightarrow> Inr cfg))
      in case read of
           Inl e \<Rightarrow> Inl e
         | Inr cfg \<Rightarrow>
             (let cfg' = applyEnvOverrides env cfg
              in case Validate cfg' of Some e \<Rightarrow> Inl (Invalid e) | None \<Rightarrow> Inr cfg'))"

section \<open>What the loops check\<close>

lemma andThen_None [simp]: "andThen a b = None \<longleftrightarrow> a = None \<and> b = None"
  by (cases a) auto

lemma check_None [simp]: "check bad e = None \<longleftrightarrow> \<not> bad"
  by (simp add: check_def)

lemma firstError_None [simp]: "firstError cs = None \<longleftrightarrow> (\<forall>c \<in> set cs. c = None)"
  by (induction cs) auto

lemma eachFrom_None:
  "(\<And>i x. (f i x = None) = P x) \<Longrightarrow> eachFrom i f xs = None \<longleftrightarrow> (\<forall>x \<in> set xs. P x)"
  by (induction xs arbitrary: i) auto

text \<open>The loop over the API keys accepts exactly the keys with distinct, non-blank identifiers and
  distinct, well-formed hashes.\<close>

definition keyOk :: "APIKeyCredentialConfig \<Rightarrow> bool" where
  "keyOk key \<longleftrightarrow> \<not> blank (key_ID key) \<and> \<not> blank (key_UserID key) \<and> normalizeAPIKeyHash (key_KeyHash key) \<noteq> None \<and>
     (\<forall>s \<in> set (key_Scopes key). \<not> blank s)"

lemma validateKeys_None:
  "validateKeys ids hashes i keys = None \<longleftrightarrow>
     (\<forall>k \<in> set keys. keyOk k \<and> TrimSpace (key_ID k) \<notin> ids \<and> the (normalizeAPIKeyHash (key_KeyHash k)) \<notin> hashes) \<and>
     distinct (map (\<lambda>k. TrimSpace (key_ID k)) keys) \<and> distinct (map (\<lambda>k. normalizeAPIKeyHash (key_KeyHash k)) keys)"
proof (induction ids hashes i keys rule: validateKeys.induct)
  case (2 ids hashes i key keys)
  let ?n = "\<lambda>k. normalizeAPIKeyHash (key_KeyHash k)"
  have scopes: "eachFrom 0 (\<lambda>j scope. check (blank scope) (EmptyField (idx (idx ''auth.api_key.keys'' i @ ''.scopes'') j))) (key_Scopes key) = None
      \<longleftrightarrow> (\<forall>s \<in> set (key_Scopes key). \<not> blank s)"
    by (rule eachFrom_None) simp
  have hash: "(\<forall>k \<in> set keys. ?n k \<noteq> None \<longrightarrow> the (?n k) \<noteq> h) \<longleftrightarrow> (\<forall>k \<in> set keys. ?n k \<noteq> Some h)" for h
    by (metis option.collapse option.distinct(1) option.sel)
  show ?case
  proof (cases "keyOk key \<and> TrimSpace (key_ID key) \<notin> ids \<and> the (?n key) \<notin> hashes")
    case True
    then obtain h where h: "?n key = Some h" by (auto simp: keyOk_def)
    have step: "validateKeys ids hashes i (key # keys) =
        validateKeys (insert (TrimSpace (key_ID key)) ids) (insert h hashes) (Suc i) keys"
      using True h scopes by (simp add: keyOk_def blank_def Let_def)
    have keyOk_hash: "\<And>k. keyOk k \<Longrightarrow> ?n k \<noteq> None" by (simp add: keyOk_def)
    have "validateKeys (insert (TrimSpace (key_ID key)) ids) (insert h hashes) (Suc i) keys = None \<longleftrightarrow>
      (\<forall>k \<in> set keys. keyOk k \<and> TrimSpace (key_ID k) \<notin> insert (TrimSpace (key_ID key)) ids \<and> the (?n k) \<notin> insert h hashes) \<and>
      distinct (map (\<lambda>k. TrimSpace (key_ID k)) keys) \<and> distinct (map ?n keys)"
      using 2 [OF refl] True h by (simp add: keyOk_def blank_def)
    also have "\<dots> \<longleftrightarrow> (\<forall>k \<in> set (key # keys). keyOk k \<and> TrimSpace (key_ID k) \<notin> ids \<and> the (?n k) \<notin> hashes) \<and>
      distinct (map (\<lambda>k. TrimSpace (key_ID k)) (key # keys)) \<and> distinct (map ?n (key # keys))"
      using True h hash [of h] keyOk_hash by (auto simp: image_iff)
    finally show ?thesis using step by simp
  next
    case False
    then have "validateKeys ids hashes i (key # keys) \<noteq> None"
      using scopes by (auto simp: keyOk_def blank_def Let_def split: option.splits if_splits)
    with False show ?thesis by (metis list.set_intros(1))
  qed
qed simp

section \<open>The cycle check\<close>

text \<open>The edges of a fallback table, and the edges the configuration declares.\<close>

definition tableEdges :: "(string \<times> string list) list \<Rightarrow> (string \<times> string) set" where
  "tableEdges tbl = {(s, t). t \<in> set (lookupTargets tbl s)}"

definition declaredEdges :: "(string \<times> string list) list \<Rightarrow> (string \<times> string) set" where
  "declaredEdges fallbacks = {(TrimSpace s, TrimSpace t) | s t ts. (s, ts) \<in> set fallbacks \<and> t \<in> set ts}"

lemma acc_no_cycle: "x \<in> Wellfounded.acc r \<Longrightarrow> (x, x) \<notin> r\<^sup>+"
proof (induction rule: acc.induct)
  case (accI x)
  show ?case
  proof
    assume "(x, x) \<in> r\<^sup>+"
    then obtain y where "(x, y) \<in> r\<^sup>*" and "(y, x) \<in> r" by (meson tranclD2)
    then have "(y, y) \<in> r\<^sup>+" by (meson rtrancl_into_trancl2)
    with accI \<open>(y, x) \<in> r\<close> show False by blast
  qed
qed

lemma visitModels_visited:
  "visitModels tbl visiting ms visited = Inr V \<Longrightarrow> visited \<subseteq> Wellfounded.acc ((tableEdges tbl)\<inverse>) \<Longrightarrow>
     visited \<subseteq> V \<and> set ms \<subseteq> V \<and> V \<subseteq> Wellfounded.acc ((tableEdges tbl)\<inverse>)"
proof (induction tbl visiting ms visited arbitrary: V rule: visitModels.induct)
  case (2 tbl visiting m ms visited)
  then have fresh: "m \<notin> set visiting" by auto
  show ?case
  proof (cases "m \<in> visited")
    case True
    then have "visited \<subseteq> V \<and> set ms \<subseteq> V \<and> V \<subseteq> Wellfounded.acc ((tableEdges tbl)\<inverse>)"
      using 2(1) [OF fresh True _ 2(5)] 2(4) fresh by simp
    moreover from this have "m \<in> V" using True by blast
    ultimately show ?thesis by simp
  next
    case False
    from 2(4) fresh False obtain W where W: "visitModels tbl (m # visiting) (lookupTargets tbl m) visited = Inr W"
      and V: "visitModels tbl visiting ms (insert m W) = Inr V"
      by (auto split: sum.splits)
    have inner: "visited \<subseteq> W \<and> set (lookupTargets tbl m) \<subseteq> W \<and> W \<subseteq> Wellfounded.acc ((tableEdges tbl)\<inverse>)"
      by (rule 2(2) [OF fresh False W 2(5)])
    then have "m \<in> Wellfounded.acc ((tableEdges tbl)\<inverse>)"
      by - (rule accI, auto simp: tableEdges_def)
    then have "insert m W \<subseteq> Wellfounded.acc ((tableEdges tbl)\<inverse>)" using inner by simp
    then have "insert m W \<subseteq> V \<and> set ms \<subseteq> V \<and> V \<subseteq> Wellfounded.acc ((tableEdges tbl)\<inverse>)"
      by (rule 2(3) [OF fresh False W V])
    moreover from this inner have "visited \<subseteq> V" by blast
    ultimately show ?thesis by simp
  qed
qed simp

lemma visitModels_cycle:
  "visitModels tbl visiting ms visited = Inl x \<Longrightarrow> (\<And>v m. v \<in> set visiting \<Longrightarrow> m \<in> set ms \<Longrightarrow> (v, m) \<in> (tableEdges tbl)\<^sup>+) \<Longrightarrow>
     (x, x) \<in> (tableEdges tbl)\<^sup>+"
proof (induction tbl visiting ms visited rule: visitModels.induct)
  case (2 tbl visiting m ms visited)
  show ?case
  proof (cases "m \<in> set visiting")
    case True
    with 2(4,5) show ?thesis by auto
  next
    case fresh: False
    have edges: "(v, t) \<in> (tableEdges tbl)\<^sup>+" if "v \<in> set (m # visiting)" "t \<in> set (lookupTargets tbl m)" for v t
    proof -
      have e: "(m, t) \<in> tableEdges tbl" using that(2) by (simp add: tableEdges_def)
      show ?thesis
      proof (cases "v = m")
        case False
        then have "(v, m) \<in> (tableEdges tbl)\<^sup>+" using that(1) 2(5) by simp
        then show ?thesis using e by (rule trancl_into_trancl)
      qed (use e in blast)
    qed
    have rest: "\<And>v x. v \<in> set visiting \<Longrightarrow> x \<in> set ms \<Longrightarrow> (v, x) \<in> (tableEdges tbl)\<^sup>+" using 2(5) by simp
    show ?thesis
    proof (cases "m \<in> visited")
      case True
      show ?thesis by (rule 2(1) [OF fresh True _ rest]) (use 2(4) fresh True in simp_all)
    next
      case False
      show ?thesis
      proof (cases "visitModels tbl (m # visiting) (lookupTargets tbl m) visited")
        case (Inl y)
        then have "y = x" using 2(4) fresh False by simp
        then show ?thesis using 2(2) [OF fresh False _ edges] Inl by simp
      next
        case (Inr W)
        show ?thesis by (rule 2(3) [OF fresh False Inr _ rest]) (use 2(4) fresh False Inr in simp_all)
      qed
    qed
  qed
qed simp

lemma cycle_check:
  "(\<exists>V. visitModels tbl [] (map fst tbl) {} = Inr V) \<longleftrightarrow> acyclic (tableEdges tbl)"
proof
  assume "\<exists>V. visitModels tbl [] (map fst tbl) {} = Inr V"
  then obtain V where V: "set (map fst tbl) \<subseteq> V" "V \<subseteq> Wellfounded.acc ((tableEdges tbl)\<inverse>)"
    using visitModels_visited [of tbl "[]" "map fst tbl" "{}"] by auto
  show "acyclic (tableEdges tbl)"
    unfolding acyclic_def
  proof (intro allI notI)
    fix x assume c: "(x, x) \<in> (tableEdges tbl)\<^sup>+"
    then obtain y where "(x, y) \<in> tableEdges tbl" by (meson tranclD)
    then have "x \<in> fst ` set tbl" using lookupTargets_unknown [of x tbl] by (force simp: tableEdges_def)
    with V have "x \<in> Wellfounded.acc ((tableEdges tbl)\<inverse>)" by auto
    then have "(x, x) \<notin> ((tableEdges tbl)\<inverse>)\<^sup>+" by (rule acc_no_cycle)
    with c show False by (simp add: trancl_converse)
  qed
next
  assume ac: "acyclic (tableEdges tbl)"
  show "\<exists>V. visitModels tbl [] (map fst tbl) {} = Inr V"
  proof (cases "visitModels tbl [] (map fst tbl) {}")
    case (Inl x)
    with visitModels_cycle [OF Inl] ac show ?thesis by (simp add: acyclic_def)
  qed blast
qed

lemma appendTarget_lookup:
  "lookupTargets (appendTarget tbl s t) k = (if k = s then lookupTargets tbl k @ [t] else lookupTargets tbl k)"
  by (induction tbl s t rule: appendTarget.induct) auto

lemma appendTarget_edges: "tableEdges (appendTarget tbl s t) = insert (s, t) (tableEdges tbl)"
  by (auto simp: tableEdges_def appendTarget_lookup split: if_splits)

definition targetOk :: "(string \<rightharpoonup> string) \<Rightarrow> string \<Rightarrow> string \<Rightarrow> bool" where
  "targetOk models s t \<longleftrightarrow> \<not> blank t \<and> models (TrimSpace t) \<noteq> None \<and> TrimSpace t \<noteq> s"

lemma checkTargets_ok:
  "\<forall>t \<in> set ts. targetOk models s t \<Longrightarrow>
     \<exists>tbl'. checkTargets models s i ts tbl = Inr tbl' \<and> tableEdges tbl' = tableEdges tbl \<union> {(s, TrimSpace t) |t. t \<in> set ts}"
proof (induction models s i ts tbl rule: checkTargets.induct)
  case (2 models s i t ts tbl)
  then have t: "TrimSpace t \<noteq> []" "models (TrimSpace t) \<noteq> None" "TrimSpace t \<noteq> s"
    by (auto simp: targetOk_def blank_def)
  with 2 obtain tbl' where "checkTargets models s (Suc i) ts (appendTarget tbl s (TrimSpace t)) = Inr tbl'"
    "tableEdges tbl' = tableEdges (appendTarget tbl s (TrimSpace t)) \<union> {(s, TrimSpace t) |t. t \<in> set ts}" by auto
  with t show ?case by (auto simp: Let_def appendTarget_edges)
qed simp

lemma checkTargets_bad:
  "\<not> (\<forall>t \<in> set ts. targetOk models s t) \<Longrightarrow> \<exists>e. checkTargets models s i ts tbl = Inl e"
  by (induction models s i ts tbl rule: checkTargets.induct) (auto simp: Let_def targetOk_def blank_def)

definition entryOk :: "(string \<rightharpoonup> string) \<Rightarrow> string \<times> string list \<Rightarrow> bool" where
  "entryOk models e \<longleftrightarrow> \<not> blank (fst e) \<and> models (TrimSpace (fst e)) \<noteq> None \<and>
     (\<forall>t \<in> set (snd e). targetOk models (TrimSpace (fst e)) t)"

lemma declaredEdges_Cons:
  "declaredEdges ((s, ts) # fb) = {(TrimSpace s, TrimSpace t) |t. t \<in> set ts} \<union> declaredEdges fb"
  by (auto simp: declaredEdges_def)

lemma checkSources_ok:
  "\<forall>e \<in> set fb. entryOk models e \<Longrightarrow>
     \<exists>tbl'. checkSources models fb tbl = Inr tbl' \<and> tableEdges tbl' = tableEdges tbl \<union> declaredEdges fb"
proof (induction models fb tbl rule: checkSources.induct)
  case (1 models tbl)
  then show ?case by (simp add: declaredEdges_def)
next
  case (2 models s ts fb tbl)
  let ?s = "TrimSpace s"
  have s: "?s \<noteq> []" "models ?s \<noteq> None" "\<forall>t \<in> set ts. targetOk models ?s t"
    using 2(2) by (auto simp: entryOk_def blank_def)
  from checkTargets_ok [OF s(3)] obtain t1 where t1: "checkTargets models ?s 0 ts tbl = Inr t1"
    "tableEdges t1 = tableEdges tbl \<union> {(?s, TrimSpace t) |t. t \<in> set ts}" by blast
  obtain t2 where "checkSources models fb t1 = Inr t2" "tableEdges t2 = tableEdges t1 \<union> declaredEdges fb"
    using 2(1) [OF refl s(1,2) t1(1)] 2(2) by auto
  with s t1 show ?case by (auto simp: Let_def declaredEdges_Cons)
qed

lemma checkSources_bad:
  "\<not> (\<forall>e \<in> set fb. entryOk models e) \<Longrightarrow> \<exists>e. checkSources models fb tbl = Inl e"
proof (induction models fb tbl rule: checkSources.induct)
  case (2 models s ts fb tbl)
  show ?case
  proof (cases "entryOk models (s, ts)")
    case True
    then have s: "TrimSpace s \<noteq> []" "models (TrimSpace s) \<noteq> None" by (auto simp: entryOk_def blank_def)
    show ?thesis
    proof (cases "checkTargets models (TrimSpace s) 0 ts tbl")
      case (Inr t1)
      from 2(1) [OF refl s Inr] 2(2) True Inr s show ?thesis by (auto simp: Let_def)
    qed (use s in \<open>auto simp: Let_def\<close>)
  next
    case False
    then consider "TrimSpace s = [] \<or> models (TrimSpace s) = None" | "\<not> (\<forall>t \<in> set ts. targetOk models (TrimSpace s) t)"
      by (auto simp: entryOk_def blank_def)
    then show ?thesis
      using checkTargets_bad [of ts models "TrimSpace s" 0 tbl] by cases (auto simp: Let_def)
  qed
qed simp

lemma validateFallbacks_None:
  "validateFallbacks fb models = None \<longleftrightarrow> (\<forall>e \<in> set fb. entryOk models e) \<and> acyclic (declaredEdges fb)"
proof (cases "\<forall>e \<in> set fb. entryOk models e")
  case True
  then obtain tbl where tbl: "checkSources models fb [] = Inr tbl" "tableEdges tbl = declaredEdges fb"
    using checkSources_ok [of fb models "[]"] by (auto simp: tableEdges_def)
  have "validateFallbacks fb models = None \<longleftrightarrow> (\<exists>V. visitModels tbl [] (map fst tbl) {} = Inr V)"
    by (auto simp: validateFallbacks_def tbl(1) split: sum.split)
  then show ?thesis using True tbl(2) cycle_check by simp
next
  case False
  then show ?thesis
    using checkSources_bad [of fb models "[]"] by (auto simp: validateFallbacks_def)
qed

section \<open>Models and backends\<close>

definition withModels :: "(string \<rightharpoonup> string) \<Rightarrow> string \<Rightarrow> string list \<Rightarrow> (string \<rightharpoonup> string)" where
  "withModels models name ms = (\<lambda>m. if m \<in> TrimSpace ` set ms then Some name else models m)"

definition modelsFresh :: "(string \<rightharpoonup> string) \<Rightarrow> string list \<Rightarrow> bool" where
  "modelsFresh models ms \<longleftrightarrow> (\<forall>m \<in> set ms. \<not> blank m \<and> models (TrimSpace m) = None) \<and> distinct (map TrimSpace ms)"

lemma modelsFresh_Cons:
  "modelsFresh models (m # ms) \<longleftrightarrow> \<not> blank m \<and> models (TrimSpace m) = None \<and> modelsFresh (models(TrimSpace m \<mapsto> name)) ms"
  by (auto simp: modelsFresh_def image_iff split: if_splits)

lemma withModels_Cons: "withModels (models(TrimSpace m \<mapsto> name)) name ms = withModels models name (m # ms)"
  by (auto simp: withModels_def fun_eq_iff)

lemma addModels_result:
  "addModels i name j ms models = Inr models' \<longleftrightarrow> modelsFresh models ms \<and> models' = withModels models name ms"
proof (induction i name j ms models rule: addModels.induct)
  case (1 i name j models)
  then show ?case by (auto simp: modelsFresh_def withModels_def)
next
  case (2 i name j m ms models)
  show ?case
  proof (cases "TrimSpace m = [] \<or> models (TrimSpace m) \<noteq> None")
    case True
    then show ?thesis by (auto simp: Let_def modelsFresh_def blank_def)
  next
    case False
    then have "addModels i name j (m # ms) models = addModels i name (Suc j) ms (models(TrimSpace m \<mapsto> name))"
      by (simp add: Let_def)
    moreover have "addModels i name (Suc j) ms (models(TrimSpace m \<mapsto> name)) = Inr models' \<longleftrightarrow>
        modelsFresh (models(TrimSpace m \<mapsto> name)) ms \<and> models' = withModels models name (m # ms)"
      unfolding withModels_Cons [symmetric] using False by (intro 2 [OF refl]) simp_all
    moreover have "modelsFresh models (m # ms) \<longleftrightarrow> modelsFresh (models(TrimSpace m \<mapsto> name)) ms"
      using False modelsFresh_Cons [of models m ms name] by (simp add: blank_def)
    ultimately show ?thesis by simp
  qed
qed

definition backendOk :: "ModelBackendConfig \<Rightarrow> bool" where
  "backendOk b \<longleftrightarrow> \<not> blank (be_Name b) \<and> backendTypeCheck 0 b = None \<and> be_Models b \<noteq> [] \<and> (\<forall>m \<in> set (be_Models b). \<not> blank m)"

definition modelNames :: "ModelBackendConfig list \<Rightarrow> string list" where
  "modelNames bs = concat (map (\<lambda>b. map TrimSpace (be_Models b)) bs)"

lemma backendTypeCheck_index: "backendTypeCheck i b = None \<longleftrightarrow> backendTypeCheck j b = None"
  by (simp add: backendTypeCheck_def Let_def split: option.split)

lemma addBackends_Cons:
  "addBackends i (b # bs) names models = Inr r \<longleftrightarrow>
     backendOk b \<and> TrimSpace (be_Name b) \<notin> names \<and> modelsFresh models (be_Models b) \<and>
     addBackends (Suc i) bs (insert (TrimSpace (be_Name b)) names) (withModels models (TrimSpace (be_Name b)) (be_Models b)) = Inr r"
proof (cases "addModels i (TrimSpace (be_Name b)) 0 (be_Models b) models")
  case (Inl e)
  then have "\<not> modelsFresh models (be_Models b)"
    using addModels_result [of i "TrimSpace (be_Name b)" 0 "be_Models b" models] by auto
  with Inl show ?thesis by (auto simp: Let_def split: option.split)
next
  case (Inr m)
  then have fresh: "modelsFresh models (be_Models b)" and m: "m = withModels models (TrimSpace (be_Name b)) (be_Models b)"
    by (simp_all add: addModels_result)
  have "\<forall>m \<in> set (be_Models b). \<not> blank m" using fresh by (simp add: modelsFresh_def)
  with Inr fresh show ?thesis
    unfolding m using backendTypeCheck_index [of i b 0]
    by (auto simp: backendOk_def blank_def Let_def split: option.split)
qed

text \<open>The backends that are accepted, given the names and models taken before.\<close>

definition backendsOk :: "ModelBackendConfig list \<Rightarrow> string set \<Rightarrow> (string \<rightharpoonup> string) \<Rightarrow> bool" where
  "backendsOk bs names models \<longleftrightarrow>
     (\<forall>b \<in> set bs. backendOk b \<and> TrimSpace (be_Name b) \<notin> names) \<and> distinct (map (\<lambda>b. TrimSpace (be_Name b)) bs) \<and>
     (\<forall>m \<in> set (modelNames bs). models m = None) \<and> distinct (modelNames bs)"

lemma modelNames_Cons: "modelNames (b # bs) = map TrimSpace (be_Models b) @ modelNames bs"
  by (simp add: modelNames_def)

lemma backendsOk_Cons:
  "backendsOk (b # bs) names models \<longleftrightarrow>
     backendOk b \<and> TrimSpace (be_Name b) \<notin> names \<and> modelsFresh models (be_Models b) \<and>
     backendsOk bs (insert (TrimSpace (be_Name b)) names) (withModels models (TrimSpace (be_Name b)) (be_Models b))"
proof -
  let ?n = "TrimSpace (be_Name b)" and ?ms = "TrimSpace ` set (be_Models b)"
  have names: "(\<forall>x \<in> set bs. backendOk x \<and> TrimSpace (be_Name x) \<notin> insert ?n names) \<longleftrightarrow>
      (\<forall>x \<in> set bs. backendOk x \<and> TrimSpace (be_Name x) \<notin> names) \<and> ?n \<notin> (\<lambda>b. TrimSpace (be_Name b)) ` set bs"
    by (auto simp: image_iff)
  have models: "(\<forall>m \<in> set (modelNames bs). withModels models ?n (be_Models b) m = None) \<longleftrightarrow>
      (\<forall>m \<in> set (modelNames bs). models m = None) \<and> ?ms \<inter> set (modelNames bs) = {}"
    by (auto simp: withModels_def)
  have fresh: "backendOk b \<Longrightarrow> modelsFresh models (be_Models b) \<longleftrightarrow> (\<forall>m \<in> ?ms. models m = None) \<and> distinct (map TrimSpace (be_Models b))"
    by (auto simp: modelsFresh_def backendOk_def)
  show ?thesis
    unfolding backendsOk_def names models modelNames_Cons using fresh by auto
qed

lemma addBackends_ok: "(\<exists>r. addBackends i bs names models = Inr r) \<longleftrightarrow> backendsOk bs names models"
proof (induction bs arbitrary: i names models)
  case Nil
  then show ?case by (simp add: backendsOk_def modelNames_def)
next
  case (Cons b bs)
  then show ?case unfolding addBackends_Cons backendsOk_Cons by blast
qed

lemma addBackends_models:
  "addBackends i bs names models = Inr r \<Longrightarrow> dom r = dom models \<union> set (modelNames bs)"
proof (induction bs arbitrary: i names models)
  case Nil
  then show ?case by (simp add: modelNames_def)
next
  case (Cons b bs)
  then have "dom r = dom (withModels models (TrimSpace (be_Name b)) (be_Models b)) \<union> set (modelNames bs)"
    unfolding addBackends_Cons by blast
  also have "dom (withModels models (TrimSpace (be_Name b)) (be_Models b)) = dom models \<union> TrimSpace ` set (be_Models b)"
    by (auto simp: withModels_def split: if_splits)
  finally show ?case by (auto simp: modelNames_Cons)
qed

section \<open>Properties\<close>

text \<open>C13. The validator accepts the models and fallbacks of a configuration exactly when there are at
  least two backends, with distinct non-blank names, each of a supported type (mock, or OpenAI-compatible with an
  absolute base URL of scheme http or https) and with at least one model, no model name is blank or configured twice,
  every fallback entry names configured models only, and the fallback graph has no cycle. In every other case it
  returns an error.\<close>

theorem validate_models_exactly:
  "validateModels ai = None \<longleftrightarrow>
     2 \<le> length (ai_Backends ai) \<and>
     (\<forall>b \<in> set (ai_Backends ai). \<not> blank (be_Name b) \<and> backendTypeCheck 0 b = None \<and> be_Models b \<noteq> [] \<and>
        (\<forall>m \<in> set (be_Models b). \<not> blank m)) \<and>
     distinct (map (\<lambda>b. TrimSpace (be_Name b)) (ai_Backends ai)) \<and> distinct (modelNames (ai_Backends ai)) \<and>
     (\<forall>(s, ts) \<in> set (ai_Fallbacks ai). TrimSpace s \<in> set (modelNames (ai_Backends ai)) \<and>
        (\<forall>t \<in> set ts. TrimSpace t \<in> set (modelNames (ai_Backends ai)))) \<and>
     acyclic (declaredEdges (ai_Fallbacks ai))"
proof (cases "2 \<le> length (ai_Backends ai) \<and> backendsOk (ai_Backends ai) {} Map.empty")
  case True
  then obtain r where r: "addBackends 0 (ai_Backends ai) {} Map.empty = Inr r"
    using addBackends_ok by blast
  then have dom: "dom r = set (modelNames (ai_Backends ai))"
    using addBackends_models by fastforce
  have named: "m \<in> set (modelNames (ai_Backends ai)) \<Longrightarrow> m \<noteq> []" for m
    using True by (auto simp: backendsOk_def backendOk_def modelNames_def blank_def)
  have self: "acyclic (declaredEdges fb) \<Longrightarrow> (s, ts) \<in> set fb \<Longrightarrow> t \<in> set ts \<Longrightarrow> TrimSpace t \<noteq> TrimSpace s" for fb s ts t
    by (force simp: acyclic_def declaredEdges_def)
  have entries: "entryOk r (s, ts) \<longleftrightarrow> TrimSpace s \<in> dom r \<and> (\<forall>t \<in> set ts. TrimSpace t \<in> dom r \<and> TrimSpace t \<noteq> TrimSpace s)" for s ts
    unfolding entryOk_def targetOk_def blank_def using named dom by auto
  have "validateModels ai = None \<longleftrightarrow> (\<forall>e \<in> set (ai_Fallbacks ai). entryOk r e) \<and> acyclic (declaredEdges (ai_Fallbacks ai))"
    using True r by (simp add: validateModels_def validateFallbacks_None)
  also have "\<dots> \<longleftrightarrow> (\<forall>(s, ts) \<in> set (ai_Fallbacks ai). TrimSpace s \<in> dom r \<and> (\<forall>t \<in> set ts. TrimSpace t \<in> dom r)) \<and>
      acyclic (declaredEdges (ai_Fallbacks ai))"
    using self entries by fastforce
  finally show ?thesis using True dom by (simp add: backendsOk_def backendOk_def)
next
  case False
  then have "validateModels ai \<noteq> None"
    using addBackends_ok [of 0 "ai_Backends ai" "{}" Map.empty]
    by (auto simp: validateModels_def split: sum.split)
  with False show ?thesis by (auto simp: backendsOk_def backendOk_def)
qed

text \<open>A configuration with two backends and a fallback chain.\<close>

definition demoAI :: AIConfig where
  "demoAI = (cfg_AI Default)\<lparr>ai_Fallbacks := [(''mock-a'', [''gpt-4o-mini'', ''mock-b'']), (''mock-b'', [''gpt-4.1-mini''])]\<rparr>"

theorem validate_models_exactly_witness:
  "validateModels demoAI = None \<and> acyclic (declaredEdges (ai_Fallbacks demoAI)) \<and> distinct (modelNames (ai_Backends demoAI))"
proof -
  have "validateModels demoAI = None" by code_simp
  with validate_models_exactly [of demoAI] show ?thesis by blast
qed

text \<open>C29. An API-key configuration passes validation exactly when it is disabled, or when its header is not
  blank and has no space, tab, line break or colon, there is at least one key, and the keys have distinct non-blank
  identifiers, non-blank users, no blank scope, and distinct well-formed SHA-256 hashes.\<close>

theorem validate_auth_exactly:
  "validateAPIKeyAuth cfg = None \<longleftrightarrow> \<not> auth_Enabled cfg \<or>
     (\<not> blank (auth_Header cfg) \<and> set (auth_Header cfg) \<inter> set headerIllegal = {} \<and> auth_Keys cfg \<noteq> [] \<and>
      (\<forall>k \<in> set (auth_Keys cfg). keyOk k) \<and>
      distinct (map (\<lambda>k. TrimSpace (key_ID k)) (auth_Keys cfg)) \<and>
      distinct (map (\<lambda>k. normalizeAPIKeyHash (key_KeyHash k)) (auth_Keys cfg)))"
  by (auto simp: validateAPIKeyAuth_def validateKeys_None ContainsAny_def list_ex_iff disjoint_iff)

definition demoAuth :: APIKeyAuthConfig where
  "demoAuth = \<lparr>auth_Enabled = True, auth_Header = ''X-API-Key'', auth_Keys =
     [\<lparr>key_ID = ''k1'', key_KeyHash = ''sha256:'' @ concat (replicate 32 ''0A''), key_UserID = ''alice'', key_TenantID = [], key_Scopes = [''chat'']\<rparr>]\<rparr>"

theorem validate_auth_exactly_witness:
  "validateAPIKeyAuth demoAuth = None \<and> keyOk (hd (auth_Keys demoAuth))"
proof -
  have "validateAPIKeyAuth demoAuth = None" by code_simp
  moreover have "auth_Enabled demoAuth" by (simp add: demoAuth_def)
  ultimately show ?thesis using validate_auth_exactly [of demoAuth] by (meson list.set_sel(1))
qed

text \<open>Loading never yields an invalid configuration: what \<open>Load\<close> returns has passed validation, and
  its address is the value of \<open>GATEWAY_ADDR\<close> if that is set, else that of \<open>GATEWAY_ADDRESS\<close> if
  set, else the one of the file or the default. Without a file and environment the defaults load.\<close>

theorem load_returns_valid:
  "(Load env readFile decode path = Inr cfg \<longrightarrow>
      Validate cfg = None \<and>
      (env ''GATEWAY_ADDR'' \<noteq> [] \<longrightarrow> srv_Address (cfg_Server cfg) = env ''GATEWAY_ADDR'') \<and>
      (env ''GATEWAY_ADDR'' = [] \<and> env ''GATEWAY_ADDRESS'' \<noteq> [] \<longrightarrow> srv_Address (cfg_Server cfg) = env ''GATEWAY_ADDRESS'')) \<and>
   Load (\<lambda>_. []) readFile decode [] = Inr Default"
proof -
  have "Validate Default = None" by code_simp
  then have "Load (\<lambda>_. []) readFile decode [] = Inr Default"
    by (simp add: Load_def applyEnvOverrides_def)
  moreover have "Validate cfg = None \<and>
      (env ''GATEWAY_ADDR'' \<noteq> [] \<longrightarrow> srv_Address (cfg_Server cfg) = env ''GATEWAY_ADDR'') \<and>
      (env ''GATEWAY_ADDR'' = [] \<and> env ''GATEWAY_ADDRESS'' \<noteq> [] \<longrightarrow> srv_Address (cfg_Server cfg) = env ''GATEWAY_ADDRESS'')"
    if "Load env readFile decode path = Inr cfg"
  proof -
    from that obtain cfg0 where "cfg = applyEnvOverrides env cfg0" "Validate cfg = None"
      by (auto simp: Load_def Let_def split: sum.splits option.splits)
    then show ?thesis by (simp add: applyEnvOverrides_def Let_def)
  qed
  ultimately show ?thesis by blast
qed

theorem load_returns_valid_witness:
  "\<exists>cfg. Load (\<lambda>v. if v = ''GATEWAY_ADDR'' then '':9090'' else []) (\<lambda>_. None) (\<lambda>_ _. None) [] = Inr cfg \<and>
     srv_Address (cfg_Server cfg) = '':9090'' \<and> Validate cfg = None"
proof -
  let ?env = "\<lambda>v. if v = ''GATEWAY_ADDR'' then '':9090'' else []"
  have "Load ?env (\<lambda>_. None) (\<lambda>_ _. None) [] = Inr (applyEnvOverrides ?env Default)"
    by code_simp
  with load_returns_valid [of ?env "\<lambda>_. None" "\<lambda>_ _. None" "[]" "applyEnvOverrides ?env Default"]
  show ?thesis by (intro exI [of _ "applyEnvOverrides ?env Default"]) simp
qed

end
