(* ===== verification/Auth.thy ===== *)
theory Auth
  imports Response_Writers Sha256 Config_Validate
begin

text \<open>
  API-key authentication, \<^verbatim>\<open>internal/auth\<close>: the authenticator built from the configuration, the
  extraction of the key from a request, the comparison of its SHA-256 digest with the configured
  hashes, and the middleware. A handler takes the state of what lies behind it, the request and
  the writer.
\<close>

type_synonym 's handler = "'s \<Rightarrow> Request \<Rightarrow> writer \<Rightarrow> 's \<times> writer"

record apiKeyCredential =
  cred_hash :: string
  cred_identity :: Identity

record APIKeyAuthenticator =
  authn_header :: string
  authn_credentials :: "apiKeyCredential list"

datatype authError = AuthHeaderEmpty | AuthHeaderIllegal | AuthNoKeys | AuthKeyHash nat

definition parseAPIKeyHash :: "string \<Rightarrow> string option" where
  "parseAPIKeyHash value =
     (let hash = TrimPrefix (TrimSpace (ToLower value)) ''sha256:''
      in if length hash \<noteq> 64 then None else hex_decode hash)"

definition normalizeScopes :: "string list \<Rightarrow> string list" where
  "normalizeScopes scopes = filter (\<lambda>s. s \<noteq> []) (map TrimSpace scopes)"

text \<open>\<^verbatim>\<open>cloneIdentity\<close> copies the slice of scopes; as a value the identity is unchanged.\<close>

definition cloneIdentity :: "Identity \<Rightarrow> Identity" where
  "cloneIdentity identity = identity\<lparr>Scopes := [] @ Scopes identity\<rparr>"

definition WithIdentity :: "Request \<Rightarrow> Identity \<Rightarrow> Request" where
  "WithIdentity r identity = r\<lparr>rq_identity := Some (cloneIdentity identity)\<rparr>"

definition IdentityFromContext :: "Request \<Rightarrow> Identity option" where
  "IdentityFromContext r = map_option cloneIdentity (rq_identity r)"

definition keyIdentity :: "APIKeyCredentialConfig \<Rightarrow> Identity" where
  "keyIdentity key = \<lparr>KeyID = TrimSpace (key_ID key), UserID = TrimSpace (key_UserID key),
     TenantID = TrimSpace (key_TenantID key), Scopes = normalizeScopes (key_Scopes key)\<rparr>"

fun buildCredentials :: "nat \<Rightarrow> APIKeyCredentialConfig list \<Rightarrow> authError + apiKeyCredential list" where
  "buildCredentials i [] = Inr []"
| "buildCredentials i (key # keys) =
     (case parseAPIKeyHash (key_KeyHash key) of
        None \<Rightarrow> Inl (AuthKeyHash i)
      | Some hash \<Rightarrow>
          (case buildCredentials (Suc i) keys of
             Inl e \<Rightarrow> Inl e
           | Inr cs \<Rightarrow> Inr (\<lparr>cred_hash = hash, cred_identity = keyIdentity key\<rparr> # cs)))"

definition NewAPIKeyAuthenticator :: "APIKeyAuthConfig \<Rightarrow> authError + APIKeyAuthenticator" where
  "NewAPIKeyAuthenticator cfg =
     (let header = TrimSpace (auth_Header cfg)
      in if header = [] then Inl AuthHeaderEmpty
         else if ContainsAny header headerIllegal then Inl AuthHeaderIllegal
         else if auth_Keys cfg = [] then Inl AuthNoKeys
         else case buildCredentials 0 (auth_Keys cfg) of
             Inl e \<Rightarrow> Inl e
           | Inr cs \<Rightarrow> Inr \<lparr>authn_header = CanonicalHeaderKey header, authn_credentials = cs\<rparr>)"

text \<open>\<^verbatim>\<open>authenticate\<close> compares with every credential; the last match counts.\<close>

definition authenticate :: "APIKeyAuthenticator \<Rightarrow> string \<Rightarrow> Identity option" where
  "authenticate a apiKey =
     (let digest = sha256 apiKey
      in map_option cloneIdentity
           (fold (\<lambda>c m. if digest = cred_hash c then Some (cred_identity c) else m) (authn_credentials a) None))"

definition extractAPIKey :: "APIKeyAuthenticator \<Rightarrow> Request \<Rightarrow> string option" where
  "extractAPIKey a r =
     (let value = TrimSpace (hGet (rq_Header r) (authn_header a))
      in if value = [] then None
         else if EqualFold (authn_header a) ''Authorization'' then
           (case Fields value of
              [scheme, key] \<Rightarrow> if EqualFold scheme ''Bearer'' \<and> key \<noteq> [] then Some key else None
            | _ \<Rightarrow> None)
         else Some value)"

definition writeAuthError :: "int \<Rightarrow> string \<Rightarrow> string \<Rightarrow> writer \<Rightarrow> writer" where
  "writeAuthError status message errorType w =
     fst (Write (errorResponse message errorType None @ [CHR 0x0A])
       (WriteHeader status (onHeader (hSet ''WWW-Authenticate'' ''Bearer'')
         (onHeader (hSet ''Content-Type'' ''application/json; charset=utf-8'') w))))"

fun authMiddleware :: "APIKeyAuthenticator option \<Rightarrow> 's handler \<Rightarrow> 's handler" where
  "authMiddleware None next = next"
| "authMiddleware (Some a) next =
     (\<lambda>s r w.
        case extractAPIKey a r of
          None \<Rightarrow> (s, writeAuthError 401 (zh [0x7F3A, 0x5C11, 0x20, 0x41, 0x50, 0x49, 0x20, 0x4B, 0x65, 0x79]) ''authentication_error'' w)
        | Some apiKey \<Rightarrow>
            (case authenticate a apiKey of
               None \<Rightarrow> (s, writeAuthError 401 (zh [0x41, 0x50, 0x49, 0x20, 0x4B, 0x65, 0x79, 0x20, 0x65E0, 0x6548]) ''authentication_error'' w)
             | Some identity \<Rightarrow> next s (WithIdentity r identity) w))"

section \<open>Lemmas\<close>

lemma cloneIdentity_id [simp]: "cloneIdentity i = i"
  by (simp add: cloneIdentity_def)

lemma parse_normalize: "parseAPIKeyHash v = Option.bind (normalizeAPIKeyHash v) hex_decode"
  by (simp add: parseAPIKeyHash_def normalizeAPIKeyHash_def Let_def)

lemma buildCredentials_ok:
  "(\<exists>cs. buildCredentials i keys = Inr cs) \<longleftrightarrow> (\<forall>k \<in> set keys. parseAPIKeyHash (key_KeyHash k) \<noteq> None)"
  by (induction i keys rule: buildCredentials.induct) (auto split: option.splits sum.splits)

lemma buildCredentials_result:
  "buildCredentials i keys = Inr cs \<Longrightarrow>
     cs = map (\<lambda>k. \<lparr>cred_hash = the (parseAPIKeyHash (key_KeyHash k)), cred_identity = keyIdentity k\<rparr>) keys"
  by (induction i keys arbitrary: cs rule: buildCredentials.induct) (auto split: option.splits sum.splits)

text \<open>The loop of \<open>authenticate\<close> finds the last credential with the digest.\<close>

lemma last_match:
  "fold (\<lambda>c m. if d = cred_hash c then Some (cred_identity c) else m) cs m =
     (case filter (\<lambda>c. cred_hash c = d) cs of [] \<Rightarrow> m | xs \<Rightarrow> Some (cred_identity (last xs)))"
  by (induction cs arbitrary: m) (auto split: list.splits)

lemma distinct_filter_single:
  "distinct (map f xs) \<Longrightarrow> x \<in> set xs \<Longrightarrow> filter (\<lambda>y. f y = f x) xs = [x]"
proof (induction xs)
  case (Cons y ys)
  show ?case
  proof (cases "x = y")
    case True
    with Cons(2) have "filter (\<lambda>z. f z = f x) ys = []" by (auto simp: filter_empty_conv image_iff)
    with True show ?thesis by simp
  next
    case False
    with Cons have "x \<in> set ys" "f y \<noteq> f x" by (auto simp: image_iff)
    with Cons show ?thesis by simp
  qed
qed simp

section \<open>Properties\<close>

text \<open>A validated API-key configuration can always be turned into an authenticator: the checks of the
  validator imply every check of the constructor, so starting the gateway never fails there.\<close>

theorem validated_auth_builds:
  assumes "auth_Enabled cfg" and "validateAPIKeyAuth cfg = None"
  shows "\<exists>a. NewAPIKeyAuthenticator cfg = Inr a \<and> length (authn_credentials a) = length (auth_Keys cfg)"
proof -
  from assms have ok: "\<not> blank (auth_Header cfg)" "\<not> ContainsAny (auth_Header cfg) headerIllegal" "auth_Keys cfg \<noteq> []"
    "validateKeys {} {} 0 (auth_Keys cfg) = None"
    by (simp_all add: validateAPIKeyAuth_def)
  have "parseAPIKeyHash (key_KeyHash k) \<noteq> None" if "k \<in> set (auth_Keys cfg)" for k
    using ok(4) that unfolding validateKeys_None keyOk_def
    by (auto simp: parse_normalize normalizeAPIKeyHash_def Let_def split: if_splits)
  then obtain cs where cs: "buildCredentials 0 (auth_Keys cfg) = Inr cs"
    using buildCredentials_ok by blast
  have "set (TrimSpace (auth_Header cfg)) \<subseteq> set (auth_Header cfg)" by (rule TrimSpace_subset)
  then have "\<not> ContainsAny (TrimSpace (auth_Header cfg)) headerIllegal"
    using ok(2) by (auto simp: ContainsAny_def list_ex_iff)
  with ok cs buildCredentials_result [OF cs] show ?thesis
    by (simp add: NewAPIKeyAuthenticator_def blank_def Let_def)
qed

theorem validated_auth_builds_witness:
  "\<exists>a. NewAPIKeyAuthenticator demoAuth = Inr a \<and> length (authn_credentials a) = 1"
proof -
  have "validateAPIKeyAuth demoAuth = None" by code_simp
  moreover have "auth_Enabled demoAuth" "length (auth_Keys demoAuth) = 1" by (simp_all add: demoAuth_def)
  ultimately show ?thesis using validated_auth_builds [of demoAuth] by simp
qed

text \<open>Authentication is exact: with distinct key hashes (as validation demands) an API key is accepted
  exactly when its SHA-256 digest is the hash of a configured key, and it then yields the identity
  of that key.\<close>

theorem authenticate_exactly:
  assumes "NewAPIKeyAuthenticator cfg = Inr a"
    and "distinct (map (\<lambda>k. parseAPIKeyHash (key_KeyHash k)) (auth_Keys cfg))"
  shows "authenticate a apiKey = Some identity \<longleftrightarrow>
     (\<exists>k \<in> set (auth_Keys cfg). parseAPIKeyHash (key_KeyHash k) = Some (sha256 apiKey) \<and> identity = keyIdentity k)"
proof -
  let ?c = "\<lambda>k. \<lparr>cred_hash = the (parseAPIKeyHash (key_KeyHash k)), cred_identity = keyIdentity k\<rparr>"
  from assms(1) obtain cs where cs: "buildCredentials 0 (auth_Keys cfg) = Inr cs" "authn_credentials a = cs"
    by (auto simp: NewAPIKeyAuthenticator_def Let_def split: if_splits sum.splits)
  then have creds: "authn_credentials a = map ?c (auth_Keys cfg)" using buildCredentials_result by simp
  have parsed: "parseAPIKeyHash (key_KeyHash k) \<noteq> None" if "k \<in> set (auth_Keys cfg)" for k
    using cs(1) buildCredentials_ok that by blast
  let ?f = "filter (\<lambda>k. parseAPIKeyHash (key_KeyHash k) = Some (sha256 apiKey)) (auth_Keys cfg)"
  have "filter (\<lambda>c. cred_hash c = sha256 apiKey) (authn_credentials a) = map ?c ?f"
    unfolding creds filter_map using parsed by (intro arg_cong [where f = "map ?c"] filter_cong) force+
  then have auth: "authenticate a apiKey = (case ?f of [] \<Rightarrow> None | xs \<Rightarrow> Some (keyIdentity (last xs)))"
    by (auto simp: authenticate_def Let_def last_match last_map split: list.split)
  show ?thesis
  proof (cases "?f = []")
    case True
    then show ?thesis using auth by (auto simp: filter_empty_conv)
  next
    case False
    then obtain k where k: "k \<in> set (auth_Keys cfg)" "parseAPIKeyHash (key_KeyHash k) = Some (sha256 apiKey)"
      by (auto simp: filter_empty_conv)
    then have fk: "?f = [k]"
      using distinct_filter_single [OF assms(2) k(1)] by simp
    have uniq: "k' = k" if "k' \<in> set (auth_Keys cfg)" "parseAPIKeyHash (key_KeyHash k') = Some (sha256 apiKey)" for k'
    proof -
      have "k' \<in> set ?f" using that by simp
      then show ?thesis unfolding fk by simp
    qed
    have "authenticate a apiKey = Some (keyIdentity k)" using auth unfolding fk by simp
    then show ?thesis using k uniq by (metis option.inject)
  qed
qed

text \<open>A configuration with the key \<open>secret\<close>.\<close>

definition secretAuth :: APIKeyAuthConfig where
  "secretAuth = \<lparr>auth_Enabled = True, auth_Header = ''Authorization'', auth_Keys =
     [\<lparr>key_ID = ''k1'', key_KeyHash = hex_encode (sha256 ''secret''), key_UserID = ''alice'', key_TenantID = [], key_Scopes = []\<rparr>]\<rparr>"

lemma hex_digit_plain:
  assumes "n < 16"
  shows "lower_byte (hex_digit n) = hex_digit n" "\<not> ascii_space (hex_digit n)" "(of_char (hex_digit n) :: nat) < 128"
    "hex_digit n \<noteq> CHR 0xC4" "hex_digit n \<noteq> CHR 0xE2" "hex_digit n \<noteq> CHR ''s''"
proof -
  define c where "c = hex_digit n"
  have b: "(of_char c :: nat) = (if n < 10 then 48 + n else 87 + n)"
    using assms by (simp add: c_def hex_digit_def)
  have "c \<noteq> d" if "(of_char d :: nat) < 48 \<or> 102 < (of_char d :: nat)" for d
    using that b assms by (auto split: if_splits)
  then have "c \<noteq> CHR 0xC4" "c \<noteq> CHR 0xE2" "c \<noteq> CHR ''s''" "\<not> ascii_space c"
    by (simp_all add: ascii_space_def)
  moreover have "lower_byte c = c" using b assms by (auto simp: lower_byte_def split: if_splits)
  moreover have "(of_char c :: nat) < 128" using b assms by (auto split: if_splits)
  ultimately show "lower_byte (hex_digit n) = hex_digit n" "\<not> ascii_space (hex_digit n)" "(of_char (hex_digit n) :: nat) < 128"
    "hex_digit n \<noteq> CHR 0xC4" "hex_digit n \<noteq> CHR 0xE2" "hex_digit n \<noteq> CHR ''s''"
    by (simp_all add: c_def)
qed

lemma hex_encode_digits: "c \<in> set (hex_encode s) \<Longrightarrow> \<exists>n < 16. c = hex_digit n"
proof (induction s)
  case (Cons b s)
  have "(of_char b :: nat) div 16 < 16"
    using of_char_less_256 [of b] by (intro less_mult_imp_div_less) simp
  moreover have "hex_encode (b # s) = hex_digit (of_char b div 16) # hex_digit (of_char b mod 16) # hex_encode s"
    by (simp add: hex_encode_def Let_def)
  ultimately show ?case using Cons by (metis mod_less_divisor set_ConsD zero_less_numeral)
qed (simp add: hex_encode_def)

lemma ToLower_plain:
  "(\<And>c. c \<in> set s \<Longrightarrow> lower_byte c = c \<and> c \<noteq> CHR 0xC4 \<and> c \<noteq> CHR 0xE2) \<Longrightarrow> ToLower s = s"
  by (induction s rule: ToLower.induct) auto

lemma TrimSpace_plain:
  "(\<And>c. c \<in> set s \<Longrightarrow> \<not> ascii_space c \<and> (of_char c :: nat) < 128) \<Longrightarrow> TrimSpace s = s"
proof (rule TrimSpace_fixed)
  assume plain: "\<And>c. c \<in> set s \<Longrightarrow> \<not> ascii_space c \<and> (of_char c :: nat) < 128"
  have "\<not> narrow_space a b" "\<not> wide_space a b c" if "a \<in> set s" for a b c
    using plain [OF that] by (auto simp: narrow_space_def wide_space_def)
  with plain show "space_len s = 0"
    by (cases s) (auto split: list.split)
  have "\<not> narrow_space b a" "\<not> wide_space c b a" if "a \<in> set s" for a b c
    using plain [OF that] by (auto simp: narrow_space_def wide_space_def)
  with plain show "space_len_rev (rev s) = 0"
    by (cases s rule: rev_cases) (auto split: list.split)
qed

lemma parse_hex_digest: "parseAPIKeyHash (hex_encode (sha256 m)) = Some (sha256 m)"
proof -
  let ?h = "hex_encode (sha256 m)"
  have "lower_byte c = c \<and> c \<noteq> CHR 0xC4 \<and> c \<noteq> CHR 0xE2 \<and> \<not> ascii_space c \<and> (of_char c :: nat) < 128 \<and> c \<noteq> CHR ''s''" if "c \<in> set ?h" for c
    using hex_encode_digits [OF that] hex_digit_plain by metis
  moreover have "length ?h = 64"
    using hex_decode_length [OF hex_roundtrip [of "sha256 m"]] by simp
  moreover from this calculation have "\<not> HasPrefix ?h ''sha256:''"
    by (cases ?h) (auto simp: HasPrefix_def)
  ultimately show ?thesis
    by (simp add: parseAPIKeyHash_def ToLower_plain TrimSpace_plain TrimPrefix_def hex_roundtrip)
qed

lemma secret_authenticator:
  "\<exists>a. NewAPIKeyAuthenticator secretAuth = Inr a"
proof -
  have "TrimSpace ''Authorization'' = ''Authorization''"
    by (rule TrimSpace_plain) (auto simp: ascii_space_def)
  then show ?thesis
    by (simp add: NewAPIKeyAuthenticator_def secretAuth_def parse_hex_digest ContainsAny_def headerIllegal_def Let_def)
qed

theorem authenticate_exactly_witness:
  "\<exists>a. NewAPIKeyAuthenticator secretAuth = Inr a \<and>
     authenticate a ''secret'' = Some \<lparr>KeyID = ''k1'', UserID = ''alice'', TenantID = [], Scopes = []\<rparr>"
proof -
  obtain a where a: "NewAPIKeyAuthenticator secretAuth = Inr a" using secret_authenticator by blast
  have "distinct (map (\<lambda>k. parseAPIKeyHash (key_KeyHash k)) (auth_Keys secretAuth))" by (simp add: secretAuth_def)
  moreover have "TrimSpace ''k1'' = ''k1''" "TrimSpace ''alice'' = ''alice''"
    by (rule TrimSpace_plain, auto simp: ascii_space_def)+
  ultimately show ?thesis using authenticate_exactly [OF a, of "''secret''"] a
    by (simp add: secretAuth_def parse_hex_digest keyIdentity_def normalizeScopes_def)
qed

text \<open>Validation compares the hashes as text, authentication as bytes. This is the same: a normalised hash has no capital
  letter, so it is determined by its bytes.\<close>

definition noCapital :: "string \<Rightarrow> bool" where
  "noCapital s \<longleftrightarrow> (\<forall>c \<in> set s. \<not> (65 \<le> (of_char c :: nat) \<and> (of_char c :: nat) \<le> 90))"

lemma lower_byte_noCapital: "\<not> (65 \<le> (of_char (lower_byte c) :: nat) \<and> (of_char (lower_byte c) :: nat) \<le> 90)"
  by (auto simp: lower_byte_def)

lemma ToLower_noCapital: "noCapital (ToLower s)"
  by (induction s rule: ToLower.induct) (use lower_byte_noCapital in \<open>auto simp: noCapital_def\<close>)

lemma normalize_noCapital: "normalizeAPIKeyHash v = Some h \<Longrightarrow> noCapital h \<and> hex_decode h \<noteq> None"
proof -
  assume "normalizeAPIKeyHash v = Some h"
  then have h: "h = TrimPrefix (TrimSpace (ToLower v)) ''sha256:''" "hex_decode h \<noteq> None"
    by (auto simp: normalizeAPIKeyHash_def Let_def split: if_splits)
  have "set h \<subseteq> set (TrimSpace (ToLower v))" unfolding h(1) by (auto simp: TrimPrefix_def dest: in_set_dropD)
  also have "\<dots> \<subseteq> set (ToLower v)" by (rule TrimSpace_subset)
  finally show ?thesis using h(2) ToLower_noCapital [of v] by (auto simp: noCapital_def)
qed

lemma hex_value_inverse:
  assumes "hex_value c = Some x" "\<not> (65 \<le> (of_char c :: nat) \<and> (of_char c :: nat) \<le> 90)"
  shows "x < 16 \<and> c = hex_digit x"
proof -
  define n where "n = (of_char c :: nat)"
  then have c: "c = char_of n" by simp
  from assms have "48 \<le> n \<and> n \<le> 57 \<and> x = n - 48 \<or> 97 \<le> n \<and> n \<le> 102 \<and> x = n - 87"
    by (auto simp: hex_value_def n_def Let_def split: if_splits)
  then show ?thesis unfolding c hex_digit_def by auto
qed

lemma hex_decode_inverse: "hex_decode s = Some r \<Longrightarrow> noCapital s \<Longrightarrow> hex_encode r = s"
proof (induction s arbitrary: r rule: hex_decode.induct)
  case (3 a b s)
  then obtain x y q where v: "hex_value a = Some x" "hex_value b = Some y" "hex_decode s = Some q" "r = char_of (16 * x + y) # q"
    by (auto split: option.splits)
  have ab: "x < 16" "a = hex_digit x" "y < 16" "b = hex_digit y"
    using hex_value_inverse [OF v(1)] hex_value_inverse [OF v(2)] 3(3) by (auto simp: noCapital_def)
  have "hex_encode q = s" using 3(1) v(3) 3(3) by (simp add: noCapital_def)
  moreover have "(of_char (char_of (16 * x + y) :: char) :: nat) = 16 * x + y" using ab by simp
  ultimately show ?case using ab v(4) by (simp add: hex_encode_def Let_def)
qed (simp_all add: hex_encode_def)

lemma validated_hashes_distinct:
  assumes "validateAPIKeyAuth cfg = None" "auth_Enabled cfg"
  shows "distinct (map (\<lambda>k. parseAPIKeyHash (key_KeyHash k)) (auth_Keys cfg))"
proof -
  have ok: "\<forall>k \<in> set (auth_Keys cfg). keyOk k" "distinct (map (\<lambda>k. normalizeAPIKeyHash (key_KeyHash k)) (auth_Keys cfg))"
    using assms by (simp_all add: validateAPIKeyAuth_def validateKeys_None)
  have same: "normalizeAPIKeyHash (key_KeyHash k) = normalizeAPIKeyHash (key_KeyHash k')"
    if k: "k \<in> set (auth_Keys cfg)" "k' \<in> set (auth_Keys cfg)" and p: "parseAPIKeyHash (key_KeyHash k) = parseAPIKeyHash (key_KeyHash k')" for k k'
  proof -
    obtain h h' where h: "normalizeAPIKeyHash (key_KeyHash k) = Some h" "normalizeAPIKeyHash (key_KeyHash k') = Some h'"
      using ok(1) k unfolding keyOk_def by (metis not_Some_eq)
    with p have "hex_decode h = hex_decode h'" by (simp add: parse_normalize)
    with normalize_noCapital [OF h(1)] normalize_noCapital [OF h(2)] have "h = h'"
      using hex_decode_inverse by (metis option.exhaust)
    with h show ?thesis by simp
  qed
  have "inj_on (\<lambda>k. parseAPIKeyHash (key_KeyHash k)) (set (auth_Keys cfg))"
    using same ok(2) unfolding distinct_map by (intro inj_onI) (meson inj_onD)
  with ok(2) show ?thesis unfolding distinct_map by simp
qed

text \<open>C23. The gate of the API keys, built from a validated configuration: a request whose key (extracted from the configured
  header) has the SHA-256 digest of a configured key is passed on, with the identity of that key in its context.
  Every other request is answered with status 401 and a challenge; the handler behind is not called, whatever it is, and
  the state is left as it was.\<close>

theorem auth_middleware_gate:
  assumes "validateAPIKeyAuth cfg = None" and "auth_Enabled cfg" and "NewAPIKeyAuthenticator cfg = Inr a"
  shows "(extractAPIKey a r = Some key \<longrightarrow> k \<in> set (auth_Keys cfg) \<longrightarrow> parseAPIKeyHash (key_KeyHash k) = Some (sha256 key) \<longrightarrow>
       authMiddleware (Some a) h s r w = h s (r\<lparr>rq_identity := Some (keyIdentity k)\<rparr>) w) \<and>
    ((\<nexists>key k. extractAPIKey a r = Some key \<and> k \<in> set (auth_Keys cfg) \<and> parseAPIKeyHash (key_KeyHash k) = Some (sha256 key)) \<longrightarrow>
       fst (authMiddleware (Some a) h s r w) = s \<and>
       authMiddleware (Some a) h s r w = authMiddleware (Some a) h' s r w \<and>
       (layersAgree w \<longrightarrow> rw_status (writerBase w) = None \<longrightarrow>
          rw_status (writerBase (snd (authMiddleware (Some a) h s r w))) = Some 401 \<and>
          hGet (headerOf (snd (authMiddleware (Some a) h s r w))) ''WWW-Authenticate'' = ''Bearer''))"
proof (intro conjI impI)
  note exact = authenticate_exactly [OF assms(3) validated_hashes_distinct [OF assms(1,2)]]
  assume key: "extractAPIKey a r = Some key" and "k \<in> set (auth_Keys cfg)" "parseAPIKeyHash (key_KeyHash k) = Some (sha256 key)"
  then have "authenticate a key = Some (keyIdentity k)" using exact by blast
  with key show "authMiddleware (Some a) h s r w = h s (r\<lparr>rq_identity := Some (keyIdentity k)\<rparr>) w"
    by (simp add: WithIdentity_def)
next
  note exact = authenticate_exactly [OF assms(3) validated_hashes_distinct [OF assms(1,2)]]
  assume "\<nexists>key k. extractAPIKey a r = Some key \<and> k \<in> set (auth_Keys cfg) \<and> parseAPIKeyHash (key_KeyHash k) = Some (sha256 key)"
  then have "authenticate a key = None" if "extractAPIKey a r = Some key" for key
    using that exact by (metis not_Some_eq)
  then obtain m where run: "authMiddleware (Some a) n s r w = (s, writeAuthError 401 m ''authentication_error'' w)" for n :: "'a handler"
    by (cases "extractAPIKey a r") auto
  then show "fst (authMiddleware (Some a) h s r w) = s" "authMiddleware (Some a) h s r w = authMiddleware (Some a) h' s r w"
    by simp_all
  assume "layersAgree w" "rw_status (writerBase w) = None"
  then show "rw_status (writerBase (snd (authMiddleware (Some a) h s r w))) = Some 401"
    "hGet (headerOf (snd (authMiddleware (Some a) h s r w))) ''WWW-Authenticate'' = ''Bearer''"
    unfolding run by (auto simp: writeAuthError_def status_after onHeader_agrees onHeader_base finalStatus_def intro!: status_kept_write)
qed

text \<open>Requests with the key \<open>secret\<close> and without a key.\<close>

definition keyRequest :: "(string \<times> string list) list \<Rightarrow> Request" where
  "keyRequest hdr = \<lparr>rq_Method = ''POST'', rq_Path = [], rq_Header = hdr, rq_Body = [], rq_identity = None, rq_info = None, rq_span = None,
     rq_RawPath = [], rq_RawQuery = []\<rparr>"

lemma secret_valid: "validateAPIKeyAuth secretAuth = None"
proof -
  have "normalizeAPIKeyHash (hex_encode (sha256 ''secret'')) \<noteq> None"
    using parse_hex_digest [of "''secret''"] unfolding parse_normalize by (metis Option.bind.bind_lzero option.distinct(1))
  moreover have "\<not> blank ''Authorization''" "\<not> blank ''k1''" "\<not> blank ''alice''" by code_simp+
  ultimately show ?thesis
    by (simp add: validateAPIKeyAuth_def validateKeys_None keyOk_def secretAuth_def ContainsAny_def headerIllegal_def
        del: validateKeys.simps)
qed

theorem auth_middleware_gate_witness:
  "\<exists>a w. NewAPIKeyAuthenticator secretAuth = Inr a \<and>
     authMiddleware (Some a) (\<lambda>s r w. (rq_identity r # s, w)) [] (keyRequest [(''Authorization'', [''Bearer secret''])]) (Server (newServerWriter [])) =
       ([Some \<lparr>KeyID = ''k1'', UserID = ''alice'', TenantID = [], Scopes = []\<rparr>], Server (newServerWriter [])) \<and>
     authMiddleware (Some a) (\<lambda>s r w. (rq_identity r # s, w)) [] (keyRequest []) (Server (newServerWriter [])) = ([], w) \<and>
     rw_status (writerBase w) = Some 401"
proof -
  obtain a where a: "NewAPIKeyAuthenticator secretAuth = Inr a" using secret_authenticator by blast
  let ?n = "\<lambda>s r w. (rq_identity r # s, w)" and ?w = "Server (newServerWriter [])"
  have "authn_header a = CanonicalHeaderKey (TrimSpace (auth_Header secretAuth))"
    using a by (auto simp: NewAPIKeyAuthenticator_def Let_def split: if_splits sum.splits)
  moreover have "auth_Header secretAuth = ''Authorization''" by (simp add: secretAuth_def)
  moreover have "CanonicalHeaderKey (TrimSpace ''Authorization'') = ''Authorization''" by code_simp
  ultimately have hdr: "authn_header a = ''Authorization''" by simp
  have "extractAPIKey \<lparr>authn_header = ''Authorization'', authn_credentials = []\<rparr> (keyRequest [(''Authorization'', [''Bearer secret''])]) = Some ''secret''"
    by code_simp
  then have key: "extractAPIKey a (keyRequest [(''Authorization'', [''Bearer secret''])]) = Some ''secret''"
    unfolding extractAPIKey_def hdr APIKeyAuthenticator.simps .
  have none: "extractAPIKey a (keyRequest []) = None" by (simp add: extractAPIKey_def keyRequest_def hGet_def headerValues_def)
  let ?k = "hd (auth_Keys secretAuth)"
  have "TrimSpace ''k1'' = ''k1''" "TrimSpace ''alice'' = ''alice''" "TrimSpace [] = []" by code_simp+
  then have k: "?k \<in> set (auth_Keys secretAuth)" "parseAPIKeyHash (key_KeyHash ?k) = Some (sha256 ''secret'')"
    "keyIdentity ?k = \<lparr>KeyID = ''k1'', UserID = ''alice'', TenantID = [], Scopes = []\<rparr>"
    by (simp_all add: secretAuth_def parse_hex_digest keyIdentity_def normalizeScopes_def)
  have en: "auth_Enabled secretAuth" by (simp add: secretAuth_def)
  note gate = auth_middleware_gate [OF secret_valid en a, where h = ?n and h' = ?n and w = ?w and s = "[]"]
  have "authMiddleware (Some a) ?n [] (keyRequest [(''Authorization'', [''Bearer secret''])]) ?w =
      ([Some \<lparr>KeyID = ''k1'', UserID = ''alice'', TenantID = [], Scopes = []\<rparr>], ?w)"
    using gate [of "keyRequest [(''Authorization'', [''Bearer secret''])]" "''secret''" ?k] key k by simp
  moreover have "fst (authMiddleware (Some a) ?n [] (keyRequest []) ?w) = []"
    "rw_status (writerBase (snd (authMiddleware (Some a) ?n [] (keyRequest []) ?w))) = Some 401"
    using gate [of "keyRequest []" "[]" ?k] none by (simp_all add: newServerWriter_def)
  ultimately show ?thesis using a
    by (intro exI [of _ a] exI [of _ "snd (authMiddleware (Some a) ?n [] (keyRequest []) ?w)"]) (simp add: prod_eq_iff)
qed

end
