(* ===== verification/Tracing.thy ===== *)
theory Tracing
  imports Auth
begin

text \<open>
  Request tracing, \<^verbatim>\<open>internal/tracing\<close>: trace and span identifiers (\<^verbatim>\<open>ids.go\<close>), the trace in the
  context (\<^verbatim>\<open>context.go\<close>), the trace headers (\<^verbatim>\<open>headers.go\<close>) and the middleware with its access log
  (\<^verbatim>\<open>middleware.go\<close>). The span context of OpenTelemetry travels in \<open>rq_span\<close>; the propagator of
  that library is a parameter of \<open>Inject\<close>.
\<close>

section \<open>Identifiers\<close>

text \<open>
  The source of random bytes: the results of the coming calls of \<^verbatim>\<open>rand.Read\<close>, \<open>None\<close> for an error,
  and errors after the last. Every run of \<^verbatim>\<open>newNonZeroHex\<close> that ends uses finitely many of them.
  \<open>en_clock\<close> is the clock, printed as RFC 3339, and \<open>en_counter\<close> is \<^verbatim>\<open>fallbackCounter\<close>.
\<close>

record entropy =
  en_reads :: "string option list"
  en_clock :: string
  en_counter :: "64 word"

definition allZeroBytes :: "string \<Rightarrow> bool" where
  "allZeroBytes value = list_all (\<lambda>b. b = CHR 0x00) value"

definition allZeroString :: "string \<Rightarrow> bool" where
  "allZeroString value = list_all (\<lambda>c. c = CHR ''0'') value"

definition hexChar :: "char \<Rightarrow> bool" where
  "hexChar c \<longleftrightarrow> (let b = (of_char c :: nat) in (48 \<le> b \<and> b \<le> 57) \<or> (97 \<le> b \<and> b \<le> 102))"

definition isHex :: "string \<Rightarrow> bool" where
  "isHex value = list_all hexChar value"

definition counterBytes :: "64 word \<Rightarrow> string" where
  "counterBytes count = map (\<lambda>k. char_of (unat (drop_bit k count) mod 256)) [0, 8, 16, 24]"

definition fallbackRandomHex :: "entropy \<Rightarrow> nat \<Rightarrow> string \<times> entropy" where
  "fallbackRandomHex en byteLen =
     (let count = en_counter en + 1;
          seed = en_clock en @ counterBytes count
      in (hex_encode (take byteLen (sha256 seed)), en\<lparr>en_counter := count\<rparr>))"

text \<open>A buffer of \<open>n\<close> bytes, filled by a read.\<close>

definition fillBuf :: "nat \<Rightarrow> string \<Rightarrow> string" where
  "fillBuf n b = take n (b @ replicate n (CHR 0x00))"

fun nonZeroHexFrom :: "string option list \<Rightarrow> entropy \<Rightarrow> nat \<Rightarrow> string \<times> entropy" where
  "nonZeroHexFrom [] en byteLen = fallbackRandomHex (en\<lparr>en_reads := []\<rparr>) byteLen"
| "nonZeroHexFrom (None # rs) en byteLen = fallbackRandomHex (en\<lparr>en_reads := rs\<rparr>) byteLen"
| "nonZeroHexFrom (Some b # rs) en byteLen =
     (if allZeroBytes (fillBuf byteLen b) then nonZeroHexFrom rs en byteLen
      else (hex_encode (fillBuf byteLen b), en\<lparr>en_reads := rs\<rparr>))"

definition newNonZeroHex :: "entropy \<Rightarrow> nat \<Rightarrow> string \<times> entropy" where
  "newNonZeroHex en byteLen = nonZeroHexFrom (en_reads en) en byteLen"

definition newTraceID :: "entropy \<Rightarrow> string \<times> entropy" where
  "newTraceID en = newNonZeroHex en 16"

definition newSpanID :: "entropy \<Rightarrow> string \<times> entropy" where
  "newSpanID en = newNonZeroHex en 8"

definition normalizeTraceID :: "string \<Rightarrow> string" where
  "normalizeTraceID value =
     (let v = ToLower (TrimSpace value) in if length v \<noteq> 32 \<or> \<not> isHex v \<or> allZeroString v then [] else v)"

definition normalizeSpanID :: "string \<Rightarrow> string" where
  "normalizeSpanID value =
     (let v = ToLower (TrimSpace value) in if length v \<noteq> 16 \<or> \<not> isHex v \<or> allZeroString v then [] else v)"

definition isValidTraceFlags :: "string \<Rightarrow> bool" where
  "isValidTraceFlags value \<longleftrightarrow> length value = 2 \<and> isHex value"

section \<open>Context\<close>

definition WithInfo :: "Request \<Rightarrow> Info \<Rightarrow> Request" where
  "WithInfo r info = r\<lparr>rq_info := Some info\<rparr>"

definition FromContext :: "Request \<Rightarrow> Info option" where
  "FromContext r =
     (case rq_span r of
        Some (traceID, spanID, flags, traceState) \<Rightarrow>
          Some \<lparr>TraceID = traceID, SpanID = spanID, ParentSpanID = [], TraceFlags = flags, TraceState = traceState\<rparr>
      | None \<Rightarrow>
          (case rq_info r of
             None \<Rightarrow> None
           | Some info \<Rightarrow> if TraceID info = [] \<or> SpanID info = [] then None else Some info))"

definition TraceIDFromContext :: "Request \<Rightarrow> string" where
  "TraceIDFromContext r = (case FromContext r of None \<Rightarrow> [] | Some info \<Rightarrow> TraceID info)"

section \<open>Headers\<close>

definition HeaderTraceID :: string where "HeaderTraceID = ''X-Trace-ID''"
definition HeaderRequestID :: string where "HeaderRequestID = ''X-Request-ID''"
definition HeaderTraceParent :: string where "HeaderTraceParent = ''Traceparent''"
definition HeaderTraceState :: string where "HeaderTraceState = ''Tracestate''"
definition defaultTraceFlags :: string where "defaultTraceFlags = ''01''"

definition traceParentValue :: "Info \<Rightarrow> string" where
  "traceParentValue info =
     (let f = ToLower (TrimSpace (TraceFlags info));
          flags = (if isValidTraceFlags f then f else defaultTraceFlags)
      in ''00-'' @ TraceID info @ ''-'' @ SpanID info @ ''-'' @ flags)"

definition parseTraceParent :: "string \<Rightarrow> Info option" where
  "parseTraceParent value =
     (case Split (CHR ''-'') (TrimSpace value) of
        [p0, p1, p2, p3] \<Rightarrow>
          (let version = ToLower p0;
               traceID = normalizeTraceID p1;
               parentSpanID = normalizeSpanID p2;
               flags = ToLower p3
           in if version = ''ff'' \<or> length version \<noteq> 2 \<or> \<not> isHex version then None
              else if traceID = [] \<or> parentSpanID = [] \<or> \<not> isValidTraceFlags flags then None
              else Some \<lparr>TraceID = traceID, SpanID = [], ParentSpanID = parentSpanID, TraceFlags = flags, TraceState = []\<rparr>)
      | _ \<Rightarrow> None)"

definition traceStateFromHeaders :: "Header \<Rightarrow> string" where
  "traceStateFromHeaders h = (let v = TrimSpace (hGet h HeaderTraceState) in if length v > 512 then [] else v)"

text \<open>The first of the two plain headers that holds a trace id.\<close>

fun headerTraceID :: "Header \<Rightarrow> string list \<Rightarrow> string" where
  "headerTraceID h [] = []"
| "headerTraceID h (k # ks) = (let t = normalizeTraceID (hGet h k) in if t \<noteq> [] then t else headerTraceID h ks)"

definition NewInfoFromHeaders :: "entropy \<Rightarrow> Header \<Rightarrow> Info \<times> entropy" where
  "NewInfoFromHeaders en h =
     (case parseTraceParent (hGet h HeaderTraceParent) of
        Some info \<Rightarrow> (case newSpanID en of (sid, en1) \<Rightarrow> (info\<lparr>SpanID := sid, TraceState := traceStateFromHeaders h\<rparr>, en1))
      | None \<Rightarrow>
          (let t = headerTraceID h [HeaderTraceID, HeaderRequestID];
               (traceID, en1) = (if t \<noteq> [] then (t, en) else newTraceID en);
               (sid, en2) = newSpanID en1
           in (\<lparr>TraceID = traceID, SpanID = sid, ParentSpanID = [], TraceFlags = defaultTraceFlags,
                TraceState = traceStateFromHeaders h\<rparr>, en2)))"

definition setTraceHeaders :: "string \<Rightarrow> Info \<Rightarrow> Header \<Rightarrow> Header" where
  "setTraceHeaders traceParent info h =
     (let h1 = hSet HeaderRequestID (TraceID info) (hSet HeaderTraceID (TraceID info) (hSet HeaderTraceParent traceParent h))
      in if TraceState info \<noteq> [] then hSet HeaderTraceState (TraceState info) h1 else h1)"

definition setResponseHeaders :: "Info \<Rightarrow> Header \<Rightarrow> Header" where
  "setResponseHeaders info h = setTraceHeaders (traceParentValue info) info h"

text \<open>\<open>propagate\<close> is the propagator of OpenTelemetry, applied to the context of the request.\<close>

definition Inject :: "(Request \<Rightarrow> Header \<Rightarrow> Header) \<Rightarrow> entropy \<Rightarrow> Request \<Rightarrow> Header \<Rightarrow> Header \<times> entropy" where
  "Inject propagate en ctx h =
     (case rq_span ctx of
        Some (traceID, _) \<Rightarrow> (hSet HeaderRequestID traceID (hSet HeaderTraceID traceID (propagate ctx h)), en)
      | None \<Rightarrow>
          (case FromContext ctx of
             None \<Rightarrow> (h, en)
           | Some info \<Rightarrow>
               (case newSpanID en of
                  (sid, en') \<Rightarrow>
                    (setTraceHeaders (traceParentValue (info\<lparr>ParentSpanID := SpanID info, SpanID := sid\<rparr>)) info h, en'))))"

section \<open>Middleware\<close>

record accessEntry =
  ac_trace_id :: string
  ac_span_id :: string
  ac_method :: string
  ac_path :: string
  ac_status :: int
  ac_bytes :: int

record traceState =
  ts_entropy :: entropy
  ts_log :: "accessEntry list"

text \<open>\<^verbatim>\<open>http.Error\<close> and \<^verbatim>\<open>http.NotFoundHandler\<close>.\<close>

definition hDel :: "string \<Rightarrow> Header \<Rightarrow> Header" where
  "hDel k h = AList.delete (CanonicalHeaderKey k) h"

definition httpError :: "string \<Rightarrow> int \<Rightarrow> writer \<Rightarrow> writer" where
  "httpError msg code w =
     fst (Write (msg @ [CHR 0x0A]) (WriteHeader code
       (onHeader (hSet ''X-Content-Type-Options'' ''nosniff'')
         (onHeader (hSet ''Content-Type'' ''text/plain; charset=utf-8'') (onHeader (hDel ''Content-Length'') w)))))"

definition NotFoundHandler :: "'s handler" where
  "NotFoundHandler s r w = (s, httpError ''404 page not found'' 404 w)"

definition tracingMiddleware :: "(traceState \<times> 's) handler option \<Rightarrow> (traceState \<times> 's) handler" where
  "tracingMiddleware nxt ts r w =
     (let nxt' = (case nxt of None \<Rightarrow> NotFoundHandler | Some n \<Rightarrow> n);
          (info, ctx, ts1) = (case FromContext r of
             Some info \<Rightarrow> (info, r, ts)
           | None \<Rightarrow> (case NewInfoFromHeaders (ts_entropy (fst ts)) (rq_Header r) of
                 (info, en) \<Rightarrow> (info, WithInfo r info, ((fst ts)\<lparr>ts_entropy := en\<rparr>, snd ts))));
          w1 = onHeader (setResponseHeaders info) w
      in case nxt' ts1 ctx (newResponseWriter w1) of
           (ts2, w2) \<Rightarrow>
             (case w2 of
                Tracking t below \<Rightarrow>
                  (((fst ts2)\<lparr>ts_log := ts_log (fst ts2) @ [\<lparr>ac_trace_id = TraceID info, ac_span_id = SpanID info, ac_method = rq_Method r,
                      ac_path = rq_Path r, ac_status = tw_statusCode t, ac_bytes = tw_bytesWritten t\<rparr>]\<rparr>, snd ts2), below)
              | _ \<Rightarrow> (ts2, w2)))"

section \<open>Laws\<close>

lemma hexChar_plain:
  assumes "hexChar c"
  shows "lower_byte c = c" "\<not> ascii_space c" "(of_char c :: nat) < 128" "c \<noteq> CHR 0xC4" "c \<noteq> CHR 0xE2" "c \<noteq> CHR ''-''"
proof -
  have b: "(48 \<le> (of_char c :: nat) \<and> (of_char c :: nat) \<le> 57) \<or> (97 \<le> (of_char c :: nat) \<and> (of_char c :: nat) \<le> 102)"
    using assms by (simp add: hexChar_def Let_def)
  have "c \<noteq> d" if "(of_char d :: nat) < 48 \<or> 102 < (of_char d :: nat)" for d
    using that b by auto
  then show "c \<noteq> CHR 0xC4" "c \<noteq> CHR 0xE2" "c \<noteq> CHR ''-''" "\<not> ascii_space c"
    by (simp_all add: ascii_space_def)
  show "lower_byte c = c" "(of_char c :: nat) < 128" using b by (auto simp: lower_byte_def)
qed

lemma isHex_plain:
  assumes "isHex v"
  shows "ToLower v = v" "TrimSpace v = v" "CHR ''-'' \<notin> set v"
proof -
  have h: "hexChar c" if "c \<in> set v" for c using assms that by (simp add: isHex_def list_all_iff)
  show "ToLower v = v" by (rule ToLower_plain) (use h hexChar_plain in blast)
  show "TrimSpace v = v" by (rule TrimSpace_plain) (use h hexChar_plain in blast)
  show "CHR ''-'' \<notin> set v" using h hexChar_plain by blast
qed

lemma isHex_append [simp]: "isHex (a @ b) \<longleftrightarrow> isHex a \<and> isHex b"
  by (simp add: isHex_def)

lemma hexChar_digit: "n < 16 \<Longrightarrow> hexChar (hex_digit n)"
  by (auto simp: hexChar_def hex_digit_def Let_def)

lemma isHex_encode [simp]: "isHex (hex_encode s)"
  unfolding isHex_def list_all_iff using hex_encode_digits hexChar_digit by blast

lemma length_hex_encode [simp]: "length (hex_encode s) = 2 * length s"
  using hex_decode_length [OF hex_roundtrip] .

text \<open>A well-formed identifier: lower-case hexadecimal digits, not all zero.\<close>

definition idOk :: "nat \<Rightarrow> string \<Rightarrow> bool" where
  "idOk n v \<longleftrightarrow> length v = n \<and> isHex v \<and> \<not> allZeroString v"

lemma normalizeTraceID_ok: "normalizeTraceID v \<noteq> [] \<Longrightarrow> idOk 32 (normalizeTraceID v)"
  by (auto simp: normalizeTraceID_def idOk_def Let_def split: if_splits)

lemma normalizeSpanID_ok: "normalizeSpanID v \<noteq> [] \<Longrightarrow> idOk 16 (normalizeSpanID v)"
  by (auto simp: normalizeSpanID_def idOk_def Let_def split: if_splits)

lemma idOk_normal:
  "idOk 32 v \<Longrightarrow> normalizeTraceID v = v"
  "idOk 16 v \<Longrightarrow> normalizeSpanID v = v"
  by (simp_all add: idOk_def normalizeTraceID_def normalizeSpanID_def isHex_plain)

lemma traceFlags_normal:
  "\<exists>f. isValidTraceFlags f \<and> traceParentValue info = ''00-'' @ TraceID info @ ''-'' @ SpanID info @ ''-'' @ f \<and>
     (isValidTraceFlags (TraceFlags info) \<longrightarrow> f = TraceFlags info)"
proof -
  let ?f = "ToLower (TrimSpace (TraceFlags info))"
  have "isValidTraceFlags defaultTraceFlags" by (simp add: isValidTraceFlags_def defaultTraceFlags_def isHex_def hexChar_def)
  moreover have "isValidTraceFlags (TraceFlags info) \<Longrightarrow> ?f = TraceFlags info"
    by (simp add: isValidTraceFlags_def isHex_plain)
  ultimately show ?thesis
    by (intro exI [of _ "if isValidTraceFlags ?f then ?f else defaultTraceFlags"]) (simp add: traceParentValue_def Let_def)
qed

lemma parse_parts:
  assumes "idOk 32 t" "idOk 16 s" "isValidTraceFlags f"
  shows "parseTraceParent (''00-'' @ t @ ''-'' @ s @ ''-'' @ f) =
    Some \<lparr>TraceID = t, SpanID = [], ParentSpanID = s, TraceFlags = f, TraceState = []\<rparr>"
proof -
  have hex: "isHex t" "isHex s" "isHex f" "length f = 2" using assms by (simp_all add: idOk_def isValidTraceFlags_def)
  let ?v = "''00-'' @ t @ ''-'' @ s @ ''-'' @ f"
  have plain: "\<not> ascii_space c \<and> (of_char c :: nat) < 128" if "c \<in> set ?v" for c
  proof -
    from that have "c = CHR ''-'' \<or> c = CHR ''0'' \<or> hexChar c" using hex by (auto simp: isHex_def list_all_iff)
    then show ?thesis using hexChar_plain by (auto simp: ascii_space_def)
  qed
  have "TrimSpace ?v = ?v" by (rule TrimSpace_plain) (rule plain)
  moreover have "Split (CHR ''-'') ?v = [''00'', t, s, f]"
  proof -
    have "Split (CHR ''-'') f = [f]" using hex by (intro Split_plain isHex_plain)
    then have "Split (CHR ''-'') (s @ CHR ''-'' # f) = [s, f]" using hex Split_sep [OF isHex_plain(3)] by simp
    then have "Split (CHR ''-'') (t @ CHR ''-'' # s @ CHR ''-'' # f) = [t, s, f]" using hex Split_sep [OF isHex_plain(3)] by simp
    then show ?thesis using Split_sep [of "CHR ''-''" "''00''" "t @ CHR ''-'' # s @ CHR ''-'' # f"] by simp
  qed
  ultimately have "Split (CHR ''-'') (TrimSpace ?v) = [''00'', t, s, f]" by simp
  moreover have "ToLower ''00'' = ''00''" "isHex ''00''" by code_simp+
  moreover have "ToLower f = f" using hex by (simp add: isHex_plain)
  ultimately show ?thesis
    using assms by (simp add: parseTraceParent_def idOk_normal Let_def) (auto simp: idOk_def)
qed

text \<open>C28. The \<^verbatim>\<open>traceparent\<close> header round-trips: what the gateway writes for a trace with well-formed
  identifiers is read back, by the gateway's own parser, as the same trace with the writer's span as
  the parent and the same flags.\<close>

theorem traceparent_roundtrip:
  assumes "idOk 32 (TraceID info)" "idOk 16 (SpanID info)" "isValidTraceFlags (TraceFlags info)"
  shows "parseTraceParent (traceParentValue info) =
    Some \<lparr>TraceID = TraceID info, SpanID = [], ParentSpanID = SpanID info, TraceFlags = TraceFlags info, TraceState = []\<rparr>"
  using traceFlags_normal [of info] parse_parts [OF assms(1,2)] assms(3) by auto

definition demoInfo :: Info where
  "demoInfo = \<lparr>TraceID = ''4bf92f3577b34da6a3ce929d0e0e4736'', SpanID = ''00f067aa0ba902b7'', ParentSpanID = [],
     TraceFlags = ''01'', TraceState = []\<rparr>"

theorem traceparent_roundtrip_witness:
  "map_option ParentSpanID (parseTraceParent (traceParentValue demoInfo)) = Some ''00f067aa0ba902b7''"
proof -
  have "idOk 32 (TraceID demoInfo)" "idOk 16 (SpanID demoInfo)" "isValidTraceFlags (TraceFlags demoInfo)" by code_simp+
  from traceparent_roundtrip [OF this] show ?thesis by (simp add: demoInfo_def)
qed

section \<open>Fresh identifiers\<close>

text \<open>The next \<open>n\<close> reads of random bytes succeed and are not zero in their first eight bytes.\<close>

definition usable :: "nat \<Rightarrow> entropy \<Rightarrow> bool" where
  "usable n en \<longleftrightarrow> n \<le> length (en_reads en) \<and>
     list_all (\<lambda>r. case r of None \<Rightarrow> False | Some b \<Rightarrow> \<not> allZeroBytes (fillBuf 8 b)) (take n (en_reads en))"

lemma length_fillBuf [simp]: "length (fillBuf n b) = n"
  by (simp add: fillBuf_def)

lemma fillBuf_prefix: "8 \<le> n \<Longrightarrow> \<not> allZeroBytes (fillBuf 8 b) \<Longrightarrow> \<not> allZeroBytes (fillBuf n b)"
proof -
  assume n: "8 \<le> n" and nz: "\<not> allZeroBytes (fillBuf 8 b)"
  have "fillBuf 8 b = take 8 (fillBuf n b)" using n by (simp add: fillBuf_def min_def)
  with nz show ?thesis by (auto simp: allZeroBytes_def list_all_iff dest: in_set_takeD)
qed

lemma hex_zero: "n < 16 \<Longrightarrow> hex_digit n = CHR ''0'' \<Longrightarrow> n = 0"
proof -
  assume n: "n < 16" and z: "hex_digit n = CHR ''0''"
  have "hex_value (hex_digit n) = Some n" using n by (rule hex_value_digit)
  moreover have "hex_value (CHR ''0'') = Some 0" by code_simp
  ultimately show ?thesis using z by simp
qed

lemma allZero_encode: "allZeroString (hex_encode s) \<Longrightarrow> allZeroBytes s"
proof (induction s)
  case (Cons b s)
  let ?b = "of_char b :: nat"
  have e: "hex_encode (b # s) = hex_digit (?b div 16) # hex_digit (?b mod 16) # hex_encode s"
    by (simp add: hex_encode_def Let_def)
  have "?b div 16 < 16" using of_char_less_256 [of b] by (intro less_mult_imp_div_less) simp
  then have "?b div 16 = 0" "?b mod 16 = 0"
    using Cons.prems e by (auto simp: allZeroString_def intro!: hex_zero)
  then have "?b = 0" using div_mult_mod_eq [of ?b 16] by simp
  then have "?b = of_char (CHR 0x00)" by simp
  then have "b = CHR 0x00" by (simp only: of_char_eq_iff)
  with Cons e show ?case by (simp add: allZeroString_def allZeroBytes_def)
qed (simp add: allZeroBytes_def)

lemma newNonZeroHex_usable:
  assumes "usable (Suc k) en" "8 \<le> n"
  shows "idOk (2 * n) (fst (newNonZeroHex en n)) \<and> usable k (snd (newNonZeroHex en n))"
proof -
  obtain b rs where r: "en_reads en = Some b # rs" "\<not> allZeroBytes (fillBuf 8 b)"
    using assms(1) by (cases "en_reads en") (auto simp: usable_def split: option.splits)
  have nz: "\<not> allZeroBytes (fillBuf n b)" using fillBuf_prefix [OF assms(2) r(2)] .
  then have "\<not> allZeroString (hex_encode (fillBuf n b))" using allZero_encode by blast
  then show ?thesis using r nz assms(1) by (simp add: newNonZeroHex_def idOk_def usable_def)
qed

lemma newSpanID_ok: "usable (Suc k) en \<Longrightarrow> idOk 16 (fst (newSpanID en)) \<and> usable k (snd (newSpanID en))"
  using newNonZeroHex_usable [of k en 8] by (simp add: newSpanID_def)

lemma newTraceID_ok: "usable (Suc k) en \<Longrightarrow> idOk 32 (fst (newTraceID en)) \<and> usable k (snd (newTraceID en))"
  using newNonZeroHex_usable [of k en 16] by (simp add: newTraceID_def)

lemma usable_mono: "usable n en \<Longrightarrow> m \<le> n \<Longrightarrow> usable m en"
  unfolding usable_def list_all_iff using set_take_subset_set_take [of m n "en_reads en"] by (meson le_trans subset_iff)

lemma headerTraceID_ok: "headerTraceID h ks \<noteq> [] \<Longrightarrow> idOk 32 (headerTraceID h ks)"
  by (induction ks) (auto simp: Let_def normalizeTraceID_ok)

lemma parseTraceParent_ok:
  "parseTraceParent v = Some i \<Longrightarrow> idOk 32 (TraceID i) \<and> idOk 16 (ParentSpanID i) \<and> isValidTraceFlags (TraceFlags i)"
  by (auto simp: parseTraceParent_def Let_def normalizeTraceID_ok normalizeSpanID_ok split: list.splits if_splits)

lemma defaultFlags_valid [simp]: "isValidTraceFlags defaultTraceFlags"
  by code_simp

lemma newInfo_ok:
  assumes "usable 3 en" "NewInfoFromHeaders en h = (info, en1)"
  shows "idOk 32 (TraceID info) \<and> idOk 16 (SpanID info) \<and> isValidTraceFlags (TraceFlags info) \<and> usable 1 en1 \<and>
    (\<forall>i. parseTraceParent (hGet h HeaderTraceParent) = Some i \<longrightarrow> TraceID info = TraceID i \<and> ParentSpanID info = ParentSpanID i)"
proof (cases "parseTraceParent (hGet h HeaderTraceParent)")
  case (Some i)
  have "usable (Suc 1) en" using usable_mono [OF assms(1), of 2] by (simp add: numeral_2_eq_2)
  from newSpanID_ok [OF this] show ?thesis
    using assms(2) Some parseTraceParent_ok [OF Some] by (auto simp: NewInfoFromHeaders_def split: prod.splits)
next
  case None
  let ?t = "headerTraceID h [HeaderTraceID, HeaderRequestID]"
  define p where "p = (if ?t \<noteq> [] then (?t, en) else newTraceID en)"
  have u3: "usable (Suc 2) en" and u2: "usable 2 en"
    using assms(1) usable_mono [OF assms(1), of 2] by (simp_all add: numeral_3_eq_3)
  have p: "idOk 32 (fst p) \<and> usable (Suc 1) (snd p)"
    using newTraceID_ok [OF u3] headerTraceID_ok [of h "[HeaderTraceID, HeaderRequestID]"] u2
    by (auto simp: p_def numeral_2_eq_2 simp del: headerTraceID.simps)
  have "info = \<lparr>TraceID = fst p, SpanID = fst (newSpanID (snd p)), ParentSpanID = [], TraceFlags = defaultTraceFlags,
      TraceState = traceStateFromHeaders h\<rparr>" "en1 = snd (newSpanID (snd p))"
    using assms(2) None by (auto simp: NewInfoFromHeaders_def p_def Let_def split: prod.splits simp del: headerTraceID.simps)
  then show ?thesis using p newSpanID_ok [of 1 "snd p"] None by simp
qed

lemma setTraceHeaders_parent: "hGet (setTraceHeaders tp info h) HeaderTraceParent = tp"
proof -
  have "CanonicalHeaderKey HeaderTraceParent \<noteq> CanonicalHeaderKey HeaderTraceID"
    "CanonicalHeaderKey HeaderTraceParent \<noteq> CanonicalHeaderKey HeaderRequestID"
    "CanonicalHeaderKey HeaderTraceParent \<noteq> CanonicalHeaderKey HeaderTraceState"
    by code_simp+
  then show ?thesis by (simp add: setTraceHeaders_def Let_def)
qed

text \<open>A trace goes through the gateway unbroken. For a request without an OpenTelemetry span, the
  middleware finds or makes a trace with well-formed identifiers; if the request carried a valid
  \<^verbatim>\<open>traceparent\<close> it is that trace, with the caller's span as the parent. The response header and the
  request to the backend both carry a valid \<^verbatim>\<open>traceparent\<close> of the same trace and with the same flags.\<close>

theorem trace_propagates:
  assumes "usable 3 en" "rq_span r = None" "NewInfoFromHeaders en (rq_Header r) = (info, en1)"
  shows "idOk 32 (TraceID info) \<and> idOk 16 (SpanID info) \<and>
    (\<forall>i. parseTraceParent (hGet (rq_Header r) HeaderTraceParent) = Some i \<longrightarrow>
       TraceID info = TraceID i \<and> ParentSpanID info = ParentSpanID i) \<and>
    parseTraceParent (hGet (setResponseHeaders info rh) HeaderTraceParent) =
      Some \<lparr>TraceID = TraceID info, SpanID = [], ParentSpanID = SpanID info, TraceFlags = TraceFlags info, TraceState = []\<rparr> \<and>
    (\<exists>sid. parseTraceParent (hGet (fst (Inject propagate en1 (WithInfo r info) uh)) HeaderTraceParent) =
      Some \<lparr>TraceID = TraceID info, SpanID = [], ParentSpanID = sid, TraceFlags = TraceFlags info, TraceState = []\<rparr>)"
proof -
  note ok = newInfo_ok [OF assms(1,3)]
  have ids: "idOk 32 (TraceID info)" "idOk 16 (SpanID info)" "isValidTraceFlags (TraceFlags info)" using ok by auto
  then have "TraceID info \<noteq> []" "SpanID info \<noteq> []" by (auto simp: idOk_def)
  then have ctx: "FromContext (WithInfo r info) = Some info"
    using assms(2) by (simp add: FromContext_def WithInfo_def)
  have new: "idOk 16 (fst (newSpanID en1))" using newSpanID_ok [of 0 en1] ok by simp
  obtain f where f: "traceParentValue info = ''00-'' @ TraceID info @ ''-'' @ SpanID info @ ''-'' @ f" "f = TraceFlags info"
    using traceFlags_normal [of info] ids by auto
  let ?child = "info\<lparr>ParentSpanID := SpanID info, SpanID := fst (newSpanID en1)\<rparr>"
  obtain g where g: "traceParentValue ?child = ''00-'' @ TraceID info @ ''-'' @ fst (newSpanID en1) @ ''-'' @ g" "g = TraceFlags info"
    using traceFlags_normal [of ?child] ids by auto
  have inj: "fst (Inject propagate en1 (WithInfo r info) uh) = setTraceHeaders (traceParentValue ?child) info uh"
    using assms(2) ctx by (simp add: Inject_def WithInfo_def split: prod.split)
  show ?thesis
    using ok parse_parts [OF ids] parse_parts [OF ids(1) new ids(3)] f g
    by (simp add: setResponseHeaders_def inj setTraceHeaders_parent)
qed

definition demoEntropy :: entropy where
  "demoEntropy = \<lparr>en_reads = [Some ''abcdefgh'', Some ''ijklmnop'', Some ''qrstuvwx''], en_clock = [], en_counter = 0\<rparr>"

definition demoTraced :: Request where
  "demoTraced = \<lparr>rq_Method = ''POST'', rq_Path = ''/v1/chat/completions'',
     rq_Header = [(''Traceparent'', [traceParentValue demoInfo])], rq_Body = [], rq_identity = None, rq_info = None, rq_span = None, rq_RawPath = [], rq_RawQuery = []\<rparr>"

lemma demo_parse:
  "parseTraceParent (hGet (rq_Header demoTraced) HeaderTraceParent) =
     Some \<lparr>TraceID = ''4bf92f3577b34da6a3ce929d0e0e4736'', SpanID = [], ParentSpanID = ''00f067aa0ba902b7'', TraceFlags = ''01'', TraceState = []\<rparr>"
proof -
  have "CanonicalHeaderKey HeaderTraceParent = ''Traceparent''" by code_simp
  then have "hGet (rq_Header demoTraced) HeaderTraceParent = traceParentValue demoInfo"
    by (simp add: hGet_def headerValues_def demoTraced_def)
  moreover have "traceParentValue demoInfo = ''00-'' @ ''4bf92f3577b34da6a3ce929d0e0e4736'' @ ''-'' @ ''00f067aa0ba902b7'' @ ''-'' @ ''01''"
    by code_simp
  moreover have "idOk 32 ''4bf92f3577b34da6a3ce929d0e0e4736''" "idOk 16 ''00f067aa0ba902b7''" "isValidTraceFlags ''01''"
    by code_simp+
  ultimately show ?thesis using parse_parts by metis
qed

theorem trace_propagates_witness:
  "map_option TraceID (parseTraceParent (hGet (setResponseHeaders (fst (NewInfoFromHeaders demoEntropy (rq_Header demoTraced))) []) HeaderTraceParent)) =
     Some ''4bf92f3577b34da6a3ce929d0e0e4736''"
proof -
  let ?p = "NewInfoFromHeaders demoEntropy (rq_Header demoTraced)"
  have "usable 3 demoEntropy" by code_simp
  moreover have "rq_span demoTraced = None" by (simp add: demoTraced_def)
  moreover have "?p = (fst ?p, snd ?p)" by simp
  ultimately show ?thesis
    using trace_propagates [of demoEntropy demoTraced "fst ?p" "snd ?p" "[]" "\<lambda>_ h. h" "[]"] demo_parse by simp
qed

end
