(* ===== verification/Go_Float.thy ===== *)
theory Go_Float
  imports Config_Types
begin

text \<open>
  The type \<^verbatim>\<open>float64\<close> where the gateway computes with it: a number is the rational it denotes, and every
  operation is the exact one followed by \<open>rnd\<close>, the rounding of IEEE 754 to the nearest number with 53
  significant bits, ties to even, with the smallest exponent of the format. Overflow to infinity is not
  modelled: nothing the gateway computes exceeds \<open>2 ^ 64\<close>.
\<close>

section \<open>Rounding\<close>

function ilog2 :: "int \<Rightarrow> int" where
  "ilog2 n = (if n < 2 then 0 else 1 + ilog2 (n div 2))"
  by pat_completeness auto
termination
  by (relation "measure nat") auto

declare ilog2.simps [simp del]

text \<open>The exponent of the binade of a positive number: \<open>2 ^ e \<le> x < 2 ^ (e + 1)\<close>.\<close>

definition binade :: "rat \<Rightarrow> int" where
  "binade x =
     (let (p, q) = quotient_of x;
          e = ilog2 p - ilog2 q
      in if 2 powi e \<le> x then e else e - 1)"

definition roundEven :: "rat \<Rightarrow> int" where
  "roundEven x =
     (let f = \<lfloor>x\<rfloor>; d = x - of_int f
      in if d < 1 / 2 then f else if d > 1 / 2 then f + 1 else if even f then f else f + 1)"

text \<open>The distance of neighbouring numbers at \<open>x\<close>.\<close>

definition ulpOf :: "rat \<Rightarrow> rat" where
  "ulpOf x = 2 powi (max (binade \<bar>x\<bar>) (- 1022) - 52)"

definition rnd :: "rat \<Rightarrow> rat" where
  "rnd x = (if x = 0 then 0 else of_int (roundEven (x / ulpOf x)) * ulpOf x)"

text \<open>\<^verbatim>\<open>Duration.Seconds\<close>.\<close>

definition Seconds :: "duration \<Rightarrow> rat" where
  "Seconds d = rnd (rnd (of_int (quot64 d second)) + rnd (rnd (of_int (d - quot64 d second * second)) / 10 ^ 9))"

section \<open>Laws\<close>

lemma powi_2_pos [simp]: "(0::rat) < 2 powi e"
  by (simp add: power_int_def)

lemma powi_2_Suc: "(2::rat) powi (e + 1) = 2 * 2 powi e"
  by (simp add: power_int_add)

lemma powi_2_mono: "a \<le> b \<Longrightarrow> (2::rat) powi a \<le> 2 powi b"
  by (rule power_int_increasing) auto

lemma ilog2_bounds: "0 < n \<Longrightarrow> 0 \<le> ilog2 n \<and> 2 ^ nat (ilog2 n) \<le> n \<and> n < 2 * 2 ^ nat (ilog2 n)"
proof (induction n rule: ilog2.induct)
  case (1 n)
  show ?case
  proof (cases "n < 2")
    case True
    with 1 show ?thesis by (simp add: ilog2.simps)
  next
    case False
    define l where "l = ilog2 (n div 2)"
    have l: "0 \<le> l" "2 ^ nat l \<le> n div 2" "n div 2 < 2 * 2 ^ nat l" using 1 False by (auto simp: l_def)
    then have "2 * 2 ^ nat l \<le> n" "n < 2 * (2 * 2 ^ nat l)" by linarith+
    moreover have "ilog2 n = 1 + l" using False by (subst ilog2.simps) (simp add: l_def)
    ultimately show ?thesis using l(1) by (simp add: nat_add_distrib)
  qed
qed

lemma binade_bounds:
  assumes "0 < x"
  shows "2 powi binade x \<le> x" "x < 2 powi (binade x + 1)"
proof -
  obtain p q where pq: "quotient_of x = (p, q)" by fastforce
  then have q: "0 < q" and x: "x = of_int p / of_int q" using quotient_of_denom_pos quotient_of_div by auto
  with assms have p: "0 < p" by (simp add: zero_less_divide_iff)
  define a b where "a = nat (ilog2 p)" and "b = nat (ilog2 q)"
  have i: "2 ^ a \<le> p" "p < 2 ^ Suc a" "2 ^ b \<le> q" "q < 2 ^ Suc b"
    using ilog2_bounds [OF p] ilog2_bounds [OF q] by (simp_all add: a_def b_def)
  have r: "(2::rat) ^ a \<le> of_int p" "of_int p < (2::rat) ^ Suc a" "(2::rat) ^ b \<le> of_int q" "of_int q < (2::rat) ^ Suc b"
    using i by (metis of_int_le_iff of_int_less_iff of_int_power of_int_numeral)+
  have ab: "ilog2 p - ilog2 q = int a - int b" using ilog2_bounds [OF p] ilog2_bounds [OF q] by (simp add: a_def b_def)
  have e: "(2::rat) powi (int a - int b) = 2 ^ a / 2 ^ b" by (simp add: power_int_diff)
  have "x < 2 ^ Suc a / 2 ^ b" unfolding x by (rule frac_less) (use r p in auto)
  then have up: "x < 2 * (2 ^ a / 2 ^ b)" by simp
  have "2 ^ a / 2 ^ Suc b < x" unfolding x by (rule frac_less2) (use r q in auto)
  then have lo: "(2 ^ a / 2 ^ b) / 2 < x" by (simp add: field_simps)
  have "binade x = (if 2 powi (int a - int b) \<le> x then int a - int b else int a - int b - 1)"
    by (simp add: binade_def pq ab Let_def)
  then show "2 powi binade x \<le> x" "x < 2 powi (binade x + 1)"
    using up lo e by (auto simp: powi_2_Suc power_int_diff)
qed

lemma roundEven_near: "\<bar>of_int (roundEven x) - x\<bar> \<le> 1 / 2"
proof -
  have "of_int \<lfloor>x\<rfloor> \<le> x" "x < of_int \<lfloor>x\<rfloor> + 1" by linarith+
  then show ?thesis unfolding roundEven_def Let_def by (auto simp: abs_le_iff field_simps)
qed

lemma roundEven_int [simp]: "roundEven (of_int n) = n"
  by (simp add: roundEven_def Let_def)

lemma roundEven_mono:
  assumes "x \<le> y"
  shows "roundEven x \<le> roundEven y"
proof (cases "\<lfloor>x\<rfloor> = \<lfloor>y\<rfloor>")
  case True
  then show ?thesis using assms by (auto simp: roundEven_def Let_def)
next
  case False
  then have "\<lfloor>x\<rfloor> + 1 \<le> \<lfloor>y\<rfloor>" using floor_mono [OF assms] by linarith
  moreover have "roundEven x \<le> \<lfloor>x\<rfloor> + 1" "\<lfloor>y\<rfloor> \<le> roundEven y" by (simp_all add: roundEven_def Let_def)
  ultimately show ?thesis by linarith
qed

lemma ulpOf_pos [simp]: "0 < ulpOf x"
  by (simp add: ulpOf_def)

lemma ulpOf_nonzero [simp]: "ulpOf x \<noteq> 0"
  using ulpOf_pos [of x] by linarith

lemma rnd_0 [simp]: "rnd 0 = 0"
  by (simp add: rnd_def)

text \<open>The error is at most half a unit in the last place, hence relatively small for a number of the normal range.\<close>

lemma rnd_near: "\<bar>rnd x - x\<bar> \<le> ulpOf x / 2"
proof (cases "x = 0")
  case False
  let ?u = "ulpOf x"
  have "rnd x - x = (of_int (roundEven (x / ?u)) - x / ?u) * ?u" using False by (simp add: rnd_def algebra_simps)
  then have "\<bar>rnd x - x\<bar> = \<bar>of_int (roundEven (x / ?u)) - x / ?u\<bar> * ?u" by (simp add: abs_mult abs_of_pos)
  also have "\<dots> \<le> 1 / 2 * ?u" by (rule mult_right_mono [OF roundEven_near]) (simp add: less_imp_le)
  finally show ?thesis by simp
qed (simp add: less_imp_le)

lemma rnd_relative:
  assumes "2 powi (- 1022) \<le> \<bar>x\<bar>"
  shows "\<bar>rnd x - x\<bar> \<le> \<bar>x\<bar> / 2 ^ 53"
proof -
  have pos: "0 < \<bar>x\<bar>" using assms powi_2_pos [of "- 1022"] by linarith
  have "\<not> binade \<bar>x\<bar> + 1 \<le> - 1022"
    using powi_2_mono [of "binade \<bar>x\<bar> + 1" "- 1022"] binade_bounds(2) [OF pos] assms by auto
  then have "max (binade \<bar>x\<bar>) (- 1022) = binade \<bar>x\<bar>" by linarith
  then have "ulpOf x = 2 powi binade \<bar>x\<bar> / 2 ^ 52" unfolding ulpOf_def by (simp add: power_int_diff)
  then have "ulpOf x \<le> \<bar>x\<bar> / 2 ^ 52" using binade_bounds(1) [OF pos] by (simp add: divide_right_mono)
  with rnd_near [of x] show ?thesis by simp
qed

text \<open>Between two neighbouring powers of two rounding stays between them; with the monotony of \<open>roundEven\<close> it is
  monotone.\<close>

lemma rnd_binade:
  assumes "2 powi e \<le> x" "x < 2 powi (e + 1)" "- 1022 \<le> e"
  shows "2 powi e \<le> rnd x" "rnd x \<le> 2 powi (e + 1)" "ulpOf x = 2 powi (e - 52)"
proof -
  have pos: "0 < x" using assms(1) powi_2_pos [of e] by linarith
  have "\<not> binade x + 1 \<le> e" using powi_2_mono [of "binade x + 1" e] binade_bounds(2) [OF pos] assms(1) by auto
  moreover have "\<not> e + 1 \<le> binade x" using powi_2_mono [of "e + 1" "binade x"] binade_bounds(1) [OF pos] assms(2) by auto
  ultimately have e: "binade x = e" by linarith
  then show u: "ulpOf x = 2 powi (e - 52)" using pos assms(3) by (simp add: ulpOf_def)
  have lo: "2 powi e / ulpOf x = of_int (2 ^ 52)" "2 powi (e + 1) / ulpOf x = of_int (2 ^ 53)"
    by (simp_all add: u power_int_add power_int_diff)
  have "of_int (2 ^ 52) \<le> x / ulpOf x" "x / ulpOf x \<le> of_int (2 ^ 53)"
    unfolding lo [symmetric] using assms by (auto intro!: divide_right_mono simp: less_imp_le)
  from this [THEN roundEven_mono] have "2 ^ 52 \<le> roundEven (x / ulpOf x)" "roundEven (x / ulpOf x) \<le> 2 ^ 53"
    unfolding roundEven_int by auto
  then have "(of_int (2 ^ 52) :: rat) \<le> of_int (roundEven (x / ulpOf x))" "of_int (roundEven (x / ulpOf x)) \<le> (of_int (2 ^ 53) :: rat)"
    by (simp_all only: of_int_le_iff)
  then have "of_int (2 ^ 52) * ulpOf x \<le> rnd x" "rnd x \<le> of_int (2 ^ 53) * ulpOf x"
    using pos by (simp_all add: rnd_def mult_right_mono less_imp_le)
  then show "2 powi e \<le> rnd x" "rnd x \<le> 2 powi (e + 1)"
    unfolding lo [symmetric] by simp_all
qed

lemma rnd_mono:
  assumes "2 powi (- 1022) \<le> x" "x \<le> y"
  shows "rnd x \<le> rnd y"
proof -
  have pos: "0 < x" "0 < y" using assms powi_2_pos [of "- 1022"] by linarith+
  have normal: "- 1022 \<le> binade z" if "2 powi (- 1022) \<le> z" "0 < z" for z
  proof (rule ccontr)
    assume "\<not> - 1022 \<le> binade z"
    then have "2 powi (binade z + 1) \<le> (2::rat) powi (- 1022)" by (intro powi_2_mono) linarith
    with binade_bounds(2) [OF that(2)] that(1) show False by linarith
  qed
  note x = rnd_binade [OF binade_bounds [OF pos(1)] normal [OF assms(1) pos(1)]]
  note y = rnd_binade [OF binade_bounds [OF pos(2)] normal [OF order_trans [OF assms] pos(2)]]
  show ?thesis
  proof (cases "binade x = binade y")
    case True
    then have u: "ulpOf x = ulpOf y" using x(3) y(3) by simp
    have "x / ulpOf y \<le> y / ulpOf y" using assms(2) by (intro divide_right_mono) (auto simp: less_imp_le)
    from roundEven_mono [OF this] show ?thesis using pos by (simp add: rnd_def u mult_right_mono less_imp_le)
  next
    case False
    have "binade x \<le> binade y"
    proof (rule ccontr)
      assume "\<not> binade x \<le> binade y"
      then have "2 powi (binade y + 1) \<le> (2::rat) powi binade x" by (intro powi_2_mono) linarith
      with binade_bounds(2) [OF pos(2)] binade_bounds(1) [OF pos(1)] assms(2) show False by linarith
    qed
    with False have "(2::rat) powi (binade x + 1) \<le> 2 powi binade y" by (intro powi_2_mono) linarith
    with x(2) y(1) show ?thesis by linarith
  qed
qed

text \<open>A number with at most 53 bits is represented exactly.\<close>

lemma rnd_nat:
  assumes "n \<le> 2 ^ 53"
  shows "rnd (of_nat n) = of_nat n"
proof (cases "n = 0")
  case False
  then have pos: "(0::rat) < of_nat n" by simp
  let ?e = "binade (of_nat n)"
  have "\<not> ?e + 1 \<le> 0" using powi_2_mono [of "?e + 1" 0] binade_bounds(2) [OF pos] False by auto
  then have ge: "0 \<le> ?e" by linarith
  have "(of_nat n :: rat) < 2 powi 54" using assms by (simp add: power_int_def)
  then have "\<not> 54 \<le> ?e" using powi_2_mono [of 54 ?e] binade_bounds(1) [OF pos] by auto
  then have le: "?e \<le> 53" by linarith
  have u: "ulpOf (of_nat n) = 2 powi (?e - 52)" using ge by (simp add: ulpOf_def)
  show ?thesis
  proof (cases "?e = 53")
    case True
    then have "(2::rat) ^ 53 \<le> of_nat n" using binade_bounds(1) [OF pos] by (simp add: power_int_def)
    then have "n = 2 ^ 53" using assms by (metis of_nat_le_iff of_nat_numeral of_nat_power order_antisym)
    moreover have "(of_nat (2 ^ 53) :: rat) / 2 = of_int (2 ^ 52)" by simp
    ultimately show ?thesis using True u False by (simp add: rnd_def del: roundEven_int) (metis roundEven_int of_int_numeral)
  next
    case False': False
    define k where "k = nat (52 - ?e)"
    have "ulpOf (of_nat n) = 1 / 2 ^ k" using le False' u by (simp add: k_def power_int_def field_simps)
    then have "(of_nat n :: rat) / ulpOf (of_nat n) = of_int (int n * 2 ^ k)" by simp
    then have "rnd (of_nat n) = of_int (int n * 2 ^ k) * ulpOf (of_nat n)" using False by (simp only: rnd_def roundEven_int) simp
    then show ?thesis using \<open>ulpOf (of_nat n) = 1 / 2 ^ k\<close> by simp
  qed
qed simp

section \<open>The quotient of two counters\<close>

definition floatRatio :: "nat \<Rightarrow> nat \<Rightarrow> rat" where
  "floatRatio s t = rnd (rnd (of_nat s) / rnd (of_nat t))"

lemma small_normal: "1 / 2 ^ 65 \<le> x \<Longrightarrow> 2 powi (- 1022) \<le> (x::rat)"
proof -
  assume "1 / 2 ^ 65 \<le> x"
  moreover have "(1::rat) / 2 ^ 65 = 2 powi (- 65)" by (simp only: power_int_minus power_int_numeral divide_inverse mult_1_left)
  ultimately show ?thesis using powi_2_mono [of "- 1022" "- 65"] by simp
qed

lemma rnd_counter:
  assumes "0 < n"
  shows "1 \<le> rnd (of_nat n)" "\<bar>rnd (of_nat n) - of_nat n\<bar> \<le> of_nat n / 2 ^ 53"
proof -
  have n: "(1::rat) \<le> of_nat n" using assms by simp
  have normal: "2 powi (- 1022) \<le> (1::rat)" using small_normal [of 1] by simp
  have "rnd (of_nat 1) \<le> rnd (of_nat n)" using rnd_mono [OF normal n] by simp
  moreover have "rnd (of_nat 1) = 1" using rnd_nat [of 1] by simp
  ultimately show "1 \<le> rnd (of_nat n)" by linarith
  have "2 powi (- 1022) \<le> \<bar>of_nat n :: rat\<bar>" using normal n by linarith
  from rnd_relative [OF this] show "\<bar>rnd (of_nat n) - of_nat n\<bar> \<le> of_nat n / 2 ^ 53" by simp
qed

lemma quotient_normal:
  assumes "0 < s" "0 < t" "t < 2 ^ 64"
  shows "2 powi (- 1022) \<le> rnd (of_nat s) / rnd (of_nat t)"
proof -
  have "(of_nat t :: rat) < 2 ^ 64" using assms(3) by (metis of_nat_less_iff of_nat_numeral of_nat_power)
  moreover have "rnd (of_nat t) - of_nat t \<le> of_nat t / 2 ^ 53" using rnd_counter(2) [OF assms(2)] by (rule order_trans [OF abs_ge_self])
  ultimately have "rnd (of_nat t) \<le> 2 ^ 65" by simp
  with rnd_counter(1) [OF assms(1)] rnd_counter(1) [OF assms(2)] have "1 / 2 ^ 65 \<le> rnd (of_nat s) / rnd (of_nat t)"
    by (intro frac_le) auto
  then show ?thesis by (rule small_normal)
qed

lemma floatRatio_bounds:
  assumes "s \<le> t" "0 < t" "t < 2 ^ 64"
  shows "0 \<le> floatRatio s t" "floatRatio s t \<le> 1" "floatRatio s t = 0 \<longleftrightarrow> s = 0"
proof -
  have "0 < floatRatio s t \<and> floatRatio s t \<le> 1" if s: "0 < s"
  proof -
    let ?q = "rnd (of_nat s) / rnd (of_nat t)"
    note q = quotient_normal [OF s assms(2,3)]
    have "2 powi (- 1022) \<le> (of_nat s :: rat)" using s small_normal [of "of_nat s"] by simp
    then have "rnd (of_nat s) \<le> rnd (of_nat t)" using assms(1) by (intro rnd_mono) auto
    then have "?q \<le> 1" using rnd_counter(1) [OF assms(2)] by simp
    then have "floatRatio s t \<le> rnd (of_nat 1)" unfolding floatRatio_def using rnd_mono [OF q] by simp
    moreover have "rnd (2 powi (- 1022)) \<le> floatRatio s t" unfolding floatRatio_def by (rule rnd_mono [OF order_refl q])
    moreover have "2 powi (- 1022) \<le> rnd (2 powi (- 1022))" by (rule rnd_binade) (simp_all add: powi_2_Suc)
    ultimately show ?thesis using rnd_nat [of 1] powi_2_pos [of "- 1022"] by simp
  qed
  moreover have "floatRatio 0 t = 0" by (simp add: floatRatio_def)
  ultimately show "0 \<le> floatRatio s t" "floatRatio s t \<le> 1" "floatRatio s t = 0 \<longleftrightarrow> s = 0"
    by (cases "s = 0"; force)+
qed

text \<open>Three roundings, each with a relative error of at most \<open>2 ^ -53\<close>.\<close>

lemma three_roundings:
  fixes a b s t r \<delta> :: rat
  assumes a: "\<bar>a - s\<bar> \<le> s * \<delta>" and b: "\<bar>b - t\<bar> \<le> t * \<delta>" and r: "\<bar>r - a / b\<bar> \<le> a / b * \<delta>"
    and pos: "0 < s" "0 < t" "0 < a" "0 < b" and \<delta>: "0 \<le> \<delta>" "\<delta> \<le> 1 / 5"
  shows "\<bar>r - s / t\<bar> \<le> s / t * (4 * \<delta>)"
proof -
  have sq: "5 * (\<delta> * \<delta>) \<le> \<delta>" using mult_left_mono [OF \<delta>(2) \<delta>(1)] by simp
  have st: "0 < s / t" using pos by simp
  have rq: "r \<le> q * (1 + \<delta>)" "q * (1 - \<delta>) \<le> r" if "\<bar>r - q\<bar> \<le> q * \<delta>" for q
    using that by (simp_all add: abs_le_iff algebra_simps)
  have up: "a / b \<le> s / t * ((1 + \<delta>) / (1 - \<delta>))"
  proof -
    have "a / b \<le> (s * (1 + \<delta>)) / (t * (1 - \<delta>))" using a b pos \<delta> by (intro frac_le) (auto simp: algebra_simps abs_le_iff)
    then show ?thesis by (simp add: mult.commute)
  qed
  have lo: "s / t * ((1 - \<delta>) / (1 + \<delta>)) \<le> a / b"
  proof -
    have "(s * (1 - \<delta>)) / (t * (1 + \<delta>)) \<le> a / b" using a b pos \<delta> by (intro frac_le) (auto simp: algebra_simps abs_le_iff)
    then show ?thesis by (simp add: mult.commute)
  qed
  have "r \<le> a / b * (1 + \<delta>)" by (rule rq(1) [OF r])
  also have "\<dots> \<le> s / t * ((1 + \<delta>) / (1 - \<delta>)) * (1 + \<delta>)" using up \<delta> by (intro mult_right_mono) auto
  also have "\<dots> \<le> s / t * (1 + 4 * \<delta>)"
  proof -
    have "(1 + \<delta>) * (1 + \<delta>) \<le> (1 + 4 * \<delta>) * (1 - \<delta>)" using sq by (simp add: algebra_simps)
    then have "(1 + \<delta>) / (1 - \<delta>) * (1 + \<delta>) \<le> 1 + 4 * \<delta>" using \<delta> by (simp add: divide_le_eq)
    from mult_left_mono [OF this, of "s / t"] st show ?thesis by (simp add: mult.assoc less_imp_le)
  qed
  finally have 1: "r \<le> s / t * (1 + 4 * \<delta>)" .
  have "s / t * (1 - 4 * \<delta>) \<le> s / t * ((1 - \<delta>) / (1 + \<delta>)) * (1 - \<delta>)"
  proof -
    have "(1 - 4 * \<delta>) * (1 + \<delta>) \<le> (1 - \<delta>) * (1 - \<delta>)" using \<delta>(1) by (simp add: algebra_simps)
    then have "1 - 4 * \<delta> \<le> (1 - \<delta>) / (1 + \<delta>) * (1 - \<delta>)" using \<delta> by (simp add: le_divide_eq)
    from mult_left_mono [OF this, of "s / t"] st show ?thesis by (simp add: mult.assoc less_imp_le)
  qed
  also have "\<dots> \<le> a / b * (1 - \<delta>)" using lo \<delta> by (intro mult_right_mono) auto
  also have "\<dots> \<le> r" by (rule rq(2) [OF r])
  finally have 2: "s / t * (1 - 4 * \<delta>) \<le> r" .
  have dist: "\<bar>r - x\<bar> \<le> x * (4 * \<delta>)" if "r \<le> x * (1 + 4 * \<delta>)" "x * (1 - 4 * \<delta>) \<le> r" for x
    using that by (simp add: abs_le_iff algebra_simps)
  from 1 2 show ?thesis by (rule dist)
qed

lemma floatRatio_relative:
  assumes "0 < t" "t < 2 ^ 64"
  shows "\<bar>floatRatio s t - of_nat s / of_nat t\<bar> \<le> of_nat s / of_nat t / 2 ^ 51"
proof (cases "s = 0")
  case False
  then have s: "0 < s" by simp
  let ?q = "rnd (of_nat s) / rnd (of_nat t)"
  have pos: "0 < rnd (of_nat s)" "0 < rnd (of_nat t)" using rnd_counter(1) [OF s] rnd_counter(1) [OF assms(1)] by linarith+
  then have "\<bar>floatRatio s t - ?q\<bar> \<le> ?q / 2 ^ 53"
    using rnd_relative [of ?q] quotient_normal [OF s assms] unfolding floatRatio_def by simp
  with three_roundings [of "rnd (of_nat s)" "of_nat s" "1 / 2 ^ 53" "rnd (of_nat t)" "of_nat t" "floatRatio s t"]
    rnd_counter(2) [OF s] rnd_counter(2) [OF assms(1)] s assms pos
  show ?thesis by simp
qed (simp add: floatRatio_def)

lemma floatRatio_exact: "s \<le> 2 ^ 53 \<Longrightarrow> t \<le> 2 ^ 53 \<Longrightarrow> floatRatio s t = rnd (of_nat s / of_nat t)"
  by (simp add: floatRatio_def rnd_nat)

end
