(* ===== verification/Observability.thy ===== *)
theory Observability
  imports Auth Go_Float
begin

text \<open>
  Metrics and health, \<^verbatim>\<open>internal/observability\<close>. Prometheus is a library outside the repository: a
  metric vector is known by the name of the field that holds it, what the gateway asks of the
  library is a list of events, so that nothing is assumed about how samples are stored, and whether
  the registry accepts a metric is a parameter. Only the success rate is computed by the gateway
  itself (\<^verbatim>\<open>requestMetricStats\<close>), with unsigned 64-bit counters and the floating-point numbers of
  \<open>Go_Float\<close>.
\<close>

section \<open>Descriptions\<close>

datatype metricKind = Counter | Gauge | Histogram "rat list"

record metricDesc =
  md_Field :: string
  md_Kind :: metricKind
  md_Namespace :: string
  md_Name :: string
  md_Labels :: "string list"

definition tokenBuckets :: "rat list" where
  "tokenBuckets = map rnd [5/100, 1/10, 2/10, 3/10, 5/10, 8/10, 1, 15/10, 2, 3, 5, 10, 20, 30]"

definition requestBuckets :: "rat list" where
  "requestBuckets = tokenBuckets @ map rnd [60, 120]"

definition metricDescs :: "string \<Rightarrow> metricDesc list" where
  "metricDescs namespace = [
     \<lparr>md_Field = ''RequestsTotal'', md_Kind = Counter, md_Namespace = namespace, md_Name = ''requests_total'',
      md_Labels = [''backend'', ''result'']\<rparr>,
     \<lparr>md_Field = ''RequestDuration'', md_Kind = Histogram requestBuckets, md_Namespace = namespace, md_Name = ''request_duration_seconds'',
      md_Labels = [''backend'', ''result'']\<rparr>,
     \<lparr>md_Field = ''RequestSuccessRate'', md_Kind = Gauge, md_Namespace = namespace, md_Name = ''request_success_rate'',
      md_Labels = [''backend'']\<rparr>,
     \<lparr>md_Field = ''FirstTokenDuration'', md_Kind = Histogram tokenBuckets, md_Namespace = ''aegis'', md_Name = ''first_token_duration_seconds'',
      md_Labels = [''model'']\<rparr>,
     \<lparr>md_Field = ''FallbacksTotal'', md_Kind = Counter, md_Namespace = namespace, md_Name = ''fallbacks_total'',
      md_Labels = [''from_model'', ''to_model'', ''reason'']\<rparr>,
     \<lparr>md_Field = ''UpstreamErrorsTotal'', md_Kind = Counter, md_Namespace = namespace, md_Name = ''upstream_errors_total'',
      md_Labels = [''backend'', ''reason'']\<rparr>,
     \<lparr>md_Field = ''CircuitBreakerState'', md_Kind = Gauge, md_Namespace = namespace, md_Name = ''circuit_breaker_state'',
      md_Labels = [''backend'']\<rparr>,
     \<lparr>md_Field = ''TokenUsageTotal'', md_Kind = Counter, md_Namespace = namespace, md_Name = ''token_usage_total'',
      md_Labels = [''identity'', ''model'', ''type'', ''estimated'']\<rparr>,
     \<lparr>md_Field = ''TokenBudgetRemaining'', md_Kind = Gauge, md_Namespace = namespace, md_Name = ''token_budget_remaining'',
      md_Labels = [''identity'']\<rparr>,
     \<lparr>md_Field = ''TokenBudgetRejectedTotal'', md_Kind = Counter, md_Namespace = namespace, md_Name = ''token_budget_rejected_total'',
      md_Labels = [''identity'', ''model'']\<rparr>]"

section \<open>The success rate\<close>

definition RequestResultSuccess :: string where "RequestResultSuccess = ''success''"
definition RequestResultFailure :: string where "RequestResultFailure = ''failure''"

record requestMetricCount =
  mc_success :: "64 word"
  mc_total :: "64 word"

type_synonym requestMetricStats = "string \<rightharpoonup> requestMetricCount"

definition newRequestMetricStats :: requestMetricStats where
  "newRequestMetricStats = Map.empty"

definition observe :: "requestMetricStats \<Rightarrow> string \<Rightarrow> string \<Rightarrow> requestMetricStats \<times> rat" where
  "observe s backend result =
     (let c0 = (case s backend of Some c \<Rightarrow> c | None \<Rightarrow> \<lparr>mc_success = 0, mc_total = 0\<rparr>);
          c1 = c0\<lparr>mc_total := mc_total c0 + 1\<rparr>;
          c2 = (if result = RequestResultSuccess then c1\<lparr>mc_success := mc_success c1 + 1\<rparr> else c1)
      in (s(backend \<mapsto> c2),
          if mc_total c2 = 0 then 0 else rnd (rnd (of_nat (unat (mc_success c2))) / rnd (of_nat (unat (mc_total c2))))))"

section \<open>Metrics\<close>

datatype metricEvent =
    AddTo string "string list" rat
  | ObserveIn string "string list" rat
  | SetTo string "string list" rat

text \<open>\<open>m_vecs\<close> are the fields that are not nil.\<close>

record Metrics =
  m_vecs :: "string list"
  m_stats :: "requestMetricStats option"
  m_events :: "metricEvent list"

definition metricsNamespace :: "string \<Rightarrow> string" where
  "metricsNamespace namespace = (if TrimSpace namespace = [] then ''gateway'' else TrimSpace namespace)"

text \<open>
  What \<^verbatim>\<open>MustRegister\<close> gets, in its order, the two gauge functions last. \<open>register\<close> is the registry of the
  library: given what is registered, whether it accepts one more metric. \<^verbatim>\<open>MustRegister\<close> panics at the
  first one that is not accepted (\<open>None\<close>).
\<close>

type_synonym promRegistry = "metricDesc list \<Rightarrow> metricDesc \<Rightarrow> bool"

definition gaugeFunc :: "string \<Rightarrow> string \<Rightarrow> metricDesc" where
  "gaugeFunc namespace name = \<lparr>md_Field = [], md_Kind = Gauge, md_Namespace = namespace, md_Name = name, md_Labels = []\<rparr>"

definition registered :: "string \<Rightarrow> metricDesc list" where
  "registered namespace =
     map (\<lambda>field. the (find (\<lambda>d. md_Field d = field) (metricDescs namespace)))
       [''CircuitBreakerState'', ''FallbacksTotal'', ''FirstTokenDuration'', ''RequestDuration'', ''RequestSuccessRate'', ''RequestsTotal'',
        ''TokenBudgetRejectedTotal'', ''TokenBudgetRemaining'', ''TokenUsageTotal'', ''UpstreamErrorsTotal''] @
     [gaugeFunc namespace ''up'', gaugeFunc namespace ''ready'']"

fun MustRegister :: "promRegistry \<Rightarrow> metricDesc list \<Rightarrow> metricDesc list \<Rightarrow> metricDesc list option" where
  "MustRegister register known [] = Some known"
| "MustRegister register known (d # ds) = (if register known d then MustRegister register (known @ [d]) ds else None)"

definition NewMetrics :: "promRegistry \<Rightarrow> string \<Rightarrow> Metrics option" where
  "NewMetrics register namespace =
     (let ns = metricsNamespace namespace
      in map_option (\<lambda>_. \<lparr>m_vecs = map md_Field (metricDescs ns), m_stats = Some newRequestMetricStats, m_events = []\<rparr>)
           (MustRegister register [] (registered ns)))"

definition readyGauge :: "(unit \<Rightarrow> bool) option \<Rightarrow> rat" where
  "readyGauge ready = (case ready of Some f \<Rightarrow> if f () then 1 else 0 | None \<Rightarrow> 0)"

definition emit :: "string \<Rightarrow> (string \<Rightarrow> metricEvent) \<Rightarrow> Metrics \<Rightarrow> Metrics" where
  "emit vec ev m = (if vec \<in> set (m_vecs m) then m\<lparr>m_events := m_events m @ [ev vec]\<rparr> else m)"

fun ObserveModelBackendRequest :: "string \<Rightarrow> string \<Rightarrow> duration \<Rightarrow> Metrics option \<Rightarrow> Metrics option" where
  "ObserveModelBackendRequest backend result d None = None"
| "ObserveModelBackendRequest backend result d (Some m) =
     (let result' = (if result = [] then RequestResultFailure else result);
          d' = (if d < 0 then 0 else d);
          m1 = emit ''RequestsTotal'' (\<lambda>v. AddTo v [backend, result'] 1) m;
          m2 = emit ''RequestDuration'' (\<lambda>v. ObserveIn v [backend, result'] (Seconds d')) m1
      in case m_stats m2 of
           Some s \<Rightarrow>
             if ''RequestSuccessRate'' \<in> set (m_vecs m2) then
               (case observe s backend result' of
                  (s', rate) \<Rightarrow> Some (emit ''RequestSuccessRate'' (\<lambda>v. SetTo v [backend] rate) (m2\<lparr>m_stats := Some s'\<rparr>)))
             else Some m2
         | None \<Rightarrow> Some m2)"

definition ObserveFirstToken :: "string \<Rightarrow> duration \<Rightarrow> Metrics option \<Rightarrow> Metrics option" where
  "ObserveFirstToken model d m = map_option (emit ''FirstTokenDuration'' (\<lambda>v. ObserveIn v [model] (Seconds d))) m"

definition ObserveModelFallback :: "string \<Rightarrow> string \<Rightarrow> string \<Rightarrow> Metrics option \<Rightarrow> Metrics option" where
  "ObserveModelFallback fromModel toModel reason m =
     map_option (emit ''FallbacksTotal'' (\<lambda>v. AddTo v [fromModel, toModel, reason] 1)) m"

definition ObserveUpstreamError :: "string \<Rightarrow> string \<Rightarrow> Metrics option \<Rightarrow> Metrics option" where
  "ObserveUpstreamError backend reason m = map_option (emit ''UpstreamErrorsTotal'' (\<lambda>v. AddTo v [backend, reason] 1)) m"

definition SetCircuitBreakerState :: "string \<Rightarrow> rat \<Rightarrow> Metrics option \<Rightarrow> Metrics option" where
  "SetCircuitBreakerState backend st m = map_option (emit ''CircuitBreakerState'' (\<lambda>v. SetTo v [backend] st)) m"

definition FormatBool :: "bool \<Rightarrow> string" where
  "FormatBool b = (if b then ''true'' else ''false'')"

definition addTokens :: "string list \<Rightarrow> int \<Rightarrow> Metrics \<Rightarrow> Metrics" where
  "addTokens labels n m = (if n > 0 then emit ''TokenUsageTotal'' (\<lambda>v. AddTo v labels (rnd (of_int n))) m else m)"

definition ObserveTokenUsage :: "string \<Rightarrow> string \<Rightarrow> int \<Rightarrow> int \<Rightarrow> int \<Rightarrow> bool \<Rightarrow> Metrics option \<Rightarrow> Metrics option" where
  "ObserveTokenUsage identity model promptTokens completionTokens totalTokens estimated m =
     map_option (\<lambda>m. addTokens [identity, model, ''total'', FormatBool estimated] totalTokens
       (addTokens [identity, model, ''completion'', FormatBool estimated] completionTokens
         (addTokens [identity, model, ''prompt'', FormatBool estimated] promptTokens m))) m"

definition SetTokenBudgetRemaining :: "string \<Rightarrow> int \<Rightarrow> Metrics option \<Rightarrow> Metrics option" where
  "SetTokenBudgetRemaining identity remaining m =
     map_option (emit ''TokenBudgetRemaining'' (\<lambda>v. SetTo v [identity] (rnd (of_int (if remaining < 0 then 0 else remaining))))) m"

definition ObserveTokenBudgetRejected :: "string \<Rightarrow> string \<Rightarrow> Metrics option \<Rightarrow> Metrics option" where
  "ObserveTokenBudgetRejected identity model m =
     map_option (emit ''TokenBudgetRejectedTotal'' (\<lambda>v. AddTo v [identity, model] 1)) m"

section \<open>Health\<close>

text \<open>\<open>st_Ready\<close> is the function \<^verbatim>\<open>Ready\<close>, called when a request is served.\<close>

record State =
  st_ServiceName :: string
  st_StartTime :: time
  st_MetricsNamespace :: string
  st_Ready :: "(unit \<Rightarrow> bool) option"

definition normalizeState :: "time \<Rightarrow> State \<Rightarrow> State" where
  "normalizeState now s =
     (let s1 = (if st_ServiceName s = [] then s\<lparr>st_ServiceName := ''telemetry-gateway''\<rparr> else s);
          s2 = (if st_StartTime s1 = zeroTime then s1\<lparr>st_StartTime := now\<rparr> else s1)
      in if st_MetricsNamespace s2 = [] then s2\<lparr>st_MetricsNamespace := ''gateway''\<rparr> else s2)"

definition isReady :: "State \<Rightarrow> bool" where
  "isReady s = (case st_Ready s of Some f \<Rightarrow> f () | None \<Rightarrow> False)"

text \<open>The JSON of a map has its keys in order. The conversion of the seconds to an integer truncates.\<close>

definition truncate :: "rat \<Rightarrow> int" where
  "truncate x = (if x < 0 then \<lceil>x\<rceil> else \<lfloor>x\<rfloor>)"

definition healthHandler :: "time \<Rightarrow> State \<Rightarrow> 's handler" where
  "healthHandler now state s r w =
     (if rq_Method r \<noteq> ''GET'' then (s, WriteHeader 405 w)
      else (s, writeJSON 200 (enc_obj [(''service'', quote (st_ServiceName state)), (''status'', quote ''ok''),
             (''uptime_seconds'', Itoa (truncate (Seconds (timeSub now (st_StartTime state)))))]) w))"

definition readyHandler :: "State \<Rightarrow> 's handler" where
  "readyHandler state s r w =
     (if rq_Method r \<noteq> ''GET'' then (s, WriteHeader 405 w)
      else if \<not> isReady state then
        (s, writeJSON 503 (enc_obj [(''service'', quote (st_ServiceName state)), (''status'', quote ''not_ready'')]) w)
      else (s, writeJSON 200 (enc_obj [(''service'', quote (st_ServiceName state)), (''status'', quote ''ready'')]) w))"

section \<open>Properties\<close>

definition observeAll :: "(string \<times> string) list \<Rightarrow> requestMetricStats \<Rightarrow> requestMetricStats" where
  "observeAll obs s = fold (\<lambda>(b, res) s. fst (observe s b res)) obs s"

definition countOf :: "requestMetricStats \<Rightarrow> string \<Rightarrow> requestMetricCount" where
  "countOf s b = (case s b of Some c \<Rightarrow> c | None \<Rightarrow> \<lparr>mc_success = 0, mc_total = 0\<rparr>)"

definition requestsOf :: "string \<Rightarrow> (string \<times> string) list \<Rightarrow> nat" where
  "requestsOf b obs = length (filter (\<lambda>(b', _). b' = b) obs)"

definition successesOf :: "string \<Rightarrow> (string \<times> string) list \<Rightarrow> nat" where
  "successesOf b obs = length (filter (\<lambda>(b', res). b' = b \<and> res = RequestResultSuccess) obs)"

lemma count_bounds: "successesOf b obs \<le> requestsOf b obs" "requestsOf b obs \<le> length obs"
proof -
  show "successesOf b obs \<le> requestsOf b obs"
    unfolding successesOf_def requestsOf_def by (induction obs) (simp_all add: case_prod_beta le_SucI)
  show "requestsOf b obs \<le> length obs" by (simp add: requestsOf_def)
qed

lemma countOf_observe:
  "countOf (fst (observe s b res)) b' =
     (if b' = b then \<lparr>mc_success = mc_success (countOf s b) + (if res = RequestResultSuccess then 1 else 0),
        mc_total = mc_total (countOf s b) + 1\<rparr>
      else countOf s b')"
  by (simp add: observe_def countOf_def Let_def split: option.split)

lemma countOf_observeAll:
  "countOf (observeAll obs newRequestMetricStats) b =
     \<lparr>mc_success = of_nat (successesOf b obs), mc_total = of_nat (requestsOf b obs)\<rparr>"
proof (induction obs rule: rev_induct)
  case Nil
  then show ?case by (simp add: observeAll_def countOf_def newRequestMetricStats_def successesOf_def requestsOf_def)
next
  case (snoc o1 obs)
  obtain b1 res where o1: "o1 = (b1, res)" by (cases o1)
  have "observeAll (obs @ [o1]) newRequestMetricStats = fst (observe (observeAll obs newRequestMetricStats) b1 res)"
    by (simp add: observeAll_def o1)
  with snoc show ?case
    by (cases "b = b1") (auto simp: countOf_observe o1 successesOf_def requestsOf_def add.commute)
qed

lemma observe_rate:
  "snd (observe s b res) =
     (let c = countOf (fst (observe s b res)) b
      in if mc_total c = 0 then 0 else floatRatio (unat (mc_success c)) (unat (mc_total c)))"
  by (simp add: observe_def countOf_def floatRatio_def Let_def split: option.split)

lemma observed_rate:
  assumes "length obs < 2 ^ 64 - 1"
  shows "snd (observe (observeAll obs newRequestMetricStats) b res) =
      floatRatio (successesOf b (obs @ [(b, res)])) (requestsOf b (obs @ [(b, res)]))"
    and "0 < requestsOf b (obs @ [(b, res)])" "requestsOf b (obs @ [(b, res)]) < 2 ^ 64"
proof -
  let ?obs = "obs @ [(b, res)]"
  have c: "countOf (fst (observe (observeAll obs newRequestMetricStats) b res)) b =
      \<lparr>mc_success = of_nat (successesOf b ?obs), mc_total = of_nat (requestsOf b ?obs)\<rparr>"
    using countOf_observeAll [of ?obs b] by (simp add: observeAll_def)
  show pos: "0 < requestsOf b ?obs" by (simp add: requestsOf_def)
  show less: "requestsOf b ?obs < 2 ^ 64" using assms count_bounds [of b ?obs] by simp
  then have "successesOf b ?obs < 2 ^ 64" using count_bounds(1) [of b ?obs] by simp
  with less have u: "unat (of_nat (requestsOf b ?obs) :: 64 word) = requestsOf b ?obs"
      "unat (of_nat (successesOf b ?obs) :: 64 word) = successesOf b ?obs"
    by (simp_all add: unat_of_nat take_bit_nat_eq_self_iff)
  then have nz: "(of_nat (requestsOf b ?obs) :: 64 word) \<noteq> 0"
    using pos by (metis unat_0 less_irrefl)
  show "snd (observe (observeAll obs newRequestMetricStats) b res) = floatRatio (successesOf b ?obs) (requestsOf b ?obs)"
    using u nz by (simp add: observe_rate c Let_def)
qed

text \<open>C35. The success rate that is published for a backend is the share of its requests that succeeded since the start,
  whatever happened at other backends in between, as a \<^verbatim>\<open>float64\<close>: it lies between 0 and 1, is 0 only if no request
  succeeded, and differs from the exact share by a relative error of at most $2^{-51}$; as long as the gateway has seen
  less than $2^{53}$ requests it is the exact share correctly rounded. This holds for up to $2^{64} - 1$ requests, before
  the counters wrap.\<close>

theorem success_rate_accurate:
  assumes "length obs < 2 ^ 64 - 1"
  shows "let rate = snd (observe (observeAll obs newRequestMetricStats) b res);
      share = of_nat (successesOf b (obs @ [(b, res)])) / of_nat (requestsOf b (obs @ [(b, res)]))
    in 0 \<le> rate \<and> rate \<le> 1 \<and> (rate = 0 \<longleftrightarrow> successesOf b (obs @ [(b, res)]) = 0) \<and>
      \<bar>rate - share\<bar> \<le> share / 2 ^ 51 \<and> (length obs < 2 ^ 53 \<longrightarrow> rate = rnd share)"
proof -
  let ?obs = "obs @ [(b, res)]"
  note r = observed_rate [OF assms, of b res]
  have "floatRatio (successesOf b ?obs) (requestsOf b ?obs) = rnd (of_nat (successesOf b ?obs) / of_nat (requestsOf b ?obs))"
    if "length obs < 2 ^ 53"
    by (rule floatRatio_exact) (use that count_bounds [of b ?obs] in simp_all)
  then show ?thesis
    using floatRatio_bounds [OF count_bounds(1) r(2,3)] floatRatio_relative [OF r(2,3)] unfolding r(1) Let_def by blast
qed

theorem success_rate_accurate_witness:
  "snd (observe (observeAll [(''a'', ''success''), (''b'', ''failure''), (''a'', ''failure'')] newRequestMetricStats) ''a'' ''success'') =
     6004799503160661 / 9007199254740992"
proof -
  have "rnd (2 / 3) = 6004799503160661 / 9007199254740992" by code_simp
  then show ?thesis
    using success_rate_accurate [of "[(''a'', ''success''), (''b'', ''failure''), (''a'', ''failure'')]" "''a''" "''success''"]
    by (simp add: successesOf_def requestsOf_def RequestResultSuccess_def Let_def)
qed

section \<open>Registration\<close>

text \<open>
  What the gateway relies on: the registry accepts each metric of the namespace, unless a metric with the same full
  name is registered already. The full name joins the namespace and the name with an underscore.
\<close>

definition fqName :: "metricDesc \<Rightarrow> string" where
  "fqName d = md_Namespace d @ ''_'' @ md_Name d"

definition promAccepts :: "promRegistry \<Rightarrow> string \<Rightarrow> bool" where
  "promAccepts register namespace \<longleftrightarrow>
     (\<forall>known. \<forall>d \<in> set (registered namespace). fqName d \<notin> fqName ` set known \<longrightarrow> register known d)"

lemma MustRegister_accepts:
  "\<forall>known. \<forall>d \<in> set ds. fqName d \<notin> fqName ` set known \<longrightarrow> register known d \<Longrightarrow> distinct (map fqName (known @ ds)) \<Longrightarrow>
    MustRegister register known ds = Some (known @ ds)"
proof (induction ds arbitrary: known)
  case (Cons d ds)
  have "fqName d \<notin> fqName ` set known" using Cons.prems(2) by auto
  then have "register known d" using Cons.prems(1) by simp
  moreover have "MustRegister register (known @ [d]) ds = Some ((known @ [d]) @ ds)"
    by (rule Cons.IH) (use Cons.prems in auto)
  ultimately show ?case by simp
qed simp

lemma other_suffix: "drop (length zs - length ys) zs \<noteq> ys \<Longrightarrow> xs @ ys \<noteq> zs"
  by auto

text \<open>The names of the metrics differ whatever the namespace is, also from the one that always is in the namespace aegis.\<close>

lemma registered_distinct: "distinct (map fqName (registered namespace))"
proof -
  note other = other_suffix [of "''aegis_first_token_duration_seconds''" _ namespace]
  show ?thesis
    by (simp add: registered_def metricDescs_def gaugeFunc_def fqName_def other other [symmetric])
qed

lemma new_metrics_total:
  assumes "promAccepts register (metricsNamespace namespace)"
  shows "NewMetrics register namespace \<noteq> None"
  using MustRegister_accepts [of "registered (metricsNamespace namespace)" register "[]"] assms registered_distinct
  by (simp add: NewMetrics_def promAccepts_def Let_def)

end
