(* ===== verification/Llm_Requests.thy ===== *)
theory Llm_Requests
  imports Fallback Circuit_Breaker Go_Net Sse Token_Usage Tracing Observability
    "HOL-Library.Char_ord" "HOL-Library.List_Lexorder"
begin

text \<open>
  The data of the chat handler, \<^verbatim>\<open>internal/llm\<close>: requests and responses (\<^verbatim>\<open>types.go\<close>,
  \<^verbatim>\<open>content.go\<close>, \<^verbatim>\<open>response.go\<close>), backends (\<^verbatim>\<open>backend.go\<close>), the rewriting of a request for a fallback
  model (\<^verbatim>\<open>request_body.go\<close>), the handler with its tables (\<^verbatim>\<open>handler.go\<close>), what a handler needs from
  outside (\<open>env\<close>), and the mock backend (\<^verbatim>\<open>mock.go\<close>).
\<close>

section \<open>Backends\<close>

record modelBackend =
  mb_cfg :: ModelBackendConfig
  mb_backendType :: string
  mb_chatCompletionsURL :: string

record modelInfo =
  mi_ID :: string
  mi_Backend :: string

definition normalizeBackendType :: "string \<Rightarrow> string" where
  "normalizeBackendType v =
     (let t = ToLower (TrimSpace v)
      in if t = ''openai'' \<or> t = ''openai_compatible'' \<or> t = ''openai-compatible'' then ''openai_compatible'' else ''mock'')"

definition chatCompletionsURL :: "string \<Rightarrow> string" where
  "chatCompletionsURL baseURL =
     (let base = TrimRight (TrimSpace baseURL) ''/''
      in if HasSuffix base ''/chat/completions'' then base
         else if HasSuffix base ''/v1'' then base @ ''/chat/completions''
         else base @ ''/v1/chat/completions'')"

section \<open>Requests\<close>

record chatCompletionRequest =
  cr_Model :: string
  cr_Messages :: "chatMessage slice"
  cr_Stream :: bool

definition setChatRequest :: "string \<Rightarrow> string \<Rightarrow> json \<Rightarrow> chatCompletionRequest \<Rightarrow> chatCompletionRequest option" where
  "setChatRequest f raw v q =
     (if f = ''model'' then map_option (\<lambda>x. q\<lparr>cr_Model := x\<rparr>) (decString (cr_Model q) v)
      else if f = ''messages'' then map_option (\<lambda>x. q\<lparr>cr_Messages := x\<rparr>) (decSlice zeroMessage decMessage (cr_Messages q) v)
      else map_option (\<lambda>x. q\<lparr>cr_Stream := x\<rparr>) (decBool (cr_Stream q) v))"

definition decChatRequest :: "string \<Rightarrow> chatCompletionRequest option" where
  "decChatRequest body =
     Option.bind (parse_json body) (decStruct [''model'', ''messages'', ''stream''] setChatRequest
       \<lparr>cr_Model = [], cr_Messages = emptySlice, cr_Stream = False\<rparr>)"

text \<open>\<^verbatim>\<open>content.go\<close> repeats the three functions of \<^verbatim>\<open>tokenusage/usage.go\<close>.\<close>

definition llm_messageContentText :: "chatMessage \<Rightarrow> string" where
  "llm_messageContentText m = messageContentText m"

definition llm_estimatePromptTokens :: "chatMessage list \<Rightarrow> int" where
  "llm_estimatePromptTokens ms = estimatePromptTokens ms"

definition llm_estimateTokens :: "string \<Rightarrow> int" where
  "llm_estimateTokens t = estimateTokens t"

text \<open>
  \<^verbatim>\<open>rewriteRequestModel\<close>: the body as a map from keys to raw values, of which the last of a repeated
  key stays; a map is written with its keys in the order of their bytes. Storing into the nil map that
  a body of \<^verbatim>\<open>null\<close> leaves is a panic.
\<close>

datatype rewriteError = BadJSON | NilMapPanic

definition rewritePayload :: "(string \<times> string \<times> json) list \<Rightarrow> string \<Rightarrow> (string \<times> string) list" where
  "rewritePayload ms model =
     sort_key fst (AList.update ''model'' (quote model) (fold (\<lambda>(k, raw, _) m. AList.update k raw m) ms []))"

definition rewriteRequestModel :: "string \<Rightarrow> string \<Rightarrow> rewriteError + string" where
  "rewriteRequestModel rawBody model =
     (case parse_json rawBody of
        Some (JObj ms) \<Rightarrow>
          Inr (enc_obj (map (\<lambda>(k, raw). (k, case compact raw of Some t \<Rightarrow> t | None \<Rightarrow> [])) (rewritePayload ms model)))
      | Some JNull \<Rightarrow> Inl NilMapPanic
      | _ \<Rightarrow> Inl BadJSON)"

section \<open>Responses\<close>

definition writeOpenAIError :: "int \<Rightarrow> string \<Rightarrow> string \<Rightarrow> string \<Rightarrow> writer \<Rightarrow> writer" where
  "writeOpenAIError status message errorType param w =
     writeJSON status (errorResponse message errorType (if param = [] then None else Some param)) w"

definition requestResultFromStatus :: "int \<Rightarrow> string" where
  "requestResultFromStatus status = (if status \<ge> 200 \<and> status < 400 then RequestResultSuccess else RequestResultFailure)"

text \<open>The \<^verbatim>\<open>%q\<close> of \<^verbatim>\<open>fmt\<close>; every valid rune outside ASCII is taken as printable.\<close>

definition goQuoteRune :: "string \<Rightarrow> string" where
  "goQuoteRune r =
     (if length r = 1 then
        (let c = hd r; b = (of_char c :: nat)
         in if c = CHR 0x22 \<or> c = CHR 0x5C then [CHR 0x5C, c]
            else if b = 7 then [CHR 0x5C, CHR ''a''] else if b = 8 then [CHR 0x5C, CHR ''b'']
            else if b = 12 then [CHR 0x5C, CHR ''f''] else if b = 10 then [CHR 0x5C, CHR ''n'']
            else if b = 13 then [CHR 0x5C, CHR ''r''] else if b = 9 then [CHR 0x5C, CHR ''t'']
            else if b = 11 then [CHR 0x5C, CHR ''v'']
            else if b < 32 \<or> 127 \<le> b then [CHR 0x5C, CHR ''x''] @ hexByte c
            else [c])
      else r)"

definition goQuote :: "string \<Rightarrow> string" where
  "goQuote s = [CHR 0x22] @ concat (map goQuoteRune (runes s)) @ [CHR 0x22]"

section \<open>The handler\<close>

record Handler =
  h_backends :: "string \<rightharpoonup> modelBackend"
  h_models :: "modelInfo list"
  h_requestTimeout :: duration
  h_firstTokenTimeout :: duration
  h_fallbacks :: "string \<Rightarrow> string list"

definition newBackend :: "ModelBackendConfig \<Rightarrow> modelBackend" where
  "newBackend cfg =
     (let t = normalizeBackendType (be_Type cfg)
      in \<lparr>mb_cfg = cfg, mb_backendType = t,
          mb_chatCompletionsURL = (if t \<noteq> ''mock'' then chatCompletionsURL (be_BaseURL cfg) else [])\<rparr>)"

definition addModel :: "modelBackend \<Rightarrow> string \<Rightarrow> Handler \<Rightarrow> Handler" where
  "addModel backend model h =
     (let m = TrimSpace model
      in h\<lparr>h_backends := (h_backends h)(m \<mapsto> backend),
           h_models := h_models h @ [\<lparr>mi_ID = m, mi_Backend = be_Name (mb_cfg backend)\<rparr>]\<rparr>)"

text \<open>\<^verbatim>\<open>NewHandler\<close>: the handler and its circuit breaker, which the requests change; \<open>metrics\<close> says
  whether there is a metrics object. It never returns an error.\<close>

definition NewHandler :: "AIConfig \<Rightarrow> bool \<Rightarrow> Handler \<times> circuitBreaker" where
  "NewHandler cfg0 metrics =
     (let cfg = normalizeAIConfig cfg0;
          h0 = \<lparr>h_backends = Map.empty, h_models = [], h_requestTimeout = ai_RequestTimeout cfg,
                h_firstTokenTimeout = ai_FirstTokenTimeout cfg, h_fallbacks = normalizeFallbacks (ai_Fallbacks cfg)\<rparr>;
          h = fold (\<lambda>b h. fold (addModel (newBackend b)) (be_Models b) h) (ai_Backends cfg) h0
      in (h, newCircuitBreaker (ai_CircuitBreaker cfg) (map be_Name (ai_Backends cfg)) metrics))"

definition modelJSON :: "int \<Rightarrow> modelInfo \<Rightarrow> string" where
  "modelJSON created m = enc_obj [(''id'', quote (mi_ID m)), (''object'', quote ''model''), (''created'', Itoa created),
     (''owned_by'', quote (mi_Backend m))]"

definition ListModels :: "Handler \<Rightarrow> time \<Rightarrow> 's handler" where
  "ListModels h now s r w =
     (if rq_Method r \<noteq> ''GET''
      then (s, writeOpenAIError 405 (zh [0x4EC5, 0x652F, 0x6301, 0x20, 0x47, 0x45, 0x54, 0x20, 0x65B9, 0x6CD5]) ''invalid_request_error'' [] (onHeader (hSet ''Allow'' ''GET'') w))
      else (s, writeJSON 200 (enc_obj [(''object'', quote ''list''), (''data'', enc_arr (map (modelJSON (now div second)) (h_models h)))]) w))"

section \<open>What a request needs from outside\<close>

text \<open>
  The answer of a backend: the error of \<^verbatim>\<open>client.Do\<close>, or status, header and body. \<open>up_waits\<close> says of
  each wait for an event before the first token how the \<^verbatim>\<open>select\<close> ends: the event was read, the
  context was done, or the timer fired.
\<close>

datatype wait = WaitRead | WaitCtx ioError | WaitTimer

record upReply =
  up_err :: "ioError option"
  up_status :: int
  up_header :: Header
  up_body :: reader
  up_waits :: "wait list"

record upstreamRequest =
  ur_URL :: string
  ur_Header :: Header
  ur_Body :: string

text \<open>\<open>ev_net n\<close> is the result of the \<open>n\<close>-th call of \<^verbatim>\<open>client.Do\<close> (after redirects, if there were any), \<open>ev_clock n\<close> is the \<open>n\<close>-th reading of the clock,
  \<open>ev_done n\<close> says whether the context is done at the \<open>n\<close>-th look of the mock stream.\<close>

record env =
  ev_net :: "nat \<Rightarrow> upstreamRequest \<Rightarrow> upReply"
  ev_clock :: "nat \<Rightarrow> time"
  ev_getenv :: "string \<Rightarrow> string"
  ev_propagate :: "Request \<Rightarrow> Header \<Rightarrow> Header"
  ev_done :: "nat \<Rightarrow> bool"

record proxyState =
  px_breaker :: "circuitBreaker option"
  px_metrics :: "Metrics option"
  px_entropy :: entropy
  px_sent :: "upstreamRequest list"
  px_tick :: nat

definition tickNow :: "env \<Rightarrow> proxyState \<Rightarrow> time \<times> proxyState" where
  "tickNow ev st = (ev_clock ev (px_tick st), st\<lparr>px_tick := px_tick st + 1\<rparr>)"

definition onMetrics :: "(Metrics option \<Rightarrow> Metrics option) \<Rightarrow> proxyState \<Rightarrow> proxyState" where
  "onMetrics f st = st\<lparr>px_metrics := f (px_metrics st)\<rparr>"

definition observeBackendRequest :: "string \<Rightarrow> string \<Rightarrow> duration \<Rightarrow> proxyState \<Rightarrow> proxyState" where
  "observeBackendRequest backend result d = onMetrics (ObserveModelBackendRequest backend result d)"

definition observeFallback :: "string \<Rightarrow> string \<Rightarrow> string \<Rightarrow> proxyState \<Rightarrow> proxyState" where
  "observeFallback fromModel toModel reason = onMetrics (ObserveModelFallback fromModel toModel reason)"

definition observeUpstreamError :: "string \<Rightarrow> string \<Rightarrow> proxyState \<Rightarrow> proxyState" where
  "observeUpstreamError backend reason = onMetrics (ObserveUpstreamError backend reason)"

text \<open>\<^verbatim>\<open>newID\<close>: eight random bytes, or the clock when they cannot be read.\<close>

definition newID :: "env \<Rightarrow> string \<Rightarrow> proxyState \<Rightarrow> string \<times> proxyState" where
  "newID ev prefix st =
     (case en_reads (px_entropy st) of
        Some b # rs \<Rightarrow> (prefix @ ''-'' @ hex_encode (fillBuf 8 b), st\<lparr>px_entropy := (px_entropy st)\<lparr>en_reads := rs\<rparr>\<rparr>)
      | None # rs \<Rightarrow> (case tickNow ev (st\<lparr>px_entropy := (px_entropy st)\<lparr>en_reads := rs\<rparr>\<rparr>) of (now, st1) \<Rightarrow> (prefix @ ''-'' @ Itoa now, st1))
      | [] \<Rightarrow> (case tickNow ev st of (now, st1) \<Rightarrow> (prefix @ ''-'' @ Itoa now, st1)))"

section \<open>The mock backend\<close>

definition roleUser :: string where
  "roleUser = ''user''"

definition lastUserText :: "chatMessage list \<Rightarrow> string" where
  "lastUserText ms = (case find (\<lambda>m. cm_Role m = roleUser) (rev ms) of None \<Rightarrow> [] | Some m \<Rightarrow> llm_messageContentText m)"

definition mockContent :: "chatCompletionRequest \<Rightarrow> modelBackend \<Rightarrow> string" where
  "mockContent q backend =
     (let ms = items (cr_Messages q);
          u0 = lastUserText ms;
          u1 = (if TrimSpace u0 = [] \<and> ms \<noteq> [] then llm_messageContentText (last ms) else u0);
          u2 = (if TrimSpace u1 = [] then (zh [0x7A7A, 0x6D88, 0x606F]) else u1)
      in be_Name (mb_cfg backend) @ (zh [0x20, 0x5DF2, 0x6536, 0x5230, 0x8BF7, 0x6C42, 0xFF1A]) @ u2)"

definition completionJSON :: "string \<Rightarrow> int \<Rightarrow> string \<Rightarrow> string \<Rightarrow> int \<Rightarrow> int \<Rightarrow> string" where
  "completionJSON ident created model content promptTokens completionTokens =
     enc_obj [(''id'', quote ident), (''object'', quote ''chat.completion''), (''created'', Itoa created), (''model'', quote model),
       (''choices'', enc_arr [enc_obj [(''index'', Itoa 0),
          (''message'', enc_obj [(''role'', quote ''assistant''), (''content'', quote content)]), (''finish_reason'', quote ''stop'')]]),
       (''usage'', enc_obj [(''prompt_tokens'', Itoa promptTokens), (''completion_tokens'', Itoa completionTokens),
          (''total_tokens'', Itoa (wrap64 (promptTokens + completionTokens)))])]"

text \<open>A chunk with one choice; empty fields of the delta are left out.\<close>

definition chunkJSON :: "string \<Rightarrow> int \<Rightarrow> string \<Rightarrow> string \<Rightarrow> string \<Rightarrow> string option \<Rightarrow> string" where
  "chunkJSON ident created model role content finishReason =
     enc_obj [(''id'', quote ident), (''object'', quote ''chat.completion.chunk''), (''created'', Itoa created), (''model'', quote model),
       (''choices'', enc_arr [enc_obj [(''index'', Itoa 0),
          (''delta'', enc_obj ((if role = [] then [] else [(''role'', quote role)]) @ (if content = [] then [] else [(''content'', quote content)]))),
          (''finish_reason'', enc_ptr finishReason)]])]"

text \<open>The loop over the pieces of the answer; \<open>k\<close> counts the looks at the context.\<close>

fun mockPieces :: "(nat \<Rightarrow> bool) \<Rightarrow> (string \<Rightarrow> string) \<Rightarrow> nat \<Rightarrow> string list \<Rightarrow> writer \<Rightarrow> writer \<times> bool" where
  "mockPieces ctxDone chunk k [] w = (w, True)"
| "mockPieces ctxDone chunk k (p # ps) w =
     (if ctxDone k then (w, False)
      else case writeSSE (chunk p) w of (w1, ok) \<Rightarrow> if ok then mockPieces ctxDone chunk (Suc k) ps w1 else (w1, False))"

definition streamMock :: "env \<Rightarrow> chatCompletionRequest \<Rightarrow> modelBackend \<Rightarrow> proxyState \<Rightarrow> writer \<Rightarrow> proxyState \<times> writer \<times> bool" where
  "streamMock ev q backend st w =
     (if \<not> isFlusher w
      then (st, writeOpenAIError 500 (zh [0x5F53, 0x524D, 0x20, 0x48, 0x54, 0x54, 0x50, 0x20, 0x77, 0x72, 0x69, 0x74, 0x65, 0x72, 0x20, 0x4E0D, 0x652F, 0x6301, 0x6D41, 0x5F0F, 0x5237, 0x65B0]) ''server_error'' [] w, False)
      else
        let w1 = WriteHeader 200 (onHeader (\<lambda>h. hSet ''X-Accel-Buffering'' ''no'' (hSet ''Connection'' ''keep-alive''
                   (hSet ''Cache-Control'' ''no-cache'' (hSet ''Content-Type'' ''text/event-stream; charset=utf-8'' h)))) w);
            (ident, st1) = newID ev ''chatcmpl'' st;
            (now, st2) = tickNow ev st1;
            chunk = chunkJSON ident (now div second) (cr_Model q);
            (w2, ok2) = writeSSE (chunk ''assistant'' [] None) w1
        in if \<not> ok2 then (st2, w2, False)
           else
             let (w3, ok3) = mockPieces (ev_done ev) (\<lambda>p. chunk [] p None) 0 (splitText (mockContent q backend) 12) w2
             in if \<not> ok3 then (st2, w3, False)
                else
                  let (w4, ok4) = writeSSE (chunk [] [] (Some ''stop'')) w3
                  in if \<not> ok4 then (st2, w4, False)
                     else case Write (''data: [DONE]'' @ nl @ nl) w4 of
                            (w5, _, ok5) \<Rightarrow> if ok5 then (st2, Flush w5, True) else (st2, w5, False))"

definition serveMock :: "env \<Rightarrow> chatCompletionRequest \<Rightarrow> modelBackend \<Rightarrow> proxyState \<Rightarrow> writer \<Rightarrow> proxyState \<times> writer" where
  "serveMock ev q backend st w =
     (let (start, st1) = tickNow ev st;
          (st2, w2, result) =
            (if cr_Stream q then
               (case streamMock ev q backend st1 w of
                  (st2, w2, ok) \<Rightarrow> (st2, w2, if ok then RequestResultSuccess else RequestResultFailure))
             else
               let content = mockContent q backend;
                   (ident, st2) = newID ev ''chatcmpl'' st1;
                   (now, st3) = tickNow ev st2
               in (st3, writeJSON 200 (completionJSON ident (now div second) (cr_Model q) content
                          (llm_estimatePromptTokens (items (cr_Messages q))) (llm_estimateTokens content)) w, RequestResultSuccess));
          (now, st3) = tickNow ev st2
      in (observeBackendRequest (be_Name (mb_cfg backend)) result (timeSub now start) st3, w2))"

end
