(* ===== verification/Proxy.thy ===== *)
theory Proxy
  imports Llm_Requests "HOL-Library.Sublist"
begin

text \<open>
  Serving a chat completion, \<^verbatim>\<open>internal/llm/proxy.go\<close>, \<^verbatim>\<open>proxy_stream.go\<close> and the entry point in
  \<^verbatim>\<open>handler.go\<close>: the candidates of the fallback chain are tried one after the other, each behind its
  circuit breaker. The operations of an attempt return the state, the writer and the permit after
  them. Spans and log lines of OpenTelemetry and \<^verbatim>\<open>slog\<close> have no influence on anything else and are
  left out.
\<close>

section \<open>Outcomes\<close>

definition failureReasonCircuitOpen :: string where "failureReasonCircuitOpen = ''circuit_open''"
definition failureReasonHTTP429 :: string where "failureReasonHTTP429 = ''http_429''"
definition failureReasonHTTP5xx :: string where "failureReasonHTTP5xx = ''http_5xx''"
definition failureReasonNetwork :: string where "failureReasonNetwork = ''network''"
definition failureReasonStream :: string where "failureReasonStream = ''stream_error''"
definition failureReasonTimeout :: string where "failureReasonTimeout = ''timeout''"
definition failureReasonClientCanceled :: string where "failureReasonClientCanceled = ''client_canceled''"

lemmas failureReasons = failureReasonCircuitOpen_def failureReasonHTTP429_def failureReasonHTTP5xx_def
  failureReasonNetwork_def failureReasonStream_def failureReasonTimeout_def failureReasonClientCanceled_def

record proxyAttemptResult =
  pr_done :: bool
  pr_retryable :: bool
  pr_reason :: string
  pr_timeout :: bool

record attemptFailureSummary =
  fs_any :: bool
  fs_allTimeout :: bool

definition observeFailure :: "proxyAttemptResult \<Rightarrow> attemptFailureSummary \<Rightarrow> attemptFailureSummary" where
  "observeFailure result s =
     (let s1 = (if \<not> fs_any s then s\<lparr>fs_allTimeout := True\<rparr> else s);
          s2 = s1\<lparr>fs_any := True\<rparr>
      in if \<not> pr_timeout result then s2\<lparr>fs_allTimeout := False\<rparr> else s2)"

definition retryableAttempt :: "string \<Rightarrow> proxyAttemptResult" where
  "retryableAttempt reason =
     \<lparr>pr_done = False, pr_retryable = True, pr_reason = reason, pr_timeout = (reason = failureReasonTimeout)\<rparr>"

definition doneAttempt :: proxyAttemptResult where
  "doneAttempt = \<lparr>pr_done = True, pr_retryable = False, pr_reason = [], pr_timeout = False\<rparr>"

definition isRetryableStatus :: "int \<Rightarrow> bool" where
  "isRetryableStatus status \<longleftrightarrow> status = 429 \<or> status \<ge> 500"

definition failureReasonFromStatus :: "int \<Rightarrow> string" where
  "failureReasonFromStatus status =
     (if status = 429 then failureReasonHTTP429 else if status \<ge> 500 then failureReasonHTTP5xx else [])"

fun failureReasonFromError :: "ioError option \<Rightarrow> string" where
  "failureReasonFromError None = []"
| "failureReasonFromError (Some Canceled) = failureReasonClientCanceled"
| "failureReasonFromError (Some DeadlineExceeded) = failureReasonTimeout"
| "failureReasonFromError (Some Timeout) = failureReasonTimeout"
| "failureReasonFromError (Some EOF) = failureReasonNetwork"
| "failureReasonFromError (Some (OtherError _)) = failureReasonNetwork"

section \<open>The request to a backend\<close>

definition resolveAPIKey :: "env \<Rightarrow> ModelBackendConfig \<Rightarrow> string" where
  "resolveAPIKey ev cfg =
     (if be_APIKeyEnv cfg \<noteq> [] \<and> ev_getenv ev (be_APIKeyEnv cfg) \<noteq> [] then ev_getenv ev (be_APIKeyEnv cfg) else be_APIKey cfg)"

definition forwardHeader :: "Request \<Rightarrow> string \<Rightarrow> Header \<Rightarrow> Header" where
  "forwardHeader r k h = (if hGet (rq_Header r) k \<noteq> [] then hSet k (hGet (rq_Header r) k) h else h)"

text \<open>\<open>None\<close> is the error of \<^verbatim>\<open>http.NewRequestWithContext\<close> on a URL that does not parse.\<close>

definition newUpstreamRequest :: "env \<Rightarrow> Request \<Rightarrow> string \<Rightarrow> modelBackend \<Rightarrow> proxyState \<Rightarrow> upstreamRequest option \<times> proxyState" where
  "newUpstreamRequest ev r rawBody backend st =
     (case url_Parse (mb_chatCompletionsURL backend) of
        None \<Rightarrow> (None, st)
      | Some _ \<Rightarrow>
          let h1 = hSet ''Content-Type'' ''application/json'' [];
              h2 = forwardHeader r ''Accept'' h1;
              h3 = forwardHeader r ''OpenAI-Organization'' h2;
              h4 = forwardHeader r ''OpenAI-Project'' h3;
              apiKey = resolveAPIKey ev (mb_cfg backend);
              h5 = (if apiKey \<noteq> [] then hSet ''Authorization'' (''Bearer '' @ apiKey) h4 else forwardHeader r ''Authorization'' h4);
              (h6, en) = Inject (ev_propagate ev) (px_entropy st) r h5
          in (Some \<lparr>ur_URL = mb_chatCompletionsURL backend, ur_Header = h6, ur_Body = rawBody\<rparr>, st\<lparr>px_entropy := en\<rparr>))"

text \<open>\<^verbatim>\<open>client.Do\<close>. \<open>px_sent\<close> records the requests that are handed to the client. The client is the one of the standard library
  with its own redirect policy: a redirect that a backend answers with is followed inside \<^verbatim>\<open>Do\<close>, and the answer of the
  network is the one that \<^verbatim>\<open>Do\<close> returns in the end.\<close>

definition doRequest :: "env \<Rightarrow> upstreamRequest \<Rightarrow> proxyState \<Rightarrow> upReply \<times> proxyState" where
  "doRequest ev ur st = (ev_net ev (length (px_sent st)) ur, st\<lparr>px_sent := px_sent st @ [ur]\<rparr>)"

definition isHopByHopHeader :: "string \<Rightarrow> bool" where
  "isHopByHopHeader key \<longleftrightarrow> ToLower key \<in> {''connection'', ''keep-alive'', ''proxy-authenticate'', ''proxy-authorization'',
     ''te'', ''trailer'', ''transfer-encoding'', ''upgrade'', ''content-length''}"

definition copyResponseHeaders :: "Header \<Rightarrow> Header \<Rightarrow> Header" where
  "copyResponseHeaders src dst =
     fold (\<lambda>(key, values) d. if isHopByHopHeader key then d else fold (hAdd key) values d) src dst"

section \<open>Permits\<close>

text \<open>An operation of the permit on the breaker of the handler, at the current time.\<close>

definition permitOp :: "(circuitBreakerPermit option \<Rightarrow> circuitBreaker \<Rightarrow> time \<Rightarrow> circuitBreakerPermit option \<times> circuitBreaker) \<Rightarrow>
    env \<Rightarrow> circuitBreakerPermit \<Rightarrow> proxyState \<Rightarrow> proxyState" where
  "permitOp op ev p st =
     (case tickNow ev st of
        (now, st1) \<Rightarrow> st1\<lparr>px_breaker := map_option (\<lambda>b. snd (op (Some p) b now)) (px_breaker st1)\<rparr>)"

definition allowBackendRequest :: "env \<Rightarrow> string \<Rightarrow> proxyState \<Rightarrow> proxyState \<times> circuitBreakerPermit \<times> bool" where
  "allowBackendRequest ev backend st =
     (case tickNow ev st of
        (now, st1) \<Rightarrow> (case Allow (px_breaker st1) now backend of (b, p, ok) \<Rightarrow> (st1\<lparr>px_breaker := b\<rparr>, p, ok)))"

section \<open>An attempt\<close>

text \<open>What an attempt leaves: the state, the writer, the result for the metrics, and the outcome.\<close>

type_synonym attempt = "proxyState \<times> writer \<times> string \<times> proxyAttemptResult"

text \<open>The error of a request or of reading its answer; \<open>result\<close> is what the metrics get when the
  client went away.\<close>

definition attemptError :: "env \<Rightarrow> circuitBreakerPermit \<Rightarrow> string \<Rightarrow> string \<Rightarrow> ioError \<Rightarrow> proxyState \<Rightarrow> writer \<Rightarrow> attempt" where
  "attemptError ev permit backend result e st w =
     (let reason = failureReasonFromError (Some e)
      in if reason = failureReasonClientCanceled then (permitOp Ignore ev permit st, w, result, doneAttempt)
         else (observeUpstreamError backend reason (permitOp Fail ev permit st), w, RequestResultFailure, retryableAttempt reason))"

text \<open>A status that lets the next candidate try.\<close>

definition attemptStatus :: "env \<Rightarrow> circuitBreakerPermit \<Rightarrow> string \<Rightarrow> int \<Rightarrow> proxyState \<Rightarrow> writer \<Rightarrow> attempt" where
  "attemptStatus ev permit backend status st w =
     (let reason = failureReasonFromStatus status
      in (observeUpstreamError backend reason (permitOp Fail ev permit st), w, requestResultFromStatus status, retryableAttempt reason))"

definition attemptRefused :: "env \<Rightarrow> circuitBreakerPermit \<Rightarrow> int \<Rightarrow> string \<Rightarrow> proxyState \<Rightarrow> writer \<Rightarrow> attempt" where
  "attemptRefused ev permit status message st w =
     (permitOp Ignore ev permit st, writeOpenAIError status message ''server_error'' [] w, RequestResultFailure, doneAttempt)"

definition createFailed :: string where
  "createFailed = (zh [0x521B, 0x5EFA, 0x4E0A, 0x6E38, 0x8BF7, 0x6C42, 0x5931, 0x8D25])"

definition proxyNonStream :: "env \<Rightarrow> Request \<Rightarrow> string \<Rightarrow> modelBackend \<Rightarrow> circuitBreakerPermit \<Rightarrow> proxyState \<Rightarrow> writer \<Rightarrow> attempt" where
  "proxyNonStream ev r rawBody backend permit st w =
     (let name = be_Name (mb_cfg backend)
      in case newUpstreamRequest ev r rawBody backend st of
           (None, st1) \<Rightarrow> attemptRefused ev permit 502 createFailed st1 w
         | (Some ur, st1) \<Rightarrow>
             (case doRequest ev ur st1 of
                (reply, st2) \<Rightarrow>
                  (case up_err reply of
                     Some e \<Rightarrow> attemptError ev permit name RequestResultFailure e st2 w
                   | None \<Rightarrow>
                       let result = requestResultFromStatus (up_status reply)
                       in if isRetryableStatus (up_status reply) then attemptStatus ev permit name (up_status reply) st2 w
                          else if rd_err (up_body reply) \<noteq> EOF then attemptError ev permit name result (rd_err (up_body reply)) st2 w
                          else
                            let st3 = permitOp Succeed ev permit st2;
                                w1 = WriteHeader (up_status reply) (onHeader (copyResponseHeaders (up_header reply)) w)
                            in case Write (rd_bytes (up_body reply)) w1 of
                                 (w2, _, ok) \<Rightarrow> (st3, w2, if ok then result else RequestResultFailure, doneAttempt))))"

section \<open>A streamed attempt\<close>

text \<open>\<^verbatim>\<open>readSSEEventWithTimeout\<close>: the reader, the data and the error of one wait.\<close>

definition readSSEEventWithTimeout :: "wait \<Rightarrow> reader \<Rightarrow> reader \<times> string \<times> ioError option" where
  "readSSEEventWithTimeout wt rd =
     (case wt of
        WaitRead \<Rightarrow> readSSEEvent rd
      | WaitCtx e \<Rightarrow> (rd, [], Some e)
      | WaitTimer \<Rightarrow> (rd, [], Some DeadlineExceeded))"

definition nextWait :: "wait list \<Rightarrow> wait" where
  "nextWait ws = (case ws of [] \<Rightarrow> WaitRead | x # _ \<Rightarrow> x)"

lemma readTimeout_progress:
  "readSSEEventWithTimeout wt rd = (rd', d, None) \<Longrightarrow> length (rd_bytes rd') < length (rd_bytes rd)"
  using readSSE_progress by (auto simp: readSSEEventWithTimeout_def readSSEEvent_def split: wait.splits prod.splits)

function readUntilFirstContentToken :: "wait list \<Rightarrow> string list \<Rightarrow> reader \<Rightarrow> reader \<times> string list \<times> bool \<times> ioError option" where
  "readUntilFirstContentToken ws buffered rd =
     (case readSSEEventWithTimeout (nextWait ws) rd of
        (rd1, d, err) \<Rightarrow>
          let buffered1 = (if d \<noteq> [] then buffered @ [d] else buffered)
          in if d \<noteq> [] \<and> hasContentToken d then (rd1, buffered1, True, None)
             else case err of
                 None \<Rightarrow> readUntilFirstContentToken (tl ws) buffered1 rd1
               | Some e \<Rightarrow> (rd1, buffered1, False, if e = EOF then None else Some e))"
  by pat_completeness auto
termination
  by (relation "measure (\<lambda>(ws, b, rd). length (rd_bytes rd))") (auto dest: readTimeout_progress [OF sym])

declare readUntilFirstContentToken.simps [simp del]

text \<open>\<^verbatim>\<open>io.Copy\<close> of the rest of a body: the bytes in one write.\<close>

definition copyBody :: "reader \<Rightarrow> writer \<Rightarrow> writer \<times> bool" where
  "copyBody rd w =
     (if rd_bytes rd = [] then (w, rd_err rd = EOF)
      else case Write (rd_bytes rd) w of (w1, _, ok) \<Rightarrow> (w1, ok \<and> rd_err rd = EOF))"

definition observeFirstToken :: "env \<Rightarrow> time \<Rightarrow> string \<Rightarrow> proxyState \<Rightarrow> proxyState" where
  "observeFirstToken ev start name st =
     (case tickNow ev st of (now, st1) \<Rightarrow> onMetrics (ObserveFirstToken name (timeSub now start)) st1)"

text \<open>After the first token: the answer is committed to the client.\<close>

definition relayStream :: "env \<Rightarrow> circuitBreakerPermit \<Rightarrow> string \<Rightarrow> time \<Rightarrow> upReply \<Rightarrow> reader \<Rightarrow> string list \<Rightarrow> bool \<Rightarrow> proxyState \<Rightarrow> writer \<Rightarrow> attempt" where
  "relayStream ev permit name start reply rd buffered firstToken st w =
     (let result = requestResultFromStatus (up_status reply);
          w1 = onHeader (copyResponseHeaders (up_header reply)) w;
          w2 = (if hGet (up_header reply) ''Content-Type'' = [] then onHeader (hSet ''Content-Type'' ''text/event-stream; charset=utf-8'') w1 else w1);
          w3 = WriteHeader (up_status reply) w2
      in case writeBufferedSSE buffered w3 of
           (w4, False) \<Rightarrow> (permitOp Ignore ev permit st, w4, RequestResultFailure, doneAttempt)
         | (w4, True) \<Rightarrow>
             let st1 = (if firstToken then observeFirstToken ev start name st else st)
             in case streamCopyFromReader w4 rd firstToken of
                  (w5, ok, n) \<Rightarrow>
                    let st2 = (if n > 0 then observeFirstToken ev start name st1 else st1)
                    in if ok then (permitOp Succeed ev permit st2, w5, result, doneAttempt)
                       else (observeUpstreamError name failureReasonStream (permitOp Fail ev permit st2), w5, RequestResultFailure, doneAttempt))"

definition proxyStream :: "env \<Rightarrow> Request \<Rightarrow> string \<Rightarrow> modelBackend \<Rightarrow> circuitBreakerPermit \<Rightarrow> time \<Rightarrow> proxyState \<Rightarrow> writer \<Rightarrow> attempt" where
  "proxyStream ev r rawBody backend permit start st w =
     (let name = be_Name (mb_cfg backend)
      in if \<not> isFlusher w then attemptRefused ev permit 500 (zh [0x5F53, 0x524D, 0x20, 0x48, 0x54, 0x54, 0x50, 0x20, 0x77, 0x72, 0x69, 0x74, 0x65, 0x72, 0x20, 0x4E0D, 0x652F, 0x6301, 0x6D41, 0x5F0F, 0x5237, 0x65B0]) st w
         else case newUpstreamRequest ev r rawBody backend st of
           (None, st1) \<Rightarrow> attemptRefused ev permit 502 createFailed st1 w
         | (Some ur, st1) \<Rightarrow>
             (case doRequest ev ur st1 of
                (reply, st2) \<Rightarrow>
                  (case up_err reply of
                     Some e \<Rightarrow> attemptError ev permit name RequestResultFailure e st2 w
                   | None \<Rightarrow>
                       let result = requestResultFromStatus (up_status reply)
                       in if isRetryableStatus (up_status reply) then attemptStatus ev permit name (up_status reply) st2 w
                          else if up_status reply \<ge> 400 then
                            (case copyBody (up_body reply) (WriteHeader (up_status reply) (onHeader (copyResponseHeaders (up_header reply)) w)) of
                               (w1, ok) \<Rightarrow> (permitOp Succeed ev permit st2, w1, if ok then result else RequestResultFailure, doneAttempt))
                          else case readUntilFirstContentToken (up_waits reply) [] (up_body reply) of
                              (rd, buffered, firstToken, Some e) \<Rightarrow> attemptError ev permit name result e st2 w
                            | (rd, buffered, firstToken, None) \<Rightarrow> relayStream ev permit name start reply rd buffered firstToken st2 w)))"

definition proxyOpenAICompatible :: "env \<Rightarrow> Request \<Rightarrow> string \<Rightarrow> chatCompletionRequest \<Rightarrow> modelBackend \<Rightarrow> proxyState \<Rightarrow> writer \<Rightarrow>
    proxyState \<times> writer \<times> proxyAttemptResult" where
  "proxyOpenAICompatible ev r rawBody q backend st w =
     (case allowBackendRequest ev (be_Name (mb_cfg backend)) st of
        (st1, permit, False) \<Rightarrow> (st1, w, retryableAttempt failureReasonCircuitOpen)
      | (st1, permit, True) \<Rightarrow>
          (case tickNow ev st1 of
             (start, st2) \<Rightarrow>
               (case (if cr_Stream q then proxyStream ev r rawBody backend permit start st2 w
                      else proxyNonStream ev r rawBody backend permit st2 w) of
                  (st3, w1, result, outcome) \<Rightarrow>
                    (case tickNow ev st3 of
                       (now, st4) \<Rightarrow> (observeBackendRequest (be_Name (mb_cfg backend)) result (timeSub now start) st4, w1, outcome)))))"

section \<open>The candidates\<close>

definition unavailable :: string where
  "unavailable = (zh [0x6A21, 0x578B, 0x540E, 0x7AEF, 0x6682, 0x4E0D, 0x53EF, 0x7528])"

definition exhausted :: "attemptFailureSummary \<Rightarrow> writer \<Rightarrow> writer" where
  "exhausted fs w =
     (if fs_any fs \<and> fs_allTimeout fs
      then writeOpenAIError 504 (zh [0x6A21, 0x578B, 0x540E, 0x7AEF, 0x8BF7, 0x6C42, 0x8D85, 0x65F6]) ''server_error'' [] w
      else writeOpenAIError 503 unavailable ''server_error'' [] w)"

text \<open>The body for a candidate, and the reaction to a failed rewriting.\<close>

definition candidateBody :: "string \<Rightarrow> chatCompletionRequest \<Rightarrow> string \<Rightarrow> rewriteError + string" where
  "candidateBody rawBody q model = (if model \<noteq> cr_Model q then rewriteRequestModel rawBody model else Inr rawBody)"

text \<open>The zero value that a missing key of \<^verbatim>\<open>h.backends\<close> gives.\<close>

definition zeroBackend :: modelBackend where
  "zeroBackend = \<lparr>mb_cfg = \<lparr>be_Name = [], be_Type = [], be_BaseURL = [], be_APIKey = [], be_APIKeyEnv = [], be_Models = []\<rparr>,
     mb_backendType = [], mb_chatCompletionsURL = []\<rparr>"

text \<open>A failed attempt is counted as a fallback to the next candidate, if there is one.\<close>

definition afterFailure :: "string \<Rightarrow> string list \<Rightarrow> proxyAttemptResult \<Rightarrow> proxyState \<Rightarrow> proxyState" where
  "afterFailure model rest result st =
     (case rest of [] \<Rightarrow> st | nextModel # _ \<Rightarrow> observeFallback model nextModel (pr_reason result) st)"

definition backendOf :: "Handler \<Rightarrow> string \<Rightarrow> modelBackend" where
  "backendOf h model = (case h_backends h model of Some b \<Rightarrow> b | None \<Rightarrow> zeroBackend)"

fun serveCandidates :: "Handler \<Rightarrow> env \<Rightarrow> Request \<Rightarrow> string \<Rightarrow> chatCompletionRequest \<Rightarrow> attemptFailureSummary \<Rightarrow> string list \<Rightarrow> proxyState \<Rightarrow> writer \<Rightarrow>
    proxyState \<times> writer" where
  "serveCandidates h ev r rawBody q fs [] st w = (st, exhausted fs w)"
| "serveCandidates h ev r rawBody q fs (model # rest) st w =
     (let backend = backendOf h model
      in (case candidateBody rawBody q model of
             Inl BadJSON \<Rightarrow> (st, writeOpenAIError 500 (zh [0x6539, 0x5199, 0x964D, 0x7EA7, 0x6A21, 0x578B, 0x8BF7, 0x6C42, 0x5931, 0x8D25]) ''server_error'' [] w)
           | Inl NilMapPanic \<Rightarrow> (st, panicWriter w)
           | Inr body \<Rightarrow>
               let q1 = q\<lparr>cr_Model := model\<rparr>
               in if mb_backendType backend = ''mock'' then serveMock ev q1 backend st w
                  else case proxyOpenAICompatible ev r body q1 backend st w of
                      (st1, w1, result) \<Rightarrow>
                        if pr_done result then (st1, w1)
                        else if \<not> pr_retryable result then (st1, writeOpenAIError 503 unavailable ''server_error'' [] w1)
                        else
                          serveCandidates h ev r rawBody q (observeFailure result fs) rest (afterFailure model rest result st1) w1))"

definition serveChatCompletionWithFallback :: "Handler \<Rightarrow> env \<Rightarrow> Request \<Rightarrow> string \<Rightarrow> chatCompletionRequest \<Rightarrow> proxyState \<Rightarrow> writer \<Rightarrow> proxyState \<times> writer" where
  "serveChatCompletionWithFallback h ev r rawBody q st w =
     (let candidates = candidateModels (map mi_ID (h_models h)) (h_fallbacks h) (cr_Model q)
      in if candidates = [] then (st, writeOpenAIError 404 (zh [0x672A, 0x627E, 0x5230, 0x53EF, 0x7528, 0x6A21, 0x578B, 0x5019, 0x9009]) ''invalid_request_error'' ''model'' w)
         else serveCandidates h ev r rawBody q \<lparr>fs_any = False, fs_allTimeout = False\<rparr> candidates st w)"

section \<open>The entry point\<close>

definition llm_maxRequestBodyBytes :: nat where
  "llm_maxRequestBodyBytes = 10 * 2 ^ 20"

definition ServeHTTP :: "Handler \<Rightarrow> env \<Rightarrow> proxyState handler" where
  "ServeHTTP h ev st r w =
     (if rq_Method r \<noteq> ''POST''
      then (st, writeOpenAIError 405 (zh [0x4EC5, 0x652F, 0x6301, 0x20, 0x50, 0x4F, 0x53, 0x54, 0x20, 0x65B9, 0x6CD5]) ''invalid_request_error'' [] (onHeader (hSet ''Allow'' ''POST'') w))
      else case readBody llm_maxRequestBodyBytes r of
        None \<Rightarrow> (st, writeOpenAIError 413 (zh [0x8BF7, 0x6C42, 0x4F53, 0x8FC7, 0x5927, 0x6216, 0x8BFB, 0x53D6, 0x5931, 0x8D25]) ''invalid_request_error'' [] w)
      | Some rawBody \<Rightarrow>
          (case decChatRequest rawBody of
             None \<Rightarrow> (st, writeOpenAIError 400 (zh [0x8BF7, 0x6C42, 0x4F53, 0x5FC5, 0x987B, 0x662F, 0x6709, 0x6548, 0x20, 0x4A, 0x53, 0x4F, 0x4E]) ''invalid_request_error'' [] w)
           | Some q0 \<Rightarrow>
               let q = q0\<lparr>cr_Model := TrimSpace (cr_Model q0)\<rparr>
               in if cr_Model q = [] then (st, writeOpenAIError 400 (zh [0x6D, 0x6F, 0x64, 0x65, 0x6C, 0x20, 0x4E0D, 0x80FD, 0x4E3A, 0x7A7A]) ''invalid_request_error'' ''model'' w)
                  else if items (cr_Messages q) = []
                  then (st, writeOpenAIError 400 (zh [0x6D, 0x65, 0x73, 0x73, 0x61, 0x67, 0x65, 0x73, 0x20, 0x81F3, 0x5C11, 0x9700, 0x8981, 0x4E00, 0x6761, 0x6D88, 0x606F]) ''invalid_request_error'' ''messages'' w)
                  else if h_backends h (cr_Model q) = None
                  then (st, writeOpenAIError 404 ((zh [0x6A21, 0x578B, 0x20]) @ goQuote (cr_Model q) @ (zh [0x20, 0x672A, 0x914D, 0x7F6E, 0x540E, 0x7AEF])) ''invalid_request_error'' ''model'' w)
                  else serveChatCompletionWithFallback h ev r rawBody q st w))"

section \<open>Laws of an attempt\<close>

text \<open>\<open>settledOnce s s' p success count\<close>: between the two states the breaker changed by exactly one
  settlement of the permit. \<open>sentBy\<close>: at most one request was sent, to the given URL and with the
  given body.\<close>

definition settledOnce :: "proxyState \<Rightarrow> proxyState \<Rightarrow> circuitBreakerPermit \<Rightarrow> bool \<Rightarrow> bool \<Rightarrow> bool" where
  "settledOnce st st' p success count \<longleftrightarrow>
     (\<exists>now. px_breaker st' = map_option (\<lambda>b. snd (finish (Some p) b now success count)) (px_breaker st))"

definition sentBy :: "proxyState \<Rightarrow> proxyState \<Rightarrow> string \<Rightarrow> string \<Rightarrow> bool" where
  "sentBy st st' url body \<longleftrightarrow> px_sent st' = px_sent st \<or>
     (\<exists>u. px_sent st' = px_sent st @ [u] \<and> ur_URL u = url \<and> ur_Body u = body)"

lemma px_tickNow [simp]:
  "px_breaker (snd (tickNow ev st)) = px_breaker st" "px_sent (snd (tickNow ev st)) = px_sent st"
  by (simp_all add: tickNow_def)

lemma px_onMetrics [simp]:
  "px_breaker (onMetrics f st) = px_breaker st" "px_sent (onMetrics f st) = px_sent st"
  by (simp_all add: onMetrics_def)

lemma px_observers [simp]:
  "px_breaker (observeUpstreamError b reason st) = px_breaker st" "px_sent (observeUpstreamError b reason st) = px_sent st"
  "px_breaker (observeBackendRequest b res d st) = px_breaker st" "px_sent (observeBackendRequest b res d st) = px_sent st"
  "px_breaker (observeFallback f t reason st) = px_breaker st" "px_sent (observeFallback f t reason st) = px_sent st"
  by (simp_all add: observeUpstreamError_def observeBackendRequest_def observeFallback_def)

lemma px_firstToken [simp]:
  "px_breaker (observeFirstToken ev start name st) = px_breaker st" "px_sent (observeFirstToken ev start name st) = px_sent st"
  by (simp_all add: observeFirstToken_def tickNow_def)

lemma px_permitOp [simp]: "px_sent (permitOp op ev p st) = px_sent st"
  by (simp add: permitOp_def tickNow_def)

lemma settled_permitOp:
  "px_breaker st1 = px_breaker st \<Longrightarrow> px_breaker st' = px_breaker (permitOp Succeed ev p st1) \<Longrightarrow> settledOnce st st' p True True"
  "px_breaker st1 = px_breaker st \<Longrightarrow> px_breaker st' = px_breaker (permitOp Fail ev p st1) \<Longrightarrow> settledOnce st st' p False True"
  "px_breaker st1 = px_breaker st \<Longrightarrow> px_breaker st' = px_breaker (permitOp Ignore ev p st1) \<Longrightarrow> settledOnce st st' p False False"
  by (auto simp: settledOnce_def permitOp_def tickNow_def Succeed_def Fail_def Ignore_def)

lemma px_newUpstreamRequest:
  "newUpstreamRequest ev r body backend st = (ur, st1) \<Longrightarrow>
     px_breaker st1 = px_breaker st \<and> px_sent st1 = px_sent st \<and>
     (\<forall>u. ur = Some u \<longrightarrow> ur_URL u = mb_chatCompletionsURL backend \<and> ur_Body u = body)"
  by (auto simp: newUpstreamRequest_def Let_def split: option.splits prod.splits)

text \<open>What holds of an attempt that was let through.\<close>

definition attemptOk :: "proxyState \<Rightarrow> writer \<Rightarrow> circuitBreakerPermit \<Rightarrow> string \<Rightarrow> string \<Rightarrow> attempt \<Rightarrow> bool" where
  "attemptOk st w p url body a \<longleftrightarrow>
     (case a of (st', w', result, outcome) \<Rightarrow>
        sentBy st st' url body \<and>
        ((outcome = doneAttempt \<and> (\<exists>success count. settledOnce st st' p success count)) \<or>
         (\<exists>reason. outcome = retryableAttempt reason \<and> w' = w \<and> settledOnce st st' p False True)))"

lemma attemptOk_error:
  "px_breaker st1 = px_breaker st \<Longrightarrow> sentBy st st1 url body \<Longrightarrow> attemptOk st w p url body (attemptError ev p name res e st1 w)"
  by (auto simp: attemptOk_def attemptError_def Let_def sentBy_def intro: settled_permitOp)

lemma attemptOk_status:
  "px_breaker st1 = px_breaker st \<Longrightarrow> sentBy st st1 url body \<Longrightarrow> attemptOk st w p url body (attemptStatus ev p name status st1 w)"
  by (auto simp: attemptOk_def attemptStatus_def Let_def sentBy_def intro: settled_permitOp)

lemma attemptOk_refused:
  "px_breaker st1 = px_breaker st \<Longrightarrow> sentBy st st1 url body \<Longrightarrow> attemptOk st w p url body (attemptRefused ev p status msg st1 w)"
  by (auto simp: attemptOk_def attemptRefused_def sentBy_def intro: settled_permitOp)

lemma attemptOk_done:
  "px_breaker st1 = px_breaker st \<Longrightarrow> sentBy st st1 url body \<Longrightarrow> attemptOk st w p url body (permitOp Succeed ev p st1, w', res, doneAttempt)"
  "px_breaker st1 = px_breaker st \<Longrightarrow> sentBy st st1 url body \<Longrightarrow> attemptOk st w p url body (permitOp Ignore ev p st1, w', res, doneAttempt)"
  "px_breaker st1 = px_breaker st \<Longrightarrow> sentBy st st1 url body \<Longrightarrow>
     attemptOk st w p url body (observeUpstreamError name reason (permitOp Fail ev p st1), w', res, doneAttempt)"
proof -
  assume st: "px_breaker st1 = px_breaker st" and sent: "sentBy st st1 url body"
  let ?f = "observeUpstreamError name reason (permitOp Fail ev p st1)"
  have "settledOnce st (permitOp Succeed ev p st1) p True True" using settled_permitOp(1) [OF st refl] .
  with sent show "attemptOk st w p url body (permitOp Succeed ev p st1, w', res, doneAttempt)"
    unfolding attemptOk_def sentBy_def by auto
  have "settledOnce st (permitOp Ignore ev p st1) p False False" using settled_permitOp(3) [OF st refl] .
  with sent show "attemptOk st w p url body (permitOp Ignore ev p st1, w', res, doneAttempt)"
    unfolding attemptOk_def sentBy_def by auto
  have "settledOnce st ?f p False True" using settled_permitOp(2) [OF st, of ?f ev p] by simp
  moreover have "sentBy st ?f url body" using sent by (simp add: sentBy_def)
  ultimately show "attemptOk st w p url body (?f, w', res, doneAttempt)"
    unfolding attemptOk_def by blast
qed

lemmas attemptOk_intros = attemptOk_error attemptOk_status attemptOk_refused attemptOk_done

lemma attemptOk_relay:
  assumes st: "px_breaker st1 = px_breaker st" and sent: "sentBy st st1 url body"
  shows "attemptOk st w p url body (relayStream ev p name start reply rd buffered first st1 w)"
proof -
  let ?w1 = "onHeader (copyResponseHeaders (up_header reply)) w"
  let ?w2 = "if hGet (up_header reply) ''Content-Type'' = [] then onHeader (hSet ''Content-Type'' ''text/event-stream; charset=utf-8'') ?w1 else ?w1"
  obtain w4 ok4 where buf: "writeBufferedSSE buffered (WriteHeader (up_status reply) ?w2) = (w4, ok4)" by fastforce
  obtain w5 ok5 n where copy: "streamCopyFromReader w4 rd first = (w5, ok5, n)" by (cases "streamCopyFromReader w4 rd first") auto
  let ?st1 = "if first then observeFirstToken ev start name st1 else st1"
  let ?st2 = "if n > 0 then observeFirstToken ev start name ?st1 else ?st1"
  have st2: "px_breaker ?st2 = px_breaker st" "sentBy st ?st2 url body"
    using st sent by (simp_all add: sentBy_def)
  show ?thesis
  proof (cases ok4)
    case False
    then show ?thesis using attemptOk_done(2) [OF st sent] by (simp add: relayStream_def buf Let_def)
  next
    case True
    then show ?thesis
      using attemptOk_done(1,3) [OF st2] by (cases ok5) (simp_all add: relayStream_def buf copy Let_def)
  qed
qed

text \<open>The request a backend is sent, and the state after it.\<close>

lemma sent_doRequest:
  assumes "newUpstreamRequest ev r body backend st = (Some ur, st1)" "doRequest ev ur st1 = (reply, st2)"
  shows "px_breaker st2 = px_breaker st" "sentBy st st2 (mb_chatCompletionsURL backend) body"
  using px_newUpstreamRequest [OF assms(1)] assms(2) by (auto simp: doRequest_def sentBy_def)

lemma attemptOk_nonStream: "attemptOk st w p (mb_chatCompletionsURL backend) body (proxyNonStream ev r body backend p st w)"
proof -
  obtain ur st1 where new: "newUpstreamRequest ev r body backend st = (ur, st1)" by fastforce
  show ?thesis
  proof (cases ur)
    case None
    with px_newUpstreamRequest [OF new] new show ?thesis
      by (auto simp: proxyNonStream_def sentBy_def intro: attemptOk_refused)
  next
    case (Some u)
    obtain reply st2 where req: "doRequest ev u st1 = (reply, st2)" by fastforce
    note sent = sent_doRequest [OF new [unfolded Some] req]
    show ?thesis
      using sent by (auto simp: proxyNonStream_def new Some req Let_def intro!: attemptOk_intros split: option.split prod.split)
  qed
qed

lemma attemptOk_stream: "attemptOk st w p (mb_chatCompletionsURL backend) body (proxyStream ev r body backend p start st w)"
proof -
  obtain ur st1 where new: "newUpstreamRequest ev r body backend st = (ur, st1)" by fastforce
  note same = px_newUpstreamRequest [OF new]
  show ?thesis
  proof (cases "ur = None \<or> \<not> isFlusher w")
    case True
    with same show ?thesis
      by (auto simp: proxyStream_def new sentBy_def Let_def intro!: attemptOk_refused)
  next
    case False
    then obtain u where u: "ur = Some u" and fl: "isFlusher w" by auto
    obtain reply st2 where req: "doRequest ev u st1 = (reply, st2)" by fastforce
    note sent = sent_doRequest [OF new [unfolded u] req]
    obtain rd buffered first err where rd: "readUntilFirstContentToken (up_waits reply) [] (up_body reply) = (rd, buffered, first, err)"
      by (cases "readUntilFirstContentToken (up_waits reply) [] (up_body reply)") auto
    show ?thesis
      using sent by (auto simp: proxyStream_def new u fl req rd Let_def intro!: attemptOk_intros attemptOk_relay split: option.split prod.split)
  qed
qed

section \<open>Properties of an attempt\<close>

lemma attempt_let_through:
  assumes "allowBackendRequest ev (be_Name (mb_cfg backend)) st = (st1, p, True)"
    and "proxyOpenAICompatible ev r body q backend st w = (st', w', res)"
  shows "\<exists>st2 st3 result. px_breaker st2 = px_breaker st1 \<and> px_sent st2 = px_sent st1 \<and>
    attemptOk st2 w p (mb_chatCompletionsURL backend) body (st3, w', result, res) \<and>
    px_breaker st' = px_breaker st3 \<and> px_sent st' = px_sent st3"
proof -
  obtain start st2 where start: "tickNow ev st1 = (start, st2)" by fastforce
  let ?a = "if cr_Stream q then proxyStream ev r body backend p start st2 w else proxyNonStream ev r body backend p st2 w"
  obtain st3 w1 result out where a: "?a = (st3, w1, result, out)" by (cases ?a) auto
  have "attemptOk st2 w p (mb_chatCompletionsURL backend) body ?a"
    using attemptOk_stream attemptOk_nonStream by simp
  moreover have "w1 = w'" "out = res" "px_breaker st' = px_breaker st3" "px_sent st' = px_sent st3"
    using assms a start by (auto simp: proxyOpenAICompatible_def tickNow_def)
  moreover have "px_breaker st2 = px_breaker st1" "px_sent st2 = px_sent st1"
    using start px_tickNow [of ev st1] by auto
  ultimately show ?thesis using a by auto
qed

lemma allow_sent: "allowBackendRequest ev name st = (st1, p, ok) \<Longrightarrow> px_sent st1 = px_sent st"
  by (auto simp: allowBackendRequest_def tickNow_def split: prod.splits)

lemma retryable_not_done [simp]:
  "pr_retryable (retryableAttempt reason)" "\<not> pr_done (retryableAttempt reason)" "pr_done doneAttempt" "\<not> pr_retryable doneAttempt"
  by (simp_all add: retryableAttempt_def doneAttempt_def)


lemma attempt_circuit_open:
  assumes "allowBackendRequest ev (be_Name (mb_cfg backend)) st = (st1, p, False)"
  shows "proxyOpenAICompatible ev r body q backend st w = (st1, w, retryableAttempt failureReasonCircuitOpen)"
  using assms by (simp add: proxyOpenAICompatible_def)

text \<open>In every case: done or retryable, and retryable only with an untouched response.\<close>

lemma attempt_outcome:
  assumes "proxyOpenAICompatible ev r body q backend st w = (st', w', res)"
  shows "(pr_done res \<or> pr_retryable res \<and> \<not> pr_done res \<and> w' = w) \<and> sentBy st st' (mb_chatCompletionsURL backend) body"
proof -
  obtain st1 p ok where allow: "allowBackendRequest ev (be_Name (mb_cfg backend)) st = (st1, p, ok)"
    by (cases "allowBackendRequest ev (be_Name (mb_cfg backend)) st") auto
  show ?thesis
  proof (cases ok)
    case False
    with allow have "allowBackendRequest ev (be_Name (mb_cfg backend)) st = (st1, p, False)" by simp
    from attempt_circuit_open [OF this] allow_sent [OF this] assms show ?thesis by (auto simp: sentBy_def)
  next
    case True
    with allow have "allowBackendRequest ev (be_Name (mb_cfg backend)) st = (st1, p, True)" by simp
    from attempt_let_through [OF this assms] allow_sent [OF this] show ?thesis
      by (auto simp: attemptOk_def sentBy_def)
  qed
qed

section \<open>The fallback chain\<close>

text \<open>\<open>tried ms st rs ms' st'\<close>: the candidates of \<open>ms\<close> in front of \<open>ms'\<close> were tried in this order, all of
  them failed in a way that lets the next one try, with the results \<open>rs\<close>.\<close>

inductive tried :: "Handler \<Rightarrow> env \<Rightarrow> Request \<Rightarrow> string \<Rightarrow> chatCompletionRequest \<Rightarrow> writer \<Rightarrow>
    string list \<Rightarrow> proxyState \<Rightarrow> proxyAttemptResult list \<Rightarrow> string list \<Rightarrow> proxyState \<Rightarrow> bool"
  for h ev r rawBody q w where
  tried_none: "tried h ev r rawBody q w ms st [] ms st"
| tried_next: "mb_backendType (backendOf h m) \<noteq> ''mock'' \<Longrightarrow> candidateBody rawBody q m = Inr body \<Longrightarrow>
     proxyOpenAICompatible ev r body (q\<lparr>cr_Model := m\<rparr>) (backendOf h m) st w = (st1, w, res) \<Longrightarrow>
     pr_retryable res \<Longrightarrow> \<not> pr_done res \<Longrightarrow>
     tried h ev r rawBody q w ms (afterFailure m ms res st1) rs ms' st' \<Longrightarrow>
     tried h ev r rawBody q w (m # ms) st (res # rs) ms' st'"

text \<open>The candidate that answers: a mock backend, a backend whose attempt is final, or the error when the
  request cannot be rewritten for it.\<close>

definition answeredBy :: "Handler \<Rightarrow> env \<Rightarrow> Request \<Rightarrow> string \<Rightarrow> chatCompletionRequest \<Rightarrow> string \<Rightarrow> proxyState \<Rightarrow> writer \<Rightarrow> proxyState \<times> writer \<Rightarrow> bool" where
  "answeredBy h ev r rawBody q m st w out \<longleftrightarrow>
     (case candidateBody rawBody q m of
        Inl e \<Rightarrow> fst out = st
      | Inr body \<Rightarrow>
          if mb_backendType (backendOf h m) = ''mock'' then out = serveMock ev (q\<lparr>cr_Model := m\<rparr>) (backendOf h m) st w
          else \<exists>st' w' res. proxyOpenAICompatible ev r body (q\<lparr>cr_Model := m\<rparr>) (backendOf h m) st w = (st', w', res) \<and>
                 pr_done res \<and> out = (st', w'))"

lemma serveCandidates_runs:
  "\<exists>rs ms' st'. tried h ev r rawBody q w ms st rs ms' st' \<and>
     (case ms' of
        [] \<Rightarrow> serveCandidates h ev r rawBody q fs ms st w = (st', exhausted (fold observeFailure rs fs) w)
      | m # _ \<Rightarrow> answeredBy h ev r rawBody q m st' w (serveCandidates h ev r rawBody q fs ms st w))"
proof (induction ms arbitrary: st fs)
  case Nil
  show ?case by (intro exI [of _ "[]"] exI [of _ "[] :: string list"] exI [of _ st]) (simp add: tried_none)
next
  case (Cons m ms)
  let ?b = "backendOf h m"
  let ?run = "serveCandidates h ev r rawBody q fs (m # ms) st w"
  have here: ?case if "answeredBy h ev r rawBody q m st w ?run"
    using that tried_none by (intro exI [of _ "[]"] exI [of _ "m # ms"] exI [of _ st]) simp
  show ?case
  proof (cases "candidateBody rawBody q m")
    case (Inl e)
    then show ?thesis by (intro here) (cases e, simp_all add: answeredBy_def)
  next
    case (Inr body)
    show ?thesis
    proof (cases "mb_backendType ?b = ''mock''")
      case True
      with Inr show ?thesis by (intro here) (simp add: answeredBy_def)
    next
      case False
      obtain st1 w1 res where a: "proxyOpenAICompatible ev r body (q\<lparr>cr_Model := m\<rparr>) ?b st w = (st1, w1, res)"
        by (cases "proxyOpenAICompatible ev r body (q\<lparr>cr_Model := m\<rparr>) ?b st w") auto
      show ?thesis
      proof (cases "pr_done res")
        case True
        with Inr False a show ?thesis by (intro here) (simp add: answeredBy_def)
      next
        case nd: False
        with attempt_outcome [OF a] have re: "pr_retryable res" "w1 = w" by auto
        have run: "?run = serveCandidates h ev r rawBody q (observeFailure res fs) ms (afterFailure m ms res st1) w"
          using Inr False a nd re by simp
        obtain rs ms' st' where ih: "tried h ev r rawBody q w ms (afterFailure m ms res st1) rs ms' st'"
          "case ms' of [] \<Rightarrow> ?run = (st', exhausted (fold observeFailure rs (observeFailure res fs)) w)
             | m # _ \<Rightarrow> answeredBy h ev r rawBody q m st' w ?run"
          using Cons.IH [of "afterFailure m ms res st1" "observeFailure res fs"] unfolding run by blast
        show ?thesis
          using tried_next [OF False Inr a [unfolded re(2)] re(1) nd ih(1)] ih(2)
          by (intro exI [of _ "res # rs"] exI [of _ ms'] exI [of _ st']) (simp del: serveCandidates.simps split: list.split_asm list.split)
      qed
    qed
  qed
qed

lemma observe_all:
  "rs \<noteq> [] \<Longrightarrow> fold observeFailure rs \<lparr>fs_any = False, fs_allTimeout = False\<rparr> =
     \<lparr>fs_any = True, fs_allTimeout = list_all pr_timeout rs\<rparr>"
proof (induction rs rule: rev_induct)
  case (snoc res rs)
  then show ?case by (cases "rs = []") (auto simp: observeFailure_def Let_def)
qed simp

text \<open>C5. The fallback chain: the candidates of a model are tried in the order of the chain until one gives a
  final answer, which is the only one that writes a response; the candidates before it failed without
  touching the response. If all of them fail, the client gets status 504 when every failure was a
  timeout and 503 otherwise. A model without candidates gets 404.\<close>

theorem fallback_chain_served:
  fixes h :: Handler and q :: chatCompletionRequest
  defines "cs \<equiv> candidateModels (map mi_ID (h_models h)) (h_fallbacks h) (cr_Model q)"
  shows "(cs = [] \<and> serveChatCompletionWithFallback h ev r rawBody q st w =
       (st, writeOpenAIError 404 (zh [0x672A, 0x627E, 0x5230, 0x53EF, 0x7528, 0x6A21, 0x578B, 0x5019, 0x9009]) ''invalid_request_error'' ''model'' w)) \<or>
    (\<exists>rs m ms st'. tried h ev r rawBody q w cs st rs (m # ms) st' \<and>
       answeredBy h ev r rawBody q m st' w (serveChatCompletionWithFallback h ev r rawBody q st w)) \<or>
    (\<exists>rs st' message. rs \<noteq> [] \<and> tried h ev r rawBody q w cs st rs [] st' \<and>
       serveChatCompletionWithFallback h ev r rawBody q st w =
         (st', writeOpenAIError (if list_all pr_timeout rs then 504 else 503) message ''server_error'' [] w))"
proof (cases "cs = []")
  case True
  then show ?thesis by (simp add: serveChatCompletionWithFallback_def cs_def)
next
  case False
  let ?fs = "\<lparr>fs_any = False, fs_allTimeout = False\<rparr>"
  have run: "serveChatCompletionWithFallback h ev r rawBody q st w = serveCandidates h ev r rawBody q ?fs cs st w"
    using False by (simp add: serveChatCompletionWithFallback_def cs_def)
  obtain rs ms' st' where tr: "tried h ev r rawBody q w cs st rs ms' st'"
    and out: "case ms' of [] \<Rightarrow> serveCandidates h ev r rawBody q ?fs cs st w = (st', exhausted (fold observeFailure rs ?fs) w)
      | m # _ \<Rightarrow> answeredBy h ev r rawBody q m st' w (serveCandidates h ev r rawBody q ?fs cs st w)"
    using serveCandidates_runs [of h ev r rawBody q w cs st ?fs] by blast
  show ?thesis
  proof (cases ms')
    case (Cons m ms)
    with tr out run show ?thesis by auto
  next
    case Nil
    have "rs \<noteq> []" using tr Nil False by (auto elim: tried.cases)
    then have "exhausted (fold observeFailure rs ?fs) w =
        writeOpenAIError (if list_all pr_timeout rs then 504 else 503)
          (if list_all pr_timeout rs then (zh [0x6A21, 0x578B, 0x540E, 0x7AEF, 0x8BF7, 0x6C42, 0x8D85, 0x65F6]) else unavailable) ''server_error'' [] w"
      by (simp add: observe_all exhausted_def)
    with \<open>rs \<noteq> []\<close> tr out run Nil show ?thesis by auto
  qed
qed

lemma tried_sent:
  "tried h ev r rawBody q w ms st rs ms' st' \<Longrightarrow>
     \<exists>us xs. px_sent st' = px_sent st @ us \<and> ms = take (length rs) ms @ ms' \<and> length rs \<le> length ms \<and> subseq xs (take (length rs) ms) \<and>
       list_all2 (\<lambda>m u. ur_URL u = mb_chatCompletionsURL (backendOf h m) \<and> candidateBody rawBody q m = Inr (ur_Body u)) xs us"
proof (induction rule: tried.induct)
  case (tried_none ms st)
  then show ?case by (intro exI [of _ "[]"]) simp
next
  case (tried_next m body st st1 res ms rs ms' st')
  then obtain us xs where ih: "px_sent st' = px_sent (afterFailure m ms res st1) @ us" "ms = take (length rs) ms @ ms'" "length rs \<le> length ms"
    "subseq xs (take (length rs) ms)"
    "list_all2 (\<lambda>m u. ur_URL u = mb_chatCompletionsURL (backendOf h m) \<and> candidateBody rawBody q m = Inr (ur_Body u)) xs us"
    by blast
  have same: "px_sent (afterFailure m ms res st1) = px_sent st1" by (simp add: afterFailure_def split: list.split)
  from attempt_outcome [OF tried_next(3)] consider "px_sent st1 = px_sent st"
    | u where "px_sent st1 = px_sent st @ [u]" "ur_URL u = mb_chatCompletionsURL (backendOf h m)" "ur_Body u = body"
    by (auto simp: sentBy_def)
  then show ?case
  proof cases
    case 1
    with ih same show ?thesis by (intro exI [of _ us] exI [of _ xs]) auto
  next
    case 2
    with ih same tried_next(2) show ?thesis
      by (intro exI [of _ "u # us"] exI [of _ "m # xs"]) auto
  qed
qed

lemma px_newID: "newID ev pre st = (i, st1) \<Longrightarrow> px_sent st1 = px_sent st"
  by (auto simp: newID_def tickNow_def split: list.splits option.splits)

lemma px_streamMock: "streamMock ev q backend st w = (st1, w1, ok) \<Longrightarrow> px_sent st1 = px_sent st"
  by (auto simp: streamMock_def tickNow_def Let_def dest!: px_newID split: if_splits prod.splits)

lemma px_serveMock: "px_sent (fst (serveMock ev q backend st w)) = px_sent st"
proof (cases "cr_Stream q")
  case True
  obtain st1 w1 ok where "streamMock ev q backend (st\<lparr>px_tick := px_tick st + 1\<rparr>) w = (st1, w1, ok)"
    by (cases "streamMock ev q backend (st\<lparr>px_tick := px_tick st + 1\<rparr>) w") auto
  with px_streamMock [OF this] True show ?thesis by (simp add: serveMock_def tickNow_def Let_def)
next
  case False
  obtain i st1 where "newID ev ''chatcmpl'' (st\<lparr>px_tick := px_tick st + 1\<rparr>) = (i, st1)" by fastforce
  with px_newID [OF this] False show ?thesis by (simp add: serveMock_def tickNow_def Let_def)
qed

lemma subseq_distinct_chain: "subseq xs ys \<Longrightarrow> distinct ys \<Longrightarrow> distinct xs"
  by (induction rule: list_emb.induct) (auto dest: list_emb_set)

lemma candidates_distinct: "distinct (candidateModels models fb model)"
  using visitAll_keeps [of "[]" models fb "[model]"] by (simp add: candidateModels_def)

lemma answered_sent:
  assumes "answeredBy h ev r rawBody q m st w out"
  shows "px_sent (fst out) = px_sent st \<or>
    (\<exists>u. px_sent (fst out) = px_sent st @ [u] \<and> ur_URL u = mb_chatCompletionsURL (backendOf h m) \<and> candidateBody rawBody q m = Inr (ur_Body u))"
proof (cases "candidateBody rawBody q m")
  case (Inl e)
  with assms show ?thesis by (simp add: answeredBy_def)
next
  case (Inr body)
  show ?thesis
  proof (cases "mb_backendType (backendOf h m) = ''mock''")
    case True
    with assms Inr show ?thesis by (simp add: answeredBy_def px_serveMock)
  next
    case False
    then obtain st' w' res where "proxyOpenAICompatible ev r body (q\<lparr>cr_Model := m\<rparr>) (backendOf h m) st w = (st', w', res)" "out = (st', w')"
      using assms Inr by (auto simp: answeredBy_def)
    then show ?thesis using attempt_outcome Inr by (fastforce simp: sentBy_def)
  qed
qed

text \<open>C14. The backends of the chain are asked in the order of the chain, each at most once, and each gets the
  client's body with its own model name in it: the requests that are handed to the HTTP client for a chat completion
  belong, one by one and in this order, to some of the candidates.\<close>

theorem requests_follow_chain:
  "\<exists>xs us. px_sent (fst (serveChatCompletionWithFallback h ev r rawBody q st w)) = px_sent st @ us \<and>
     subseq xs (candidateModels (map mi_ID (h_models h)) (h_fallbacks h) (cr_Model q)) \<and> distinct xs \<and>
     list_all2 (\<lambda>m u. ur_URL u = mb_chatCompletionsURL (backendOf h m) \<and> candidateBody rawBody q m = Inr (ur_Body u)) xs us"
proof -
  let ?cs = "candidateModels (map mi_ID (h_models h)) (h_fallbacks h) (cr_Model q)"
  let ?fits = "list_all2 (\<lambda>m u. ur_URL u = mb_chatCompletionsURL (backendOf h m) \<and> candidateBody rawBody q m = Inr (ur_Body u))"
  let ?run = "serveCandidates h ev r rawBody q \<lparr>fs_any = False, fs_allTimeout = False\<rparr> ?cs st w"
  have "\<exists>xs us. px_sent (fst ?run) = px_sent st @ us \<and> subseq xs ?cs \<and> ?fits xs us"
  proof -
    obtain rs ms' st' where tr: "tried h ev r rawBody q w ?cs st rs ms' st'"
      and out: "case ms' of [] \<Rightarrow> ?run = (st', exhausted (fold observeFailure rs \<lparr>fs_any = False, fs_allTimeout = False\<rparr>) w)
        | m # _ \<Rightarrow> answeredBy h ev r rawBody q m st' w ?run"
      using serveCandidates_runs [of h ev r rawBody q w ?cs st "\<lparr>fs_any = False, fs_allTimeout = False\<rparr>"] by blast
    obtain xs us where sent: "px_sent st' = px_sent st @ us" "?cs = take (length rs) ?cs @ ms'" "subseq xs (take (length rs) ?cs)" "?fits xs us"
      using tried_sent [OF tr] by blast
    have sub: "subseq xs ?cs" using subseq_rev_drop_many [OF sent(3), of ms'] sent(2) by simp
    show ?thesis
    proof (cases ms')
      case Nil
      with out sent sub show ?thesis by auto
    next
      case (Cons m ms)
      then consider "px_sent (fst ?run) = px_sent st'"
        | u where "px_sent (fst ?run) = px_sent st' @ [u]" "ur_URL u = mb_chatCompletionsURL (backendOf h m)" "candidateBody rawBody q m = Inr (ur_Body u)"
        using answered_sent [of h ev r rawBody q m st' w ?run] out by auto
      then show ?thesis
      proof cases
        case 1
        with sent sub show ?thesis by auto
      next
        case 2
        have "subseq (xs @ [m]) (take (length rs) ?cs @ m # ms)"
          using sent(3) by (intro list_emb_append_mono) auto
        then have "subseq (xs @ [m]) ?cs" using sent(2) Cons by simp
        moreover have "?fits (xs @ [m]) (us @ [u])" using sent(4) 2 by (simp add: list_all2_appendI)
        ultimately show ?thesis using sent(1) 2 by (intro exI [of _ "xs @ [m]"] exI [of _ "us @ [u]"]) simp
      qed
    qed
  qed
  then obtain xs us where run: "px_sent (fst ?run) = px_sent st @ us" "subseq xs ?cs" "?fits xs us" by blast
  have "distinct xs" using subseq_distinct_chain [OF run(2) candidates_distinct] .
  with run show ?thesis
    by (cases "?cs = []") (auto simp: serveChatCompletionWithFallback_def Let_def)
qed

text \<open>A backend that refuses connections, and a breaker that opens at the first failure.\<close>

definition demoBackend :: modelBackend where
  "demoBackend = \<lparr>mb_cfg = \<lparr>be_Name = ''b'', be_Type = ''openai'', be_BaseURL = ''http://b'', be_APIKey = ''k'', be_APIKeyEnv = [], be_Models = [''m'']\<rparr>,
     mb_backendType = ''openai_compatible'', mb_chatCompletionsURL = ''http://b/v1/chat/completions''\<rparr>"

definition refusingNet :: "nat \<Rightarrow> upstreamRequest \<Rightarrow> upReply" where
  "refusingNet n u = \<lparr>up_err = Some (OtherError ''connection refused''), up_status = 0, up_header = [], up_body = \<lparr>rd_bytes = [], rd_err = EOF\<rparr>, up_waits = []\<rparr>"

definition demoEnv :: "(nat \<Rightarrow> upstreamRequest \<Rightarrow> upReply) \<Rightarrow> env" where
  "demoEnv net = \<lparr>ev_net = net, ev_clock = (\<lambda>_. 0), ev_getenv = (\<lambda>_. []), ev_propagate = (\<lambda>_ h. h), ev_done = (\<lambda>_. False)\<rparr>"

definition demoState :: proxyState where
  "demoState = \<lparr>px_breaker = Some (newCircuitBreaker demoBreakerCfg [''b''] False), px_metrics = None,
     px_entropy = demoEntropy, px_sent = [], px_tick = 0\<rparr>"



text \<open>
  A client that goes away. Before the first token the permit is ignored; once the stream is relayed, the
  same cancellation counts as a failure of the backend.
\<close>

lemma readSSE_eof: "readSSE ds e [] = ([], Some e, [])"
  by (simp add: readSSE.simps)

theorem cancel_before_first_token_is_ignored:
  "attemptError ev p name result Canceled st w = (permitOp Ignore ev p st, w, result, doneAttempt)"
  by (simp add: attemptError_def failureReasons)

theorem cancel_mid_stream_blames_backend:
  fixes reply :: upReply and w :: writer
  defines "w3 \<equiv> WriteHeader (up_status reply) (if hGet (up_header reply) ''Content-Type'' = []
      then onHeader (hSet ''Content-Type'' ''text/event-stream; charset=utf-8'') (onHeader (copyResponseHeaders (up_header reply)) w)
      else onHeader (copyResponseHeaders (up_header reply)) w)"
  assumes "writeBufferedSSE buffered w3 = (w4, True)" "isFlusher w4"
  shows "\<exists>st'. relayStream ev p name start reply \<lparr>rd_bytes = [], rd_err = Canceled\<rparr> buffered True st w =
      (st', w4, RequestResultFailure, doneAttempt) \<and> settledOnce st st' p False True"
proof -
  have copy: "streamCopyFromReader w4 \<lparr>rd_bytes = [], rd_err = Canceled\<rparr> True = (w4, False, 0)"
    using assms(3) by (simp add: streamCopyFromReader_def streamLoop.simps readSSE_eof)
  let ?st = "observeFirstToken ev start name st"
  let ?st' = "observeUpstreamError name failureReasonStream (permitOp Fail ev p ?st)"
  have "relayStream ev p name start reply \<lparr>rd_bytes = [], rd_err = Canceled\<rparr> buffered True st w = (?st', w4, RequestResultFailure, doneAttempt)"
    using assms(2) copy by (simp add: relayStream_def w3_def Let_def)
  moreover have "settledOnce st ?st' p False True"
    by (rule settled_permitOp(2) [of ?st]) simp_all
  ultimately show ?thesis by blast
qed

section \<open>The entry point\<close>

text \<open>Nothing leaves the gateway for a request that is not a well-formed chat completion: a request to a
  backend is sent only for a POST with a body of at most 10 MiB that decodes, names a configured model
  (after trimming) and has at least one message; any other request gets an error and leaves the state
  of the handler as it is.\<close>

theorem handler_gate:
  assumes "ServeHTTP h ev st r w = (st', w')" "st' \<noteq> st"
  shows "rq_Method r = ''POST'' \<and> length (rq_Body r) \<le> llm_maxRequestBodyBytes \<and>
    (\<exists>q. decChatRequest (rq_Body r) = Some q \<and> TrimSpace (cr_Model q) \<noteq> [] \<and> items (cr_Messages q) \<noteq> [] \<and>
       h_backends h (TrimSpace (cr_Model q)) \<noteq> None \<and>
       (st', w') = serveChatCompletionWithFallback h ev r (rq_Body r) (q\<lparr>cr_Model := TrimSpace (cr_Model q)\<rparr>) st w)"
  using assms by (auto simp: ServeHTTP_def readBody_def Let_def split: if_splits option.splits)

definition mockHandler :: Handler where
  "mockHandler = \<lparr>h_backends = [''m'' \<mapsto> demoBackend\<lparr>mb_backendType := ''mock''\<rparr>], h_models = [\<lparr>mi_ID = ''m'', mi_Backend = ''b''\<rparr>],
     h_requestTimeout = second, h_firstTokenTimeout = second, h_fallbacks = (\<lambda>_. [])\<rparr>"

definition mockBody :: string where
  \<open>mockBody = ''{"model":" m ","messages":[{"role":"user","content":"hi"}]}''\<close>

lemma mock_serves: "px_tick (fst (serveMock (demoEnv refusingNet) q b demoState w)) \<noteq> px_tick demoState" if "\<not> cr_Stream q"
  using that by (simp add: serveMock_def tickNow_def newID_def demoState_def demoEntropy_def observeBackendRequest_def onMetrics_def Let_def)

theorem handler_gate_witness:
  "\<exists>st' w'. ServeHTTP mockHandler (demoEnv refusingNet) demoState (demoTraced\<lparr>rq_Body := mockBody\<rparr>) (Server (newServerWriter [])) = (st', w') \<and>
     length mockBody \<le> llm_maxRequestBodyBytes"
proof -
  let ?ev = "demoEnv refusingNet" and ?w = "Server (newServerWriter [])" and ?r = "demoTraced\<lparr>rq_Body := mockBody\<rparr>"
  let ?q = "\<lparr>cr_Model = '' m '', cr_Messages = \<lparr>backing = [\<lparr>cm_Role = ''user'', cm_Content = [CHR 0x22] @ ''hi'' @ [CHR 0x22]\<rparr>], slen = 1\<rparr>, cr_Stream = False\<rparr>"
  let ?q1 = "?q\<lparr>cr_Model := ''m''\<rparr>"
  have body: "readBody llm_maxRequestBodyBytes ?r = Some mockBody"
    by (simp add: readBody_def llm_maxRequestBodyBytes_def mockBody_def)
  have dec: "decChatRequest mockBody = Some ?q" by code_simp
  have trim: "TrimSpace '' m '' = ''m''" by code_simp
  have msgs: "items (cr_Messages ?q) \<noteq> []" by code_simp
  have cs: "candidateModels (map mi_ID (h_models mockHandler)) (h_fallbacks mockHandler) ''m'' = [''m'']"
    by (simp add: candidateModels_def mockHandler_def visitOne_def)
  have "backendOf mockHandler ''m'' = demoBackend\<lparr>mb_backendType := ''mock''\<rparr>" by (simp add: backendOf_def mockHandler_def)
  then have serve: "serveChatCompletionWithFallback mockHandler ?ev ?r mockBody ?q1 demoState ?w =
      serveMock ?ev (?q1\<lparr>cr_Model := ''m''\<rparr>) (demoBackend\<lparr>mb_backendType := ''mock''\<rparr>) demoState ?w"
    using cs by (simp add: serveChatCompletionWithFallback_def candidateBody_def Let_def)
  have known: "h_backends mockHandler ''m'' \<noteq> None" and post: "rq_Method ?r = ''POST''" by (simp_all add: mockHandler_def demoTraced_def)
  have http: "ServeHTTP mockHandler ?ev demoState ?r ?w = serveChatCompletionWithFallback mockHandler ?ev ?r mockBody ?q1 demoState ?w"
    unfolding ServeHTTP_def body post using dec trim msgs known by (auto simp: Let_def)
  obtain st' w' where run: "ServeHTTP mockHandler ?ev demoState ?r ?w = (st', w')" by fastforce
  have "fst (serveMock ?ev (?q1\<lparr>cr_Model := ''m''\<rparr>) (demoBackend\<lparr>mb_backendType := ''mock''\<rparr>) demoState ?w) = st'"
    unfolding serve [symmetric] http [symmetric] run by simp
  moreover have "px_tick (fst (serveMock ?ev (?q1\<lparr>cr_Model := ''m''\<rparr>) (demoBackend\<lparr>mb_backendType := ''mock''\<rparr>) demoState ?w)) \<noteq> px_tick demoState"
    by (rule mock_serves) simp
  ultimately have "px_tick st' \<noteq> px_tick demoState" by simp
  then have "st' \<noteq> demoState" by auto
  from handler_gate [OF run this] show ?thesis using run by simp
qed

end
