(* ===== verification/Budget.thy ===== *)
theory Budget
  imports Config_Types
begin

text \<open>
  The token budget limiter, \<^verbatim>\<open>internal/tokenusage/budget.go\<close>. The limiter keeps, per identity,
  the windows in which tokens were used or reserved. Each public method changes the limiter only
  while it holds the mutex, so its effect is one step: a function from the limiter to the new limiter
  and the results. \<open>None\<close> is the run-time panic of an integer division by zero (a window of length
  0). The clock reading of \<^verbatim>\<open>l.now()\<close> is the argument \<open>now\<close>. \<^verbatim>\<open>reserve\<close> and \<^verbatim>\<open>snapshot\<close> read the clock before
  they wait for the mutex, \<^verbatim>\<open>Commit\<close> and \<^verbatim>\<open>Release\<close> while they hold it: for the first two \<open>now\<close> may lie in the
  past when the step takes place.
\<close>

record budgetWindow =
  used :: int
  reserved :: int

record identityBudget =
  windows :: "int \<rightharpoonup> budgetWindow"
  lastSeen :: time

record BudgetLimiter =
  identityHeader :: string
  window :: duration
  defaultBudgetTokens :: int
  defaultMaxCompletionTokens :: int
  userBudgets :: "string \<rightharpoonup> int"
  identityIdleTTL :: duration
  accounts :: "string \<rightharpoonup> identityBudget"

text \<open>A reservation points to its limiter; here the limiter is the state the methods take.\<close>

record Reservation =
  res_identity :: string
  res_windowID :: int
  res_tokens :: int
  res_done :: bool

record BudgetSnapshot =
  snap_Limit :: int
  snap_Used :: int
  snap_Reserved :: int
  snap_Remaining :: int
  snap_ResetAt :: time

definition emptyWindow :: budgetWindow where
  "emptyWindow = \<lparr>used = 0, reserved = 0\<rparr>"

definition zeroSnapshot :: BudgetSnapshot where
  "zeroSnapshot = \<lparr>snap_Limit = 0, snap_Used = 0, snap_Reserved = 0, snap_Remaining = 0, snap_ResetAt = zeroTime\<rparr>"

definition defaultIdentityIdleTTL :: duration where
  "defaultIdentityIdleTTL = 48 * hour"

definition NewBudgetLimiter :: "TokenUsageConfig \<Rightarrow> BudgetLimiter" where
  "NewBudgetLimiter cfg = \<lparr>
     identityHeader = TrimSpace (tu_IdentityHeader cfg),
     window = tu_Window cfg,
     defaultBudgetTokens = tu_DefaultBudgetTokens cfg,
     defaultMaxCompletionTokens = tu_DefaultMaxCompletionTokens cfg,
     userBudgets = fold (\<lambda>(identity, budget) m. m(TrimSpace identity \<mapsto> budget)) (tu_UserBudgets cfg) Map.empty,
     identityIdleTTL = defaultIdentityIdleTTL,
     accounts = Map.empty\<rparr>"

fun defaultCompletionBudget :: "BudgetLimiter option \<Rightarrow> int" where
  "defaultCompletionBudget None = 0"
| "defaultCompletionBudget (Some l) = defaultMaxCompletionTokens l"

definition budgetForIdentity :: "BudgetLimiter \<Rightarrow> string \<Rightarrow> int" where
  "budgetForIdentity l identity =
     (case userBudgets l identity of Some budget \<Rightarrow> budget | None \<Rightarrow> defaultBudgetTokens l)"

text \<open>\<^verbatim>\<open>now.UnixNano()\<close> is a 64-bit number.\<close>

definition windowID :: "BudgetLimiter \<Rightarrow> time \<Rightarrow> int" where
  "windowID l now = quot64 (wrap64 now) (window l)"

definition resetAt :: "BudgetLimiter \<Rightarrow> int \<Rightarrow> time" where
  "resetAt l wid = wrap64 (wrap64 (wid + 1) * window l)"

definition snapshotLocked :: "BudgetLimiter \<Rightarrow> budgetWindow option \<Rightarrow> int \<Rightarrow> int \<Rightarrow> BudgetSnapshot" where
  "snapshotLocked l w limit wid =
     (let u = (case w of None \<Rightarrow> 0 | Some b \<Rightarrow> used b);
          r = (case w of None \<Rightarrow> 0 | Some b \<Rightarrow> reserved b);
          remaining = wrap64 (wrap64 (limit - u) - r)
      in \<lparr>snap_Limit = limit, snap_Used = u, snap_Reserved = r,
          snap_Remaining = (if remaining < 0 then 0 else remaining),
          snap_ResetAt = resetAt l wid\<rparr>)"

definition accountLocked :: "BudgetLimiter \<Rightarrow> string \<Rightarrow> time \<Rightarrow> BudgetLimiter \<times> identityBudget" where
  "accountLocked l identity now =
     (let account = (case accounts l identity of Some a \<Rightarrow> a | None \<Rightarrow> \<lparr>windows = Map.empty, lastSeen = zeroTime\<rparr>);
          wid = windowID l now;
          ws = (if windows account wid = None then (windows account)(wid \<mapsto> emptyWindow) else windows account);
          account' = account\<lparr>lastSeen := now, windows := ws\<rparr>
      in (l\<lparr>accounts := (accounts l)(identity \<mapsto> account')\<rparr>, account'))"

definition windowLocked :: "identityBudget \<Rightarrow> int \<Rightarrow> identityBudget \<times> budgetWindow" where
  "windowLocked account wid =
     (case windows account wid of
        Some w \<Rightarrow> (account, w)
      | None \<Rightarrow> (account\<lparr>windows := (windows account)(wid \<mapsto> emptyWindow)\<rparr>, emptyWindow))"

text \<open>
  \<^verbatim>\<open>cleanupLocked\<close> visits every account once and only touches the account it visits, so the
  iteration order does not matter and the loop is a map over the accounts.
\<close>

definition keepWindow :: "int \<Rightarrow> int \<Rightarrow> budgetWindow \<Rightarrow> bool" where
  "keepWindow current wid w \<longleftrightarrow> \<not> (wid < wrap64 (current - 1) \<and> reserved w = 0)"

definition cleanupAccount :: "BudgetLimiter \<Rightarrow> time \<Rightarrow> identityBudget \<Rightarrow> identityBudget option" where
  "cleanupAccount l now account =
     (if timeSub now (lastSeen account) \<ge> identityIdleTTL l then None
      else Some (account\<lparr>windows := (\<lambda>wid. case windows account wid of
             None \<Rightarrow> None
           | Some w \<Rightarrow> if keepWindow (windowID l now) wid w then Some w else None)\<rparr>))"

definition budget_cleanupLocked :: "BudgetLimiter \<Rightarrow> time \<Rightarrow> BudgetLimiter" where
  "budget_cleanupLocked l now =
     (if identityIdleTTL l \<le> 0 then l
      else l\<lparr>accounts := (\<lambda>identity. case accounts l identity of
               None \<Rightarrow> None | Some a \<Rightarrow> cleanupAccount l now a)\<rparr>)"

definition putWindow :: "BudgetLimiter \<Rightarrow> string \<Rightarrow> int \<Rightarrow> budgetWindow \<Rightarrow> BudgetLimiter" where
  "putWindow l identity wid w =
     (case accounts l identity of
        None \<Rightarrow> l
      | Some a \<Rightarrow> l\<lparr>accounts := (accounts l)(identity \<mapsto> a\<lparr>windows := (windows a)(wid \<mapsto> w)\<rparr>)\<rparr>)"

text \<open>
  \<^verbatim>\<open>reserve\<close>: the new limiter, the reservation (\<open>None\<close> is the nil pointer), the snapshot and
  the verdict. A nil limiter admits everything.
\<close>

fun reserve :: "BudgetLimiter option \<Rightarrow> time \<Rightarrow> string \<Rightarrow> int \<Rightarrow>
    (BudgetLimiter option \<times> Reservation option \<times> BudgetSnapshot \<times> bool) option" where
  "reserve None now identity tokens = Some (None, None, zeroSnapshot, True)"
| "reserve (Some l) now identity tokens =
     (if window l = 0 then None
      else
        let tokens' = (if tokens \<le> 0 then 1 else tokens);
            wid = windowID l now;
            l1 = budget_cleanupLocked l now;
            (l2, account) = accountLocked l1 identity now;
            w = windows account wid;
            limit = budgetForIdentity l2 identity;
            snap = snapshotLocked l2 w limit wid
        in if tokens' > snap_Remaining snap then Some (Some l2, None, snap, False)
           else
             let b = (case w of Some b \<Rightarrow> b | None \<Rightarrow> emptyWindow);
                 w' = b\<lparr>reserved := wrap64 (reserved b + tokens')\<rparr>;
                 l3 = putWindow l2 identity wid w'
             in Some (Some l3,
                  Some \<lparr>res_identity = identity, res_windowID = wid, res_tokens = tokens', res_done = False\<rparr>,
                  snapshotLocked l3 (Some w') limit wid, True))"

fun snapshot :: "BudgetLimiter option \<Rightarrow> time \<Rightarrow> string \<Rightarrow> (BudgetLimiter option \<times> BudgetSnapshot) option" where
  "snapshot None now identity = Some (None, zeroSnapshot)"
| "snapshot (Some l) now identity =
     (if window l = 0 then None
      else
        let (l', account) = accountLocked l identity now; wid = windowID l now
        in Some (Some l', snapshotLocked l' (windows account wid) (budgetForIdentity l' identity) wid))"

declare reserve.simps(2) [simp del] snapshot.simps(2) [simp del]

text \<open>
  \<^verbatim>\<open>Commit\<close> and \<^verbatim>\<open>Release\<close>. Their common part frees the reserved tokens; \<open>f\<close> is what they do
  to the window after that.
\<close>

definition freeReserved :: "budgetWindow \<Rightarrow> int \<Rightarrow> budgetWindow" where
  "freeReserved w tokens =
     (if reserved w \<ge> tokens then w\<lparr>reserved := wrap64 (reserved w - tokens)\<rparr> else w\<lparr>reserved := 0\<rparr>)"

definition settle :: "(budgetWindow \<Rightarrow> budgetWindow) \<Rightarrow> Reservation option \<Rightarrow> BudgetLimiter \<Rightarrow> time \<Rightarrow>
    (Reservation option \<times> BudgetLimiter \<times> BudgetSnapshot) option" where
  "settle f r l now =
     (case r of
        None \<Rightarrow> Some (None, l, zeroSnapshot)
      | Some r \<Rightarrow>
          if res_done r then Some (Some r, l, zeroSnapshot)
          else if window l = 0 then None
          else
            let (l1, account) = accountLocked l (res_identity r) now;
                (account', w) = windowLocked account (res_windowID r);
                w' = f (freeReserved w (res_tokens r));
                l2 = l1\<lparr>accounts := (accounts l1)(res_identity r \<mapsto> account'\<lparr>windows := (windows account')(res_windowID r \<mapsto> w')\<rparr>)\<rparr>
            in Some (Some (r\<lparr>res_done := True\<rparr>), l2,
                 snapshotLocked l2 (Some w') (budgetForIdentity l2 (res_identity r)) (res_windowID r)))"

definition Commit :: "Reservation option \<Rightarrow> BudgetLimiter \<Rightarrow> time \<Rightarrow> int \<Rightarrow>
    (Reservation option \<times> BudgetLimiter \<times> BudgetSnapshot) option" where
  "Commit r l now actualTokens =
     (let actual = (if actualTokens < 0 then 0 else actualTokens)
      in settle (\<lambda>w. w\<lparr>used := wrap64 (used w + actual)\<rparr>) r l now)"

definition Release :: "Reservation option \<Rightarrow> BudgetLimiter \<Rightarrow> time \<Rightarrow>
    (Reservation option \<times> BudgetLimiter \<times> BudgetSnapshot) option" where
  "Release r l now = settle id r l now"


section \<open>The limiter as a ledger\<close>

text \<open>
  The abstract state of the limiter is a ledger: for every identity and window the used and
  reserved tokens, zero where nothing is recorded. The methods are characterised by what they
  do to the ledger.
\<close>

definition ledger :: "BudgetLimiter \<Rightarrow> string \<Rightarrow> int \<Rightarrow> budgetWindow" where
  "ledger l identity wid =
     (case accounts l identity of None \<Rightarrow> emptyWindow
      | Some a \<Rightarrow> (case windows a wid of None \<Rightarrow> emptyWindow | Some w \<Rightarrow> w))"

definition put :: "(string \<Rightarrow> int \<Rightarrow> budgetWindow) \<Rightarrow> string \<Rightarrow> int \<Rightarrow> budgetWindow \<Rightarrow> (string \<Rightarrow> int \<Rightarrow> budgetWindow)" where
  "put m identity wid w = m(identity := (m identity)(wid := w))"

text \<open>What holds of the recorded accounts at a time, if no clock reading is more than \<open>\<delta>\<close> old when it is used: an
  account was last seen in the past, its windows have begun, and it was last seen at most \<open>\<delta>\<close> before the start of any
  of them.\<close>

definition accountsOk :: "duration \<Rightarrow> BudgetLimiter \<Rightarrow> time \<Rightarrow> bool" where
  "accountsOk \<delta> l now \<longleftrightarrow>
     (\<forall>identity a. accounts l identity = Some a \<longrightarrow>
        0 \<le> lastSeen a \<and> lastSeen a \<le> now \<and>
        (\<forall>wid. windows a wid \<noteq> None \<longrightarrow> wid * window l \<le> now \<and> wid * window l \<le> lastSeen a + \<delta>))"

text \<open>A clock reading within the range of \<^verbatim>\<open>UnixNano\<close>.\<close>

abbreviation clockOk :: "time \<Rightarrow> bool" where
  "clockOk now \<equiv> 0 \<le> now \<and> now < 2 ^ 63"

text \<open>A reading \<open>t\<close> of the clock that is at most \<open>\<delta>\<close> old.\<close>

definition lateReading :: "duration \<Rightarrow> time \<Rightarrow> time \<Rightarrow> bool" where
  "lateReading \<delta> now t \<longleftrightarrow> 0 \<le> t \<and> now - \<delta> \<le> t \<and> t \<le> now"

lemma budgetForIdentity_accounts [simp]:
  "budgetForIdentity (l\<lparr>accounts := A\<rparr>) = budgetForIdentity l"
  by (simp add: fun_eq_iff budgetForIdentity_def split: option.split)

lemma windowID_accounts [simp]: "windowID (l\<lparr>accounts := A\<rparr>) = windowID l"
  by (simp add: fun_eq_iff windowID_def)

lemma resetAt_accounts [simp]: "resetAt (l\<lparr>accounts := A\<rparr>) = resetAt l"
  by (simp add: fun_eq_iff resetAt_def)

lemma snapshotLocked_accounts [simp]: "snapshotLocked (l\<lparr>accounts := A\<rparr>) = snapshotLocked l"
  by (simp add: fun_eq_iff snapshotLocked_def)

lemma windowID_div: "clockOk now \<Longrightarrow> 0 < window l \<Longrightarrow> windowID l now = now div window l"
  by (simp add: windowID_def quot64_pos int64_def)

lemma windowID_range: "clockOk now \<Longrightarrow> 0 < window l \<Longrightarrow> 0 \<le> windowID l now \<and> windowID l now < 2 ^ 63"
  using int_div_less_self [of now "window l"]
  by (cases "now = 0 \<or> window l = 1") (auto simp: windowID_div pos_imp_zdiv_nonneg_iff)

lemma windowID_mono: "clockOk t \<Longrightarrow> clockOk u \<Longrightarrow> 0 < window l \<Longrightarrow> t \<le> u \<Longrightarrow> windowID l t \<le> windowID l u"
  by (simp add: windowID_div zdiv_mono1)

lemma windowID_start: "clockOk now \<Longrightarrow> 0 < window l \<Longrightarrow> windowID l now * window l \<le> now"
  by (simp add: windowID_div div_window_bounds)

lemma windowID_end: "clockOk now \<Longrightarrow> 0 < window l \<Longrightarrow> now < windowID l now * window l + window l"
  by (simp add: windowID_div div_window_bounds)

lemma windowID_greatest:
  "clockOk now \<Longrightarrow> 0 < window l \<Longrightarrow> wid * window l \<le> now \<Longrightarrow> wid \<le> windowID l now"
  using zdiv_mono1 [of "wid * window l" now "window l"] by (simp add: windowID_div)

lemma put_same [simp]: "put m identity wid w identity wid = w"
  by (simp add: put_def)

lemma put_other: "(i, k) \<noteq> (identity, wid) \<Longrightarrow> put m identity wid w i k = m i k"
  by (auto simp: put_def)

lemma put_apply: "put m identity wid w i k = (if i = identity \<and> k = wid then w else m i k)"
  by (auto simp: put_def)

lemma accountLocked_ledger:
  assumes "accountLocked l identity now = (l', a)"
  obtains A where "l' = l\<lparr>accounts := A\<rparr>" and "ledger l' = ledger l" and "accounts l' identity = Some a"
    and "windows a (windowID l now) = Some (ledger l identity (windowID l now))"
    and "lastSeen a = now"
  using assms
  by (fastforce simp: accountLocked_def Let_def ledger_def fun_eq_iff split: option.splits if_splits)

lemma accountLocked_ok:
  assumes "accountLocked l identity t = (l', a)" and "accountsOk \<delta> l now" and "lateReading \<delta> now t"
    and "clockOk now" and "0 < window l"
  shows "accountsOk \<delta> l' now"
proof -
  have t: "0 \<le> t" "t \<le> now" "now \<le> t + \<delta>" using assms(3) by (auto simp: lateReading_def)
  then have "windowID l t * window l \<le> t" using assms(4,5) by (intro windowID_start) auto
  with t have new: "windowID l t * window l \<le> now" "windowID l t * window l \<le> t + \<delta>" by linarith+
  have old: "wid * window l \<le> now \<and> wid * window l \<le> t + \<delta>" if "accounts l identity = Some b" "windows b wid \<noteq> None" for b wid
  proof -
    have "wid * window l \<le> now" using assms(2) that by (auto simp: accountsOk_def)
    with t(3) show ?thesis by linarith
  qed
  show ?thesis
    using assms(1,2) t new old
    by (fastforce simp: accountLocked_def Let_def accountsOk_def split: option.splits if_splits)
qed

lemma windowLocked_ledger:
  "windowLocked a wid = (a', w) \<Longrightarrow>
     w = (case windows a wid of None \<Rightarrow> emptyWindow | Some w \<Rightarrow> w) \<and>
     lastSeen a' = lastSeen a \<and> windows a' = (windows a)(wid \<mapsto> w)"
  by (auto simp: windowLocked_def fun_eq_iff split: option.splits)

lemma putWindow_ledger:
  "accounts l identity \<noteq> None \<Longrightarrow> ledger (putWindow l identity wid w) = put (ledger l) identity wid w"
  by (auto simp: putWindow_def ledger_def put_def fun_eq_iff)

lemma putWindow_form: "\<exists>A. putWindow l identity wid w = l\<lparr>accounts := A\<rparr>"
  by (auto simp: putWindow_def split: option.splits intro: exI [of _ "accounts l"])


section \<open>The methods on the ledger\<close>

lemma cleanup_form: "\<exists>A. budget_cleanupLocked l now = l\<lparr>accounts := A\<rparr>"
  by (auto simp: budget_cleanupLocked_def intro: exI [of _ "accounts l"])

lemma cleanup_ledger:
  "ledger (budget_cleanupLocked l now) i k = ledger l i k \<or> ledger (budget_cleanupLocked l now) i k = emptyWindow"
  by (auto simp: budget_cleanupLocked_def ledger_def cleanupAccount_def split: option.splits)

lemma cleanup_ok: "accountsOk \<delta> l now \<Longrightarrow> accountsOk \<delta> (budget_cleanupLocked l t) now"
  by (fastforce simp: accountsOk_def budget_cleanupLocked_def cleanupAccount_def split: option.splits if_splits)

text \<open>
  The oldest window in which a clock reading that is at most \<open>\<delta>\<close> old may lie. If \<open>\<delta>\<close> is no longer than a window, it is
  the current or the previous one.
\<close>

definition oldestWindow :: "duration \<Rightarrow> BudgetLimiter \<Rightarrow> time \<Rightarrow> int" where
  "oldestWindow \<delta> l now = windowID l (max 0 (now - \<delta>))"

lemma oldestWindow_late:
  assumes "lateReading \<delta> now t" "clockOk now" "0 < window l"
  shows "oldestWindow \<delta> l now \<le> windowID l t" "windowID l t \<le> windowID l now"
  unfolding oldestWindow_def using assms by (auto simp: lateReading_def intro!: windowID_mono)

lemma oldestWindow_recent:
  assumes "clockOk now" "0 \<le> \<delta>" "\<delta> \<le> window l" "0 < window l"
  shows "windowID l now - 1 \<le> oldestWindow \<delta> l now"
proof -
  have "windowID l now - 1 = (now - window l) div window l"
    using assms div_mult_self1 [of "window l" now "- 1"] by (simp add: windowID_div)
  also have "\<dots> \<le> max 0 (now - \<delta>) div window l" using assms by (intro zdiv_mono1) auto
  finally show ?thesis using assms by (simp add: oldestWindow_def windowID_div)
qed

text \<open>
  The clean-up never loses such a window of any identity, provided the idle time after which an account is dropped is at
  least the length of a window and twice the age of a clock reading.
\<close>

lemma cleanup_keeps:
  assumes ok: "accountsOk \<delta> l now" and t: "lateReading \<delta> now t" and now: "clockOk now" and w: "0 < window l"
    and ttl: "\<delta> \<le> window l" "window l + 2 * \<delta> \<le> identityIdleTTL l" and k: "oldestWindow \<delta> l now \<le> k"
  shows "ledger (budget_cleanupLocked l t) i k = ledger l i k"
proof (cases "accounts l i")
  case None
  then show ?thesis by (simp add: ledger_def budget_cleanupLocked_def)
next
  case a: (Some a)
  show ?thesis
  proof (cases "windows a k")
    case None
    with a show ?thesis
      by (simp add: ledger_def budget_cleanupLocked_def cleanupAccount_def)
  next
    case (Some b)
    have t': "0 \<le> t" "t \<le> now" "now \<le> t + \<delta>" using t by (auto simp: lateReading_def)
    have seen: "k * window l \<le> lastSeen a + \<delta>" "0 \<le> lastSeen a" "lastSeen a \<le> now"
      using ok a Some by (auto simp: accountsOk_def)
    have "max 0 (now - \<delta>) < oldestWindow \<delta> l now * window l + window l"
      unfolding oldestWindow_def using now w t' by (intro windowID_end) auto
    also have "\<dots> \<le> k * window l + window l" using k w by (simp add: mult_right_mono)
    finally have "t - lastSeen a < identityIdleTTL l" using seen(1) t' ttl(2) by linarith
    then have "timeSub t (lastSeen a) < identityIdleTTL l" using seen t' now by (simp add: timeSub_exact)
    moreover have "windowID l t - 1 \<le> k"
      using oldestWindow_late(2) [OF t now w] oldestWindow_recent [OF now _ ttl(1) w] k t' by linarith
    then have "keepWindow (windowID l t) k b"
      using windowID_range [of t l] now w t' by (simp add: keepWindow_def int64_def)
    ultimately show ?thesis
      using a Some by (simp add: ledger_def budget_cleanupLocked_def cleanupAccount_def)
  qed
qed

definition requested :: "int \<Rightarrow> int" where
  "requested tokens = (if tokens \<le> 0 then 1 else tokens)"

lemma reserve_ledger:
  fixes l :: BudgetLimiter and now :: time
  defines "l1 \<equiv> budget_cleanupLocked l now"
  defines "wid \<equiv> windowID l now"
  assumes res: "reserve (Some l) now identity tokens = Some (lp, r, snap, ok)"
  obtains l' A where "lp = Some l'" and "l' = l\<lparr>accounts := A\<rparr>"
    and "ok \<longleftrightarrow> requested tokens \<le> snap_Remaining (snapshotLocked l (Some (ledger l1 identity wid)) (budgetForIdentity l identity) wid)"
    and "ok \<Longrightarrow> r = Some \<lparr>res_identity = identity, res_windowID = wid, res_tokens = requested tokens, res_done = False\<rparr>"
    and "ok \<Longrightarrow> ledger l' = put (ledger l1) identity wid
            ((ledger l1 identity wid)\<lparr>reserved := wrap64 (reserved (ledger l1 identity wid) + requested tokens)\<rparr>)"
    and "\<not> ok \<Longrightarrow> r = None \<and> ledger l' = ledger l1"
    and "snap = snapshotLocked l (Some (ledger l' identity wid)) (budgetForIdentity l identity) wid"
proof -
  obtain A1 where l1: "l1 = l\<lparr>accounts := A1\<rparr>"
    using cleanup_form unfolding l1_def by blast
  obtain l2 a where acc: "accountLocked l1 identity now = (l2, a)"
    by fastforce
  obtain A2 where l2: "l2 = l1\<lparr>accounts := A2\<rparr>" "ledger l2 = ledger l1" "accounts l2 identity = Some a"
    and win: "windows a wid = Some (ledger l1 identity wid)"
    using accountLocked_ledger [OF acc] l1 wid_def by (metis windowID_accounts)
  let ?b = "ledger l1 identity wid"
  let ?snap = "snapshotLocked l (Some ?b) (budgetForIdentity l identity) wid"
  let ?w = "?b\<lparr>reserved := wrap64 (reserved ?b + requested tokens)\<rparr>"
  let ?l3 = "putWindow l2 identity wid ?w"
  obtain A3 where l3: "?l3 = l\<lparr>accounts := A3\<rparr>"
    using putWindow_form [of l2 identity wid ?w] l1 l2 by auto
  have l3': "ledger ?l3 = put (ledger l1) identity wid ?w"
    using putWindow_ledger [of l2 identity wid ?w] l2 by simp
  have "(lp, r, snap, ok) =
     (if requested tokens > snap_Remaining ?snap then (Some l2, None, ?snap, False)
      else (Some ?l3, Some \<lparr>res_identity = identity, res_windowID = wid, res_tokens = requested tokens, res_done = False\<rparr>,
            snapshotLocked l (Some ?w) (budgetForIdentity l identity) wid, True))"
    using res acc win l3 l2(1) l1
    by (auto simp: reserve.simps(2) requested_def wid_def [symmetric] l1_def [symmetric] Let_def split: if_splits)
  note eq = this
  show ?thesis
  proof (cases "requested tokens > snap_Remaining ?snap")
    case True
    with eq have "lp = Some l2" "r = None" "snap = ?snap" "\<not> ok" by simp_all
    with True show ?thesis
      using that [of l2 A2] l1 l2(1,2) by simp
  next
    case False
    with eq have "lp = Some ?l3" "ok" "snap = snapshotLocked l (Some ?w) (budgetForIdentity l identity) wid"
      "r = Some \<lparr>res_identity = identity, res_windowID = wid, res_tokens = requested tokens, res_done = False\<rparr>"
      by simp_all
    with False show ?thesis
      using that [of ?l3 A3] l3 l3' by simp
  qed
qed

lemma settle_ledger:
  fixes r :: Reservation
  defines "i \<equiv> res_identity r" and "k \<equiv> res_windowID r"
  assumes res: "settle f (Some r) l now = Some (r', l', snap)" and live: "\<not> res_done r"
  obtains A where "l' = l\<lparr>accounts := A\<rparr>" and "r' = Some (r\<lparr>res_done := True\<rparr>)"
    and "ledger l' = put (ledger l) i k (f (freeReserved (ledger l i k) (res_tokens r)))"
    and "snap = snapshotLocked l (Some (ledger l' i k)) (budgetForIdentity l i) k"
    and "\<And>\<delta>. accountsOk \<delta> l now \<Longrightarrow> 0 \<le> \<delta> \<Longrightarrow> clockOk now \<Longrightarrow> 0 < window l \<Longrightarrow> k \<le> windowID l now \<Longrightarrow> accountsOk \<delta> l' now"
proof -
  obtain l1 a where acc: "accountLocked l i now = (l1, a)"
    by fastforce
  obtain A1 where l1: "l1 = l\<lparr>accounts := A1\<rparr>" "ledger l1 = ledger l" "accounts l1 i = Some a" "lastSeen a = now"
    using accountLocked_ledger [OF acc] by metis
  obtain a' w where win: "windowLocked a k = (a', w)"
    by fastforce
  then have w: "w = ledger l i k" "windows a' = (windows a)(k \<mapsto> w)" "lastSeen a' = now"
    using windowLocked_ledger [OF win] l1(3,4) unfolding l1(2) [symmetric]
    by (simp_all add: ledger_def)
  let ?w = "f (freeReserved w (res_tokens r))"
  let ?a = "a'\<lparr>windows := (windows a')(k \<mapsto> ?w)\<rparr>"
  let ?l = "l1\<lparr>accounts := (accounts l1)(i \<mapsto> ?a)\<rparr>"
  have led: "ledger ?l = put (ledger l) i k ?w"
    unfolding l1(2) [symmetric] using l1(3) w(2)
    by (auto simp: ledger_def put_def fun_eq_iff)
  have eq: "r' = Some (r\<lparr>res_done := True\<rparr>)" "l' = ?l" "snap = snapshotLocked l (Some ?w) (budgetForIdentity l i) k"
    using res live acc win l1(1) by (auto simp: settle_def Let_def i_def k_def split: if_splits)
  have "accountsOk \<delta> l' now" if "accountsOk \<delta> l now" "0 \<le> \<delta>" "clockOk now" "0 < window l" "k \<le> windowID l now" for \<delta>
  proof -
    have "lateReading \<delta> now now" using that by (simp add: lateReading_def)
    then have ok1: "accountsOk \<delta> l1 now"
      using accountLocked_ok [OF acc that(1)] that by blast
    have "k * window l \<le> now"
      using that windowID_start [of now l] by (meson mult_right_mono order_trans less_imp_le)
    then have "\<forall>wid. windows ?a wid \<noteq> None \<longrightarrow> wid * window l \<le> now"
      using ok1 l1(1,3,4) w(2) by (auto simp: accountsOk_def)
    with ok1 \<open>clockOk now\<close> \<open>0 \<le> \<delta>\<close> show ?thesis
      unfolding eq(2) using l1(1) w(3) by (fastforce simp: accountsOk_def)
  qed
  then show ?thesis
    using that [of "(accounts l1)(i \<mapsto> ?a)"] eq led l1(1) w(1) by simp
qed


lemma putWindow_ok:
  "accountsOk \<delta> l now \<Longrightarrow> accounts l i = Some a \<Longrightarrow> windows a wid \<noteq> None \<Longrightarrow> accountsOk \<delta> (putWindow l i wid w) now"
  by (fastforce simp: accountsOk_def putWindow_def)

lemma reserve_ok:
  assumes res: "reserve (Some l) t i n = Some (Some l', r, snap, ok)"
    and ok: "accountsOk \<delta> l now" and t: "lateReading \<delta> now t" and now: "clockOk now" and w: "0 < window l"
  shows "accountsOk \<delta> l' now"
proof -
  obtain l2 a where acc: "accountLocked (budget_cleanupLocked l t) i t = (l2, a)"
    by fastforce
  obtain A where l1: "budget_cleanupLocked l t = l\<lparr>accounts := A\<rparr>"
    using cleanup_form by blast
  have l2: "accountsOk \<delta> l2 now"
    using accountLocked_ok [OF acc cleanup_ok [OF ok] t now] w l1 by simp
  have a: "accounts l2 i = Some a" "windows a (windowID l t) \<noteq> None"
    using accountLocked_ledger [OF acc] l1 by (metis windowID_accounts option.distinct(1))+
  have "l' = l2 \<or> (\<exists>w. l' = putWindow l2 i (windowID l t) w)"
    using res acc by (auto simp: reserve.simps(2) Let_def split: if_splits)
  then show ?thesis
    using l2 putWindow_ok [OF l2 a] by auto
qed

lemma snapshot_ledger:
  assumes "snapshot (Some l) now i = Some (lp, snap)"
  obtains l' A where "lp = Some l'" and "l' = l\<lparr>accounts := A\<rparr>" and "ledger l' = ledger l"
    and "\<And>\<delta> clk. accountsOk \<delta> l clk \<Longrightarrow> lateReading \<delta> clk now \<Longrightarrow> clockOk clk \<Longrightarrow> 0 < window l \<Longrightarrow> accountsOk \<delta> l' clk"
    and "snap = snapshotLocked l (Some (ledger l i (windowID l now))) (budgetForIdentity l i) (windowID l now)"
proof -
  obtain l' a where acc: "accountLocked l i now = (l', a)"
    by fastforce
  obtain A where A: "l' = l\<lparr>accounts := A\<rparr>" "ledger l' = ledger l" "windows a (windowID l now) = Some (ledger l i (windowID l now))"
    using accountLocked_ledger [OF acc] by metis
  have "lp = Some l'" "snap = snapshotLocked l' (windows a (windowID l now)) (budgetForIdentity l' i) (windowID l now)"
    using assms acc by (auto simp: snapshot.simps(2) Let_def split: if_splits)
  then show ?thesis
    using that [of l' A] A accountLocked_ok [OF acc] by simp
qed

end
