(* ===== verification/Budget_Machine.thy ===== *)
theory Budget_Machine
  imports Budget
begin

text \<open>
  Concurrent requests against one budget limiter. The methods change the limiter only under its mutex, so a
  run of the gateway is a sequence of steps: the clock advances, a request reserves, a
  snapshot is read, an open reservation is committed or released. \<^verbatim>\<open>reserve\<close> and \<^verbatim>\<open>snapshot\<close> read the clock before
  they wait for the mutex: the steps are parameterised by the longest time \<open>\<delta>\<close> between this reading and the step, and
  use any reading that is not older. \<^verbatim>\<open>Commit\<close> and \<^verbatim>\<open>Release\<close> read it inside. The wall clock never goes back.
  The ghost fields \<open>spent\<close> and \<open>excess\<close> record, per identity and window, the tokens committed so far and by how much
  commits exceeded their own reservations; they are exact numbers, while the counters of the limiter wrap at 64 bits.
\<close>

record budget_sys =
  limiter :: BudgetLimiter
  clock :: time
  open_res :: "Reservation list"
  spent :: "string \<Rightarrow> int \<Rightarrow> int"
  excess :: "string \<Rightarrow> int \<Rightarrow> int"

definition bump2 :: "(string \<Rightarrow> int \<Rightarrow> int) \<Rightarrow> Reservation \<Rightarrow> int \<Rightarrow> (string \<Rightarrow> int \<Rightarrow> int)" where
  "bump2 m r n = (\<lambda>i k. if i = res_identity r \<and> k = res_windowID r then m i k + n else m i k)"

inductive budget_step :: "duration \<Rightarrow> budget_sys \<Rightarrow> budget_sys \<Rightarrow> bool" for \<delta> where
  bs_tick: "clock s \<le> t \<Longrightarrow> t < 2 ^ 63 \<Longrightarrow> budget_step \<delta> s (s\<lparr>clock := t\<rparr>)"
| bs_grant: "lateReading \<delta> (clock s) t \<Longrightarrow> reserve (Some (limiter s)) t i n = Some (Some l', Some r, snap, True) \<Longrightarrow>
     budget_step \<delta> s (s\<lparr>limiter := l', open_res := r # open_res s\<rparr>)"
| bs_reject: "lateReading \<delta> (clock s) t \<Longrightarrow> reserve (Some (limiter s)) t i n = Some (Some l', None, snap, False) \<Longrightarrow>
     budget_step \<delta> s (s\<lparr>limiter := l'\<rparr>)"
| bs_snapshot: "lateReading \<delta> (clock s) t \<Longrightarrow> snapshot (Some (limiter s)) t i = Some (Some l', snap) \<Longrightarrow>
     budget_step \<delta> s (s\<lparr>limiter := l'\<rparr>)"
| bs_commit: "r \<in> set (open_res s) \<Longrightarrow> Commit (Some r) (limiter s) (clock s) n = Some (r', l', snap) \<Longrightarrow>
     budget_step \<delta> s (s\<lparr>limiter := l', open_res := remove1 r (open_res s),
        spent := bump2 (spent s) r (max 0 n), excess := bump2 (excess s) r (max 0 (n - res_tokens r))\<rparr>)"
| bs_release: "r \<in> set (open_res s) \<Longrightarrow> Release (Some r) (limiter s) (clock s) = Some (r', l', snap) \<Longrightarrow>
     budget_step \<delta> s (s\<lparr>limiter := l', open_res := remove1 r (open_res s)\<rparr>)"

definition budget_init :: "TokenUsageConfig \<Rightarrow> time \<Rightarrow> budget_sys" where
  "budget_init cfg now = \<lparr>limiter = NewBudgetLimiter cfg, clock = now, open_res = [], spent = (\<lambda>_ _. 0), excess = (\<lambda>_ _. 0)\<rparr>"

definition budget_start :: "TokenUsageConfig \<Rightarrow> budget_sys \<Rightarrow> bool" where
  "budget_start cfg s \<longleftrightarrow> (\<exists>now. clockOk now \<and> s = budget_init cfg now)"

abbreviation budget_reachable :: "duration \<Rightarrow> TokenUsageConfig \<Rightarrow> budget_sys \<Rightarrow> bool" where
  "budget_reachable \<delta> cfg \<equiv> reach (budget_start cfg) (budget_step \<delta>)"

text \<open>No counter of the limiter has wrapped, because fewer than \<open>2 ^ 63\<close> tokens were spent in each window.\<close>

definition noOverflow :: "budget_sys \<Rightarrow> bool" where
  "noOverflow s \<longleftrightarrow> (\<forall>i k. spent s i k < 2 ^ 63)"

text \<open>Tokens held by the open reservations of an identity in a window.\<close>

definition held :: "budget_sys \<Rightarrow> string \<Rightarrow> int \<Rightarrow> int" where
  "held s i k = sum_list (map res_tokens (filter (\<lambda>r. res_identity r = i \<and> res_windowID r = k) (open_res s)))"

abbreviation current :: "budget_sys \<Rightarrow> int" where
  "current s \<equiv> windowID (limiter s) (clock s)"

text \<open>The oldest window in which a reservation may still be made.\<close>

abbreviation oldest :: "duration \<Rightarrow> budget_sys \<Rightarrow> int" where
  "oldest \<delta> s \<equiv> oldestWindow \<delta> (limiter s) (clock s)"

abbreviation limit :: "budget_sys \<Rightarrow> string \<Rightarrow> int" where
  "limit s \<equiv> budgetForIdentity (limiter s)"

section \<open>Invariants\<close>

text \<open>The parameters of the limiter are usable.\<close>

definition paramsOk :: "BudgetLimiter \<Rightarrow> bool" where
  "paramsOk l \<longleftrightarrow> 0 < window l \<and> (\<forall>i. 0 \<le> budgetForIdentity l i \<and> budgetForIdentity l i < 2 ^ 63)"

text \<open>Every recorded window is in range, so that the arithmetic of a snapshot is exact.\<close>

definition rangesOk :: "BudgetLimiter \<Rightarrow> bool" where
  "rangesOk l \<longleftrightarrow> (\<forall>i k. 0 \<le> used (ledger l i k) \<and> used (ledger l i k) < 2 ^ 63 \<and>
     0 \<le> reserved (ledger l i k) \<and> reserved (ledger l i k) \<le> budgetForIdentity l i)"

definition openOk :: "budget_sys \<Rightarrow> bool" where
  "openOk s \<longleftrightarrow> (\<forall>r \<in> set (open_res s). \<not> res_done r \<and> 0 < res_tokens r \<and> res_tokens r < 2 ^ 63 \<and> res_windowID r \<le> current s)"

text \<open>The limiter never records more used tokens than were spent.\<close>

definition usedOk :: "budget_sys \<Rightarrow> bool" where
  "usedOk s \<longleftrightarrow> (\<forall>i k. 0 \<le> spent s i k \<and> used (ledger (limiter s) i k) \<le> spent s i k)"

definition budget_base :: "duration \<Rightarrow> budget_sys \<Rightarrow> bool" where
  "budget_base \<delta> s \<longleftrightarrow> 0 \<le> \<delta> \<and> paramsOk (limiter s) \<and> rangesOk (limiter s) \<and> accountsOk \<delta> (limiter s) (clock s) \<and>
     clockOk (clock s) \<and> openOk s \<and> usedOk s"

text \<open>The ledger never records more reserved tokens than are held.\<close>

definition reserved_le_held :: "budget_sys \<Rightarrow> bool" where
  "reserved_le_held s \<longleftrightarrow> (\<forall>i k. reserved (ledger (limiter s) i k) \<le> held s i k)"

text \<open>In every window in which a reservation may still be made the ledger is exact, and no identity is over its budget by
  more than the excess its backends reported.\<close>

definition ghostOk :: "duration \<Rightarrow> budget_sys \<Rightarrow> bool" where
  "ghostOk \<delta> s \<longleftrightarrow>
     (\<forall>i k. 0 \<le> excess s i k \<and> spent s i k + held s i k \<le> limit s i + excess s i k) \<and>
     (\<forall>i k. oldest \<delta> s \<le> k \<longrightarrow> used (ledger (limiter s) i k) = spent s i k \<and> reserved (ledger (limiter s) i k) = held s i k)"

text \<open>How long a window may be and how old a clock reading, for the ledger to be exact.\<close>

definition timingOk :: "duration \<Rightarrow> duration \<Rightarrow> duration \<Rightarrow> bool" where
  "timingOk \<delta> win ttl \<longleftrightarrow> 0 \<le> \<delta> \<and> \<delta> \<le> win \<and> win + 2 * \<delta> \<le> ttl"

section \<open>Every step keeps the invariants\<close>

lemma remaining_exact:
  assumes "0 \<le> used b" "used b < 2 ^ 63" "0 \<le> reserved b" "reserved b \<le> L" "L < 2 ^ 63"
  shows "snap_Remaining (snapshotLocked l (Some b) L wid) = max 0 (L - used b - reserved b)"
proof -
  have "int64 (L - used b)" and "int64 (L - used b - reserved b)"
    using assms by (auto simp: int64_def)
  then show ?thesis by (simp add: snapshotLocked_def Let_def)
qed

lemma paramsOk_accounts [simp]: "paramsOk (l\<lparr>accounts := A\<rparr>) = paramsOk l"
  by (simp add: paramsOk_def)

lemma requested_pos: "0 < requested n"
  by (simp add: requested_def)

lemma emptyWindow_fields [simp]: "used emptyWindow = 0" "reserved emptyWindow = 0"
  by (simp_all add: emptyWindow_def)

lemma cleanup_ranges: "paramsOk l \<Longrightarrow> rangesOk l \<Longrightarrow> rangesOk (budget_cleanupLocked l now)"
proof -
  assume p: "paramsOk l" and r: "rangesOk l"
  obtain A where l1: "budget_cleanupLocked l now = l\<lparr>accounts := A\<rparr>"
    using cleanup_form by blast
  show ?thesis
    unfolding rangesOk_def
  proof (intro allI)
    fix i k
    show "0 \<le> used (ledger (budget_cleanupLocked l now) i k) \<and> used (ledger (budget_cleanupLocked l now) i k) < 2 ^ 63 \<and>
      0 \<le> reserved (ledger (budget_cleanupLocked l now) i k) \<and>
      reserved (ledger (budget_cleanupLocked l now) i k) \<le> budgetForIdentity (budget_cleanupLocked l now) i"
      using cleanup_ledger [of l now i k] p r l1 by (auto simp: rangesOk_def paramsOk_def)
  qed
qed

text \<open>A granted reservation fits into what is left of the budget.\<close>

lemma grant_fits:
  assumes res: "reserve (Some l) now i n = Some (Some l', Some r, snap, True)"
    and p: "paramsOk l" and rg: "rangesOk l"
  defines "l1 \<equiv> budget_cleanupLocked l now" and "k \<equiv> windowID l now"
  shows "r = \<lparr>res_identity = i, res_windowID = k, res_tokens = requested n, res_done = False\<rparr>"
    and "used (ledger l1 i k) + reserved (ledger l1 i k) + requested n \<le> budgetForIdentity l i"
    and "ledger l' = put (ledger l1) i k ((ledger l1 i k)\<lparr>reserved := reserved (ledger l1 i k) + requested n\<rparr>)"
    and "\<exists>A. l' = l\<lparr>accounts := A\<rparr>"
    and "rangesOk l'"
proof -
  let ?b = "ledger l1 i k"
  obtain A where l1: "l1 = l\<lparr>accounts := A\<rparr>"
    using cleanup_form unfolding l1_def by blast
  have rg1: "rangesOk l1"
    using cleanup_ranges [OF p rg] by (simp add: l1_def)
  then have b: "0 \<le> used ?b" "used ?b < 2 ^ 63" "0 \<le> reserved ?b" "reserved ?b \<le> budgetForIdentity l i"
    using l1 by (auto simp: rangesOk_def)
  have L: "budgetForIdentity l i < 2 ^ 63"
    using p by (simp add: paramsOk_def)
  let ?snap = "snapshotLocked l (Some ?b) (budgetForIdentity l i) k"
  let ?r = "\<lparr>res_identity = i, res_windowID = k, res_tokens = requested n, res_done = False\<rparr>"
  let ?m = "put (ledger l1) i k (?b\<lparr>reserved := wrap64 (reserved ?b + requested n)\<rparr>)"
  have "\<exists>A2. l' = l\<lparr>accounts := A2\<rparr> \<and> requested n \<le> snap_Remaining ?snap \<and> r = ?r \<and> ledger l' = ?m"
    by (rule reserve_ledger [OF res]) (auto simp: l1_def k_def)
  then obtain A2 where eq: "l' = l\<lparr>accounts := A2\<rparr>" and le0: "requested n \<le> snap_Remaining ?snap"
    and r: "r = ?r" and led: "ledger l' = ?m"
    by blast
  have fits: "requested n \<le> max 0 (budgetForIdentity l i - used ?b - reserved ?b)"
    using le0 by (simp only: remaining_exact [OF b L])
  show le: "used ?b + reserved ?b + requested n \<le> budgetForIdentity l i"
    using fits requested_pos [of n] by linarith
  have w: "wrap64 (reserved ?b + requested n) = reserved ?b + requested n"
    using le b L requested_pos [of n] by (intro wrap64_id) (simp add: int64_def)
  show "r = \<lparr>res_identity = i, res_windowID = k, res_tokens = requested n, res_done = False\<rparr>" by (rule r)
  show led': "ledger l' = put (ledger l1) i k (?b\<lparr>reserved := reserved ?b + requested n\<rparr>)"
    using led w by simp
  show "\<exists>A. l' = l\<lparr>accounts := A\<rparr>" using eq by blast
  have "0 \<le> reserved ?b + requested n" "reserved ?b + requested n \<le> budgetForIdentity l i"
    using le b requested_pos [of n] by linarith+
  moreover have "budgetForIdentity l' = budgetForIdentity l" "budgetForIdentity l1 = budgetForIdentity l"
    using eq l1 by simp_all
  ultimately show "rangesOk l'"
    using rg1 b unfolding rangesOk_def led' by (simp add: put_apply)
qed


lemma reject_facts:
  assumes "reserve (Some l) now i n = Some (Some l', None, snap, False)"
  shows "(\<exists>A. l' = l\<lparr>accounts := A\<rparr>) \<and> ledger l' = ledger (budget_cleanupLocked l now)"
  by (rule reserve_ledger [OF assms]) auto

lemma freeReserved_exact:
  "0 \<le> reserved b \<Longrightarrow> reserved b < 2 ^ 63 \<Longrightarrow> 0 < t \<Longrightarrow>
     freeReserved b t = b\<lparr>reserved := max 0 (reserved b - t)\<rparr>"
  by (auto simp: freeReserved_def int64_def)

text \<open>What \<^verbatim>\<open>Commit\<close> (with \<open>m\<close> the actual tokens) and \<^verbatim>\<open>Release\<close> (with \<open>m = 0\<close>) do to the ledger.\<close>

definition settled :: "budgetWindow \<Rightarrow> Reservation \<Rightarrow> int \<Rightarrow> budgetWindow" where
  "settled b r m = \<lparr>used = used b + m, reserved = max 0 (reserved b - res_tokens r)\<rparr>"

definition settles :: "duration \<Rightarrow> BudgetLimiter \<Rightarrow> time \<Rightarrow> Reservation \<Rightarrow> int \<Rightarrow> BudgetLimiter \<Rightarrow> bool" where
  "settles \<delta> l now r m l' \<longleftrightarrow>
     (\<exists>A. l' = l\<lparr>accounts := A\<rparr>) \<and>
     ledger l' = put (ledger l) (res_identity r) (res_windowID r)
        (settled (ledger l (res_identity r) (res_windowID r)) r m) \<and>
     (accountsOk \<delta> l now \<longrightarrow> accountsOk \<delta> l' now)"

lemma settle_settles:
  assumes st: "settle f (Some r) l now = Some (r', l', snap)" and live: "\<not> res_done r"
    and f: "f (freeReserved (ledger l (res_identity r) (res_windowID r)) (res_tokens r)) =
       settled (ledger l (res_identity r) (res_windowID r)) r m"
    and now: "0 \<le> \<delta>" "clockOk now" "0 < window l" "res_windowID r \<le> windowID l now"
  shows "settles \<delta> l now r m l'"
  unfolding settles_def
  by (rule settle_ledger [OF st live]) (use f now in auto)

lemma commit_settles:
  assumes "Commit (Some r) l now n = Some (r', l', snap)" and "\<not> res_done r" "0 < res_tokens r"
    and "paramsOk l" "rangesOk l" and "clockOk now" "res_windowID r \<le> windowID l now" and "0 \<le> \<delta>"
    and "used (ledger l (res_identity r) (res_windowID r)) + max 0 n < 2 ^ 63"
  shows "settles \<delta> l now r (max 0 n) l'"
proof (rule settle_settles)
  show "settle (\<lambda>w. w\<lparr>used := wrap64 (used w + (if n < 0 then 0 else n))\<rparr>) (Some r) l now = Some (r', l', snap)"
    using assms(1) by (simp add: Commit_def)
  let ?b = "ledger l (res_identity r) (res_windowID r)"
  have b: "0 \<le> used ?b" "0 \<le> reserved ?b" "reserved ?b < 2 ^ 63"
    using assms(4,5) by (auto simp: rangesOk_def paramsOk_def intro: le_less_trans)
  have "wrap64 (used ?b + max 0 n) = used ?b + max 0 n"
    using b assms(9) by (intro wrap64_id) (auto simp: int64_def)
  then show "(freeReserved ?b (res_tokens r))\<lparr>used := wrap64 (used (freeReserved ?b (res_tokens r)) + (if n < 0 then 0 else n))\<rparr> =
      settled ?b r (max 0 n)"
    using b assms(3) by (simp add: freeReserved_exact settled_def max_def split: if_splits)
qed (use assms in \<open>auto simp: paramsOk_def\<close>)

lemma release_settles:
  assumes "Release (Some r) l now = Some (r', l', snap)" and "\<not> res_done r" "0 < res_tokens r"
    and "paramsOk l" "rangesOk l" and "clockOk now" "res_windowID r \<le> windowID l now" and "0 \<le> \<delta>"
  shows "settles \<delta> l now r 0 l'"
proof (rule settle_settles)
  show "settle id (Some r) l now = Some (r', l', snap)"
    using assms(1) by (simp add: Release_def)
  let ?b = "ledger l (res_identity r) (res_windowID r)"
  have b: "0 \<le> reserved ?b" "reserved ?b < 2 ^ 63"
    using assms(4,5) by (auto simp: rangesOk_def paramsOk_def intro: le_less_trans)
  then show "id (freeReserved ?b (res_tokens r)) = settled ?b r 0"
    using assms(3) by (simp add: freeReserved_exact settled_def)
qed (use assms in \<open>auto simp: paramsOk_def\<close>)

lemma settles_ranges:
  assumes "settles \<delta> l now r m l'" "rangesOk l" "paramsOk l" "0 \<le> m" "0 < res_tokens r"
    and "used (ledger l (res_identity r) (res_windowID r)) + m < 2 ^ 63"
  shows "rangesOk l'"
proof -
  let ?b = "ledger l (res_identity r) (res_windowID r)"
  have "0 \<le> used ?b" "reserved ?b \<le> budgetForIdentity l (res_identity r)" "0 \<le> budgetForIdentity l (res_identity r)"
    using assms(2,3) by (auto simp: rangesOk_def paramsOk_def)
  then have "0 \<le> used (settled ?b r m)" "used (settled ?b r m) < 2 ^ 63" "0 \<le> reserved (settled ?b r m)"
    "reserved (settled ?b r m) \<le> budgetForIdentity l (res_identity r)"
    using assms by (simp_all add: settled_def)
  moreover have "budgetForIdentity l' = budgetForIdentity l"
    and "ledger l' = put (ledger l) (res_identity r) (res_windowID r) (settled ?b r m)"
    using assms(1) by (auto simp: settles_def)
  ultimately show ?thesis
    using assms(2) by (simp add: rangesOk_def put_apply)
qed

lemma held_remove:
  "open_res s' = remove1 r (open_res s) \<Longrightarrow> r \<in> set (open_res s) \<Longrightarrow>
     held s' i k = held s i k - (if res_identity r = i \<and> res_windowID r = k then res_tokens r else 0)"
  by (auto simp: held_def gw_list_sums)

lemma held_add:
  "open_res s' = r # open_res s \<Longrightarrow>
     held s' i k = held s i k + (if res_identity r = i \<and> res_windowID r = k then res_tokens r else 0)"
  by (simp add: held_def)

lemma held_cong: "open_res s' = open_res s \<Longrightarrow> held s' = held s"
  by (simp add: held_def fun_eq_iff)

lemma held_nonneg: "openOk s \<Longrightarrow> 0 \<le> held s i k"
  unfolding held_def by (rule sum_list_nonneg) (auto simp: openOk_def)

lemma held_member:
  "openOk s \<Longrightarrow> r \<in> set (open_res s) \<Longrightarrow> res_tokens r \<le> held s (res_identity r) (res_windowID r)"
  unfolding held_def by (rule sum_list_nonneg_member) (auto simp: openOk_def)

lemma bump2_zero [simp]: "bump2 m r 0 = m"
  by (simp add: bump2_def fun_eq_iff)


text \<open>The open reservations a step may settle.\<close>

lemma base_facts:
  assumes "budget_base \<delta> s"
  shows "0 \<le> \<delta>" "paramsOk (limiter s)" "rangesOk (limiter s)" "accountsOk \<delta> (limiter s) (clock s)" "clockOk (clock s)"
    "openOk s" "usedOk s" "0 < window (limiter s)"
  using assms by (auto simp: budget_base_def paramsOk_def)

lemma base_open:
  assumes "budget_base \<delta> s" "r \<in> set (open_res s)"
  shows "\<not> res_done r" "0 < res_tokens r" "res_windowID r \<le> current s"
  using assms by (auto simp: budget_base_def openOk_def)

lemma base_settle:
  assumes base: "budget_base \<delta> s" and r: "r \<in> set (open_res s)" and st: "settles \<delta> (limiter s) (clock s) r m l'"
    and m: "0 \<le> m" "used (ledger (limiter s) (res_identity r) (res_windowID r)) + m < 2 ^ 63"
  shows "budget_base \<delta> (s\<lparr>limiter := l', open_res := remove1 r (open_res s), spent := bump2 (spent s) r m, excess := y\<rparr>)"
proof -
  note f = base_facts [OF base] and o = base_open [OF base r]
  have "rangesOk l'" using settles_ranges [OF st f(3,2) m(1) o(2) m(2)] .
  moreover from st obtain A where "l' = (limiter s)\<lparr>accounts := A\<rparr>" and "accountsOk \<delta> l' (clock s)"
    and led: "ledger l' = put (ledger (limiter s)) (res_identity r) (res_windowID r)
        (settled (ledger (limiter s) (res_identity r) (res_windowID r)) r m)"
    using f(4) by (auto simp: settles_def)
  moreover have "0 \<le> bump2 (spent s) r m i k \<and> used (ledger l' i k) \<le> bump2 (spent s) r m i k" for i k
  proof -
    have "0 \<le> spent s i k" "used (ledger (limiter s) i k) \<le> spent s i k" using f(7) by (auto simp: usedOk_def)
    then show ?thesis using m(1) by (auto simp: led put_apply settled_def bump2_def)
  qed
  ultimately show ?thesis
    using f by (auto simp: budget_base_def openOk_def usedOk_def dest: notin_set_remove1 [THEN contrapos_nn])
qed

text \<open>Steps that leave the ledger as it is, but for windows that the clean-up dropped.\<close>

lemma base_same:
  assumes base: "budget_base \<delta> s" and l': "l' = (limiter s)\<lparr>accounts := A\<rparr>" and a: "accountsOk \<delta> l' (clock s)"
    and led: "\<And>i k. ledger l' i k = ledger (limiter s) i k \<or> ledger l' i k = emptyWindow"
  shows "budget_base \<delta> (s\<lparr>limiter := l'\<rparr>)"
proof -
  note f = base_facts [OF base]
  have "0 \<le> used (ledger l' i k) \<and> used (ledger l' i k) < 2 ^ 63 \<and> 0 \<le> reserved (ledger l' i k) \<and>
      reserved (ledger l' i k) \<le> budgetForIdentity l' i \<and> used (ledger l' i k) \<le> spent s i k" for i k
    using led [of i k] f(2,3,7) l' by (auto simp: rangesOk_def paramsOk_def usedOk_def)
  then show ?thesis using f a l' by (auto simp: budget_base_def openOk_def rangesOk_def usedOk_def)
qed

lemma base_grant:
  assumes base: "budget_base \<delta> s" and t: "lateReading \<delta> (clock s) t"
    and res: "reserve (Some (limiter s)) t i n = Some (Some l', Some r, snap, True)"
  shows "budget_base \<delta> (s\<lparr>limiter := l', open_res := r # open_res s\<rparr>)"
proof -
  note f = base_facts [OF base] and g = grant_fits [OF res base_facts(2,3) [OF base]]
  let ?l1 = "budget_cleanupLocked (limiter s) t" and ?k = "windowID (limiter s) t"
  obtain A where l': "l' = (limiter s)\<lparr>accounts := A\<rparr>" using g(4) by blast
  have "0 \<le> used (ledger ?l1 i ?k)" "0 \<le> reserved (ledger ?l1 i ?k)" "budgetForIdentity (limiter s) i < 2 ^ 63"
    using cleanup_ranges [OF f(2,3)] f(2) by (auto simp: rangesOk_def paramsOk_def)
  with g(2) have small: "requested n < 2 ^ 63" by linarith
  have "used (ledger l' j k) \<le> spent s j k \<and> 0 \<le> spent s j k" for j k
    using cleanup_ledger [of "limiter s" t j k] f(7) by (auto simp: g(3) put_apply usedOk_def)
  then show ?thesis
    using g(1,5) l' f small reserve_ok [OF res f(4) t f(5,8)] requested_pos [of n] oldestWindow_late(2) [OF t f(5,8)]
    by (simp add: budget_base_def openOk_def usedOk_def)
qed

lemma base_reject:
  assumes base: "budget_base \<delta> s" and t: "lateReading \<delta> (clock s) t"
    and res: "reserve (Some (limiter s)) t i n = Some (Some l', None, snap, False)"
  shows "budget_base \<delta> (s\<lparr>limiter := l'\<rparr>)"
proof -
  note f = base_facts [OF base]
  obtain A where l': "l' = (limiter s)\<lparr>accounts := A\<rparr>" and led: "ledger l' = ledger (budget_cleanupLocked (limiter s) t)"
    using reject_facts [OF res] by blast
  show ?thesis
    by (rule base_same [OF base l' reserve_ok [OF res f(4) t f(5,8)]]) (simp add: led cleanup_ledger)
qed

lemma base_tick:
  assumes "budget_base \<delta> s" "clock s \<le> t" "t < 2 ^ 63"
  shows "budget_base \<delta> (s\<lparr>clock := t\<rparr>)"
proof -
  note f = base_facts [OF assms(1)]
  have cur: "current s \<le> windowID (limiter s) t"
    using f assms by (intro windowID_mono) auto
  have "accountsOk \<delta> (limiter s) t" using f(4) assms(2) by (fastforce simp: accountsOk_def)
  with f cur assms show ?thesis
    by (fastforce simp: budget_base_def openOk_def usedOk_def)
qed

lemma base_snapshot:
  assumes base: "budget_base \<delta> s" and t: "lateReading \<delta> (clock s) t" and res: "snapshot (Some (limiter s)) t i = Some (Some l', snap)"
  shows "budget_base \<delta> (s\<lparr>limiter := l'\<rparr>)" "ledger l' = ledger (limiter s)" "\<exists>A. l' = (limiter s)\<lparr>accounts := A\<rparr>"
proof -
  note f = base_facts [OF base]
  have "(\<exists>A. l' = (limiter s)\<lparr>accounts := A\<rparr>) \<and> ledger l' = ledger (limiter s) \<and> accountsOk \<delta> l' (clock s)"
    by (rule snapshot_ledger [OF res]) (use f t in auto)
  then obtain A where l': "l' = (limiter s)\<lparr>accounts := A\<rparr>" and led: "ledger l' = ledger (limiter s)" and a: "accountsOk \<delta> l' (clock s)"
    by blast
  show "budget_base \<delta> (s\<lparr>limiter := l'\<rparr>)" by (rule base_same [OF base l' a]) (simp add: led)
  show "ledger l' = ledger (limiter s)" "\<exists>A. l' = (limiter s)\<lparr>accounts := A\<rparr>" using led l' by blast+
qed

text \<open>Spent tokens stay spent, so a run in which nothing has wrapped at the end has not wrapped before.\<close>

lemma budget_step_spent: "budget_step \<delta> s s' \<Longrightarrow> spent s i k \<le> spent s' i k"
  by (induction rule: budget_step.induct) (auto simp: bump2_def)

lemma noOverflow_before: "budget_step \<delta> s s' \<Longrightarrow> noOverflow s' \<Longrightarrow> noOverflow s"
  using budget_step_spent unfolding noOverflow_def by (meson order.strict_trans1)

text \<open>A settling step in one shape: \<open>m\<close> tokens are committed and \<open>e\<close> of them are excess.\<close>

lemma budget_step_cases:
  assumes base: "budget_base \<delta> s" and step: "budget_step \<delta> s s'" and fits: "noOverflow s'"
  obtains (tick) t where "s' = s\<lparr>clock := t\<rparr>" "clock s \<le> t" "t < 2 ^ 63"
  | (grant) t i n l' r snap where "s' = s\<lparr>limiter := l', open_res := r # open_res s\<rparr>" "lateReading \<delta> (clock s) t"
      "reserve (Some (limiter s)) t i n = Some (Some l', Some r, snap, True)"
  | (reject) t i n l' snap where "s' = s\<lparr>limiter := l'\<rparr>" "lateReading \<delta> (clock s) t"
      "reserve (Some (limiter s)) t i n = Some (Some l', None, snap, False)"
  | (read) t i l' snap where "s' = s\<lparr>limiter := l'\<rparr>" "lateReading \<delta> (clock s) t"
      "snapshot (Some (limiter s)) t i = Some (Some l', snap)"
  | (settle) r m e l' where "r \<in> set (open_res s)" "settles \<delta> (limiter s) (clock s) r m l'"
      "0 \<le> m" "0 \<le> e" "m \<le> res_tokens r + e"
      "used (ledger (limiter s) (res_identity r) (res_windowID r)) + m < 2 ^ 63"
      "s' = s\<lparr>limiter := l', open_res := remove1 r (open_res s), spent := bump2 (spent s) r m, excess := bump2 (excess s) r e\<rparr>"
  using step
proof (cases rule: budget_step.cases)
  case (bs_commit r n r' l' snap)
  note f = base_facts [OF base] and o = base_open [OF base bs_commit(2)]
  have "used (ledger (limiter s) (res_identity r) (res_windowID r)) \<le> spent s (res_identity r) (res_windowID r)"
    using f(7) by (simp add: usedOk_def)
  moreover have "spent s (res_identity r) (res_windowID r) + max 0 n < 2 ^ 63"
    using fits [unfolded noOverflow_def, rule_format, of "res_identity r" "res_windowID r"] bs_commit(1) by (simp add: bump2_def)
  ultimately have u: "used (ledger (limiter s) (res_identity r) (res_windowID r)) + max 0 n < 2 ^ 63" by linarith
  have "settles \<delta> (limiter s) (clock s) r (max 0 n) l'"
    using commit_settles [OF bs_commit(3) o(1,2) f(2,3,5) o(3) f(1) u] .
  then show thesis
    using bs_commit o(2) u by (intro settle [of r "max 0 n" l' "max 0 (n - res_tokens r)"]) auto
next
  case (bs_release r r' l' snap)
  note f = base_facts [OF base] and o = base_open [OF base bs_release(2)]
  have "settles \<delta> (limiter s) (clock s) r 0 l'"
    using release_settles [OF bs_release(3) o(1,2) f(2,3,5) o(3) f(1)] .
  moreover have "used (ledger (limiter s) (res_identity r) (res_windowID r)) < 2 ^ 63"
    using f(3) by (simp add: rangesOk_def)
  ultimately show thesis
    using bs_release o(2) by (intro settle [of r 0 l' 0]) auto
qed (blast intro: tick grant reject read)+

lemma budget_step_base [gw_inv]:
  assumes "budget_base \<delta> s" "budget_step \<delta> s s'" "noOverflow s'"
  shows "budget_base \<delta> s'"
  using assms
proof (cases rule: budget_step_cases)
  case (settle r m e l')
  then show ?thesis using base_settle [OF assms(1)] by simp
qed (use assms(1) in \<open>auto intro: base_tick base_grant base_reject base_snapshot(1)\<close>)

lemma budget_step_params:
  assumes "budget_base \<delta> s" "budget_step \<delta> s s'" "noOverflow s'"
  shows "\<exists>A. limiter s' = (limiter s)\<lparr>accounts := A\<rparr>"
  using assms
proof (cases rule: budget_step_cases)
  case (tick t)
  then show ?thesis by (intro exI [of _ "accounts (limiter s)"]) simp
next
  case (grant t i n l' r snap)
  then show ?thesis
    using grant_fits(4) [OF grant(3)] assms(1) by (auto simp: budget_base_def)
next
  case (reject t i n l' snap)
  then show ?thesis using reject_facts by auto
next
  case (read t i l' snap)
  then show ?thesis using base_snapshot(3) [OF assms(1)] by auto
next
  case (settle r m e l')
  then show ?thesis by (auto simp: settles_def)
qed

lemma cleanup_reserved:
  assumes "budget_base \<delta> s" "reserved_le_held s"
  shows "reserved (ledger (budget_cleanupLocked (limiter s) t) i k) \<le> held s i k"
  using cleanup_ledger [of "limiter s" t i k] assms held_nonneg [of s i k]
  by (auto simp: reserved_le_held_def budget_base_def)

lemma budget_step_reserved [gw_inv]:
  assumes base: "budget_base \<delta> s" and inv: "reserved_le_held s" and step: "budget_step \<delta> s s'" "noOverflow s'"
  shows "reserved_le_held s'"
  using base step
proof (cases rule: budget_step_cases)
  case (tick t)
  with inv show ?thesis using held_cong [of s' s] by (simp add: reserved_le_held_def)
next
  case (grant t i n l' r snap)
  note f = grant_fits [OF grant(3) base_facts(2,3) [OF base]]
  have "held s' i' k = held s i' k + (if i' = i \<and> k = windowID (limiter s) t then requested n else 0)" for i' k
    using held_add [of s' r s i' k] grant(1) f(1) by auto
  then show ?thesis
    using f(3) grant(1) requested_pos [of n] cleanup_reserved [OF base inv, of t] by (auto simp: reserved_le_held_def put_apply)
next
  case (reject t i n l' snap)
  then have "ledger l' = ledger (budget_cleanupLocked (limiter s) t)"
    using reject_facts by blast
  then show ?thesis
    using reject(1) held_cong [of s' s] cleanup_reserved [OF base inv, of t] by (simp add: reserved_le_held_def)
next
  case (read t i l' snap)
  then show ?thesis
    using base_snapshot(2) [OF base] inv held_cong [of s' s] by (simp add: reserved_le_held_def)
next
  case (settle r m e l')
  have "reserved (ledger l' i k) \<le> held s' i k" for i k
  proof -
    have "0 \<le> held s' i k"
      using held_nonneg [of s' i k] base_settle [OF base settle(1,2,3,6)] settle(7) by (auto simp: budget_base_def)
    moreover have "held s' i k = held s i k - (if res_identity r = i \<and> res_windowID r = k then res_tokens r else 0)"
      using held_remove [of s' r s i k] settle(1,7) by simp
    moreover have "reserved (ledger (limiter s) i k) \<le> held s i k"
      using inv by (simp add: reserved_le_held_def)
    moreover have "ledger l' = put (ledger (limiter s)) (res_identity r) (res_windowID r)
        (settled (ledger (limiter s) (res_identity r) (res_windowID r)) r m)"
      using settle(2) by (simp add: settles_def)
    ultimately show ?thesis
      by (auto simp: put_apply settled_def split: if_splits)
  qed
  then show ?thesis
    using settle(7) by (simp add: reserved_le_held_def)
qed

text \<open>The clean-up of a step keeps every window in which a reservation may still be made.\<close>

lemma base_cleanup:
  assumes "budget_base \<delta> s" "timingOk \<delta> (window (limiter s)) (identityIdleTTL (limiter s))" "lateReading \<delta> (clock s) t" "oldest \<delta> s \<le> k"
  shows "ledger (budget_cleanupLocked (limiter s) t) i k = ledger (limiter s) i k"
  using assms base_facts [OF assms(1)] by (intro cleanup_keeps) (auto simp: timingOk_def)

lemma ghost_tick:
  assumes base: "budget_base \<delta> s" and g: "ghostOk \<delta> s" and t: "clock s \<le> t" "t < 2 ^ 63"
  shows "ghostOk \<delta> (s\<lparr>clock := t\<rparr>)"
proof -
  let ?s = "s\<lparr>clock := t\<rparr>"
  note f = base_facts [OF base]
  have "oldest \<delta> s \<le> oldest \<delta> ?s"
    unfolding oldestWindow_def using f t by (simp add: windowID_mono)
  moreover have "held ?s = held s" by (rule held_cong) simp
  ultimately show ?thesis using g by (auto simp: ghostOk_def)
qed

lemma ghost_grant:
  assumes base: "budget_base \<delta> s" and g: "ghostOk \<delta> s" and tm: "timingOk \<delta> (window (limiter s)) (identityIdleTTL (limiter s))"
    and t: "lateReading \<delta> (clock s) t"
    and res: "reserve (Some (limiter s)) t i n = Some (Some l', Some r, snap, True)"
  shows "ghostOk \<delta> (s\<lparr>limiter := l', open_res := r # open_res s\<rparr>)" (is "ghostOk \<delta> ?s")
proof -
  let ?l1 = "budget_cleanupLocked (limiter s) t" and ?k = "windowID (limiter s) t"
  note b = base_facts [OF base] and f = grant_fits [OF res base_facts(2,3) [OF base]]
  have live: "oldest \<delta> s \<le> ?k" by (rule oldestWindow_late(1) [OF t b(5,8)])
  have keep: "ledger ?l1 j k = ledger (limiter s) j k" if "oldest \<delta> s \<le> k" for j k
    by (rule base_cleanup [OF base tm t that])
  obtain A where l': "l' = (limiter s)\<lparr>accounts := A\<rparr>" using f(4) by blast
  have now: "used (ledger (limiter s) j k) = spent s j k" "reserved (ledger (limiter s) j k) = held s j k"
    if "oldest \<delta> s \<le> k" for j k
    using g that by (auto simp: ghostOk_def)
  have h: "held ?s j k = held s j k + (if j = i \<and> k = ?k then requested n else 0)" for j k
    using held_add [of ?s r s j k] f(1) by auto
  have "0 \<le> excess s i ?k" using g by (simp add: ghostOk_def)
  then have new: "spent s i ?k + held s i ?k + requested n \<le> limit s i + excess s i ?k"
    using f(2) now [OF live, of i] keep [OF live, of i] by simp
  have "spent s j k + held ?s j k \<le> limit s j + excess s j k" for j k
    using g new h [of j k] by (auto simp: ghostOk_def)
  moreover have "used (ledger l' j k) = spent s j k \<and> reserved (ledger l' j k) = held ?s j k" if "oldest \<delta> s \<le> k" for j k
    using f(3) keep [OF that] now [OF that, of j] h [of j k] by (auto simp: put_apply)
  moreover have "oldestWindow \<delta> l' (clock s) = oldest \<delta> s" by (simp add: oldestWindow_def l')
  ultimately show ?thesis
    using g l' by (simp add: ghostOk_def)
qed

lemma ghost_same_ledger:
  assumes g: "ghostOk \<delta> s" and l': "l' = (limiter s)\<lparr>accounts := A\<rparr>"
    and led: "\<And>i k. oldest \<delta> s \<le> k \<Longrightarrow> ledger l' i k = ledger (limiter s) i k"
  shows "ghostOk \<delta> (s\<lparr>limiter := l'\<rparr>)"
proof -
  have "held (s\<lparr>limiter := l'\<rparr>) = held s" by (rule held_cong) simp
  moreover have "oldestWindow \<delta> l' (clock s) = oldest \<delta> s" by (simp add: oldestWindow_def l')
  ultimately show ?thesis using assms by (simp add: ghostOk_def)
qed

lemma ghost_settle:
  assumes base: "budget_base \<delta> s" and g: "ghostOk \<delta> s" and r: "r \<in> set (open_res s)"
    and st: "settles \<delta> (limiter s) (clock s) r m l'" and m: "0 \<le> m" "0 \<le> e" "m \<le> res_tokens r + e"
    and s': "s' = s\<lparr>limiter := l', open_res := remove1 r (open_res s), spent := bump2 (spent s) r m, excess := bump2 (excess s) r e\<rparr>"
  shows "ghostOk \<delta> s'"
proof -
  obtain A where l': "l' = (limiter s)\<lparr>accounts := A\<rparr>" using st by (auto simp: settles_def)
  have led: "ledger l' = put (ledger (limiter s)) (res_identity r) (res_windowID r)
      (settled (ledger (limiter s) (res_identity r) (res_windowID r)) r m)"
    using st by (simp add: settles_def)
  have h: "held s' j k = held s j k - (if res_identity r = j \<and> res_windowID r = k then res_tokens r else 0)" for j k
    using held_remove [of s' r s j k] r s' by simp
  have le: "res_tokens r \<le> held s (res_identity r) (res_windowID r)"
    by (rule held_member [OF base_facts(6) [OF base] r])
  have "used (ledger l' j k) = bump2 (spent s) r m j k \<and> reserved (ledger l' j k) = held s' j k" if "oldest \<delta> s \<le> k" for j k
  proof -
    have "used (ledger (limiter s) j k) = spent s j k" "reserved (ledger (limiter s) j k) = held s j k"
      using g that by (auto simp: ghostOk_def)
    then show ?thesis using le h [of j k] by (auto simp: led put_apply settled_def bump2_def)
  qed
  moreover have "0 \<le> bump2 (excess s) r e j k \<and> bump2 (spent s) r m j k + held s' j k \<le> limit s j + bump2 (excess s) r e j k" for j k
  proof -
    have "0 \<le> excess s j k" "spent s j k + held s j k \<le> limit s j + excess s j k" using g by (simp_all add: ghostOk_def)
    then show ?thesis using m h [of j k] by (auto simp: bump2_def)
  qed
  moreover have "oldestWindow \<delta> l' (clock s) = oldest \<delta> s" by (simp add: oldestWindow_def l')
  ultimately show ?thesis
    using l' s' by (simp add: ghostOk_def)
qed

lemma budget_step_ghost [gw_inv]:
  assumes base: "budget_base \<delta> s" and g: "ghostOk \<delta> s" and tm: "timingOk \<delta> (window (limiter s)) (identityIdleTTL (limiter s))"
    and step: "budget_step \<delta> s s'" "noOverflow s'"
  shows "ghostOk \<delta> s'"
  using base step
proof (cases rule: budget_step_cases)
  case (tick t)
  then show ?thesis using ghost_tick [OF base g] by simp
next
  case (grant t i n l' r snap)
  then show ?thesis using ghost_grant [OF base g tm] by simp
next
  case (reject t i n l' snap)
  then show ?thesis
    using reject_facts [OF reject(3)] base_cleanup [OF base tm reject(2)] by (auto intro: ghost_same_ledger [OF g])
next
  case (read t i l' snap)
  then show ?thesis
    using base_snapshot [OF base read(2,3)] by (auto intro: ghost_same_ledger [OF g])
next
  case (settle r m e l')
  show ?thesis by (rule ghost_settle [OF base g settle(1-5,7)])
qed

section \<open>Reachable states\<close>

text \<open>The configurations the limiter is meant for (\<^verbatim>\<open>validateTokenUsage\<close> accepts no others, up
  to the range of a Go integer).\<close>

definition budgetCfgOk :: "TokenUsageConfig \<Rightarrow> bool" where
  "budgetCfgOk cfg \<longleftrightarrow> 0 < tu_Window cfg \<and> 0 < tu_DefaultBudgetTokens cfg \<and> tu_DefaultBudgetTokens cfg < 2 ^ 63 \<and>
     (\<forall>(identity, budget) \<in> set (tu_UserBudgets cfg). 0 < budget \<and> budget < 2 ^ 63)"

lemma user_budgets_range:
  assumes "\<forall>(identity, budget) \<in> set xs. 0 < budget \<and> budget < (2 ^ 63 :: int)"
    and "\<And>i b. m i = Some b \<Longrightarrow> 0 < b \<and> b < (2 ^ 63 :: int)"
    and "fold (\<lambda>(identity, budget) m. m(TrimSpace identity \<mapsto> budget)) xs m i = Some b"
  shows "0 < b \<and> b < 2 ^ 63"
  using assms
proof (induction xs arbitrary: m)
  case (Cons x xs)
  obtain j c where x: "x = (j, c)" by fastforce
  show ?case
    by (rule Cons.IH [of "m(TrimSpace j \<mapsto> c)"]) (use Cons.prems x in \<open>auto split: if_splits\<close>)
qed simp

lemma new_limiter_params: "budgetCfgOk cfg \<Longrightarrow> paramsOk (NewBudgetLimiter cfg)"
proof -
  assume c: "budgetCfgOk cfg"
  have "0 \<le> budgetForIdentity (NewBudgetLimiter cfg) i \<and> budgetForIdentity (NewBudgetLimiter cfg) i < 2 ^ 63" for i
  proof (cases "userBudgets (NewBudgetLimiter cfg) i")
    case None
    with c show ?thesis by (simp add: budgetForIdentity_def NewBudgetLimiter_def budgetCfgOk_def)
  next
    case (Some b)
    have "0 < b \<and> b < 2 ^ 63"
      by (rule user_budgets_range [of "tu_UserBudgets cfg" Map.empty i])
        (use c Some in \<open>simp_all add: NewBudgetLimiter_def budgetCfgOk_def\<close>)
    with Some show ?thesis by (simp add: budgetForIdentity_def)
  qed
  with c show ?thesis by (simp add: paramsOk_def NewBudgetLimiter_def budgetCfgOk_def)
qed

lemma init_ledger [simp]: "ledger (NewBudgetLimiter cfg) i k = emptyWindow"
  by (simp add: ledger_def NewBudgetLimiter_def)

lemma init_invariants:
  assumes "budgetCfgOk cfg" "clockOk now" "0 \<le> \<delta>"
  shows "budget_base \<delta> (budget_init cfg now)" "reserved_le_held (budget_init cfg now)" "ghostOk \<delta> (budget_init cfg now)"
proof -
  have p: "paramsOk (NewBudgetLimiter cfg)" by (rule new_limiter_params [OF assms(1)])
  have "accountsOk \<delta> (NewBudgetLimiter cfg) now" by (simp add: accountsOk_def NewBudgetLimiter_def)
  with p assms show "budget_base \<delta> (budget_init cfg now)"
    by (simp add: budget_base_def budget_init_def openOk_def rangesOk_def paramsOk_def usedOk_def)
  show "reserved_le_held (budget_init cfg now)" by (simp add: reserved_le_held_def budget_init_def held_def)
  show "ghostOk \<delta> (budget_init cfg now)"
    using p by (simp add: ghostOk_def budget_init_def held_def paramsOk_def)
qed

text \<open>The invariant of a limiter made from a usable configuration, as long as nothing wraps; the ledger is exact if the
  timing allows it.\<close>

definition budget_inv :: "duration \<Rightarrow> TokenUsageConfig \<Rightarrow> budget_sys \<Rightarrow> bool" where
  "budget_inv \<delta> cfg s \<longleftrightarrow> (budgetCfgOk cfg \<and> 0 \<le> \<delta> \<and> noOverflow s \<longrightarrow>
     budget_base \<delta> s \<and> reserved_le_held s \<and> (\<exists>A. limiter s = (NewBudgetLimiter cfg)\<lparr>accounts := A\<rparr>) \<and>
     (timingOk \<delta> (tu_Window cfg) defaultIdentityIdleTTL \<longrightarrow> ghostOk \<delta> s))"

lemma limiter_timing:
  "l = (NewBudgetLimiter cfg)\<lparr>accounts := A\<rparr> \<Longrightarrow> timingOk \<delta> (tu_Window cfg) defaultIdentityIdleTTL \<Longrightarrow>
     timingOk \<delta> (window l) (identityIdleTTL l)"
  by (simp add: NewBudgetLimiter_def)

lemma budget_inv_step:
  assumes "budget_inv \<delta> cfg s" "budget_step \<delta> s s'"
  shows "budget_inv \<delta> cfg s'"
  unfolding budget_inv_def
proof
  assume c: "budgetCfgOk cfg \<and> 0 \<le> \<delta> \<and> noOverflow s'"
  then have "noOverflow s" using noOverflow_before [OF assms(2)] by blast
  with c assms(1) obtain A where b: "budget_base \<delta> s" "reserved_le_held s" and A: "limiter s = (NewBudgetLimiter cfg)\<lparr>accounts := A\<rparr>"
    and g: "timingOk \<delta> (tu_Window cfg) defaultIdentityIdleTTL \<longrightarrow> ghostOk \<delta> s"
    by (auto simp: budget_inv_def)
  have n: "noOverflow s'" using c by blast
  have "\<exists>A. limiter s' = (NewBudgetLimiter cfg)\<lparr>accounts := A\<rparr>"
    using budget_step_params [OF b(1) assms(2) n] A by auto
  moreover have "ghostOk \<delta> s'" if "timingOk \<delta> (tu_Window cfg) defaultIdentityIdleTTL"
    using budget_step_ghost [OF b(1) _ limiter_timing [OF A that] assms(2) n] g that by blast
  ultimately show "budget_base \<delta> s' \<and> reserved_le_held s' \<and> (\<exists>A. limiter s' = (NewBudgetLimiter cfg)\<lparr>accounts := A\<rparr>) \<and>
     (timingOk \<delta> (tu_Window cfg) defaultIdentityIdleTTL \<longrightarrow> ghostOk \<delta> s')"
    using budget_step_base [OF b(1) assms(2) n] budget_step_reserved [OF b assms(2) n] by blast
qed

interpretation budget_sys: invariant_system "budget_start cfg" "budget_step \<delta>" "budget_inv \<delta> cfg" for \<delta> cfg
proof
  fix s
  assume "budget_start cfg s"
  then obtain now where "clockOk now" "s = budget_init cfg now" by (auto simp: budget_start_def)
  then show "budget_inv \<delta> cfg s"
    using init_invariants [of cfg now \<delta>]
    by (auto simp: budget_inv_def budget_init_def NewBudgetLimiter_def intro: exI [of _ Map.empty])
qed (rule budget_inv_step)

lemma reachable_facts:
  assumes "budgetCfgOk cfg" "0 \<le> \<delta>" "budget_reachable \<delta> cfg s" "noOverflow s"
  obtains A where "budget_base \<delta> s" "reserved_le_held s" "limiter s = (NewBudgetLimiter cfg)\<lparr>accounts := A\<rparr>"
    "timingOk \<delta> (tu_Window cfg) defaultIdentityIdleTTL \<Longrightarrow> ghostOk \<delta> s"
proof -
  have "budget_inv \<delta> cfg s" using assms(3) by (rule budget_sys.reach_inv)
  with assms that show thesis by (auto simp: budget_inv_def)
qed

section \<open>Properties\<close>

text \<open>A small configuration for concrete runs: the given window, 10 tokens per identity.\<close>

definition demoBudgetCfg :: "duration \<Rightarrow> TokenUsageConfig" where
  "demoBudgetCfg w = \<lparr>tu_Enabled = True, tu_IdentityHeader = ''X-User-ID'', tu_Window = w,
     tu_DefaultBudgetTokens = 10, tu_DefaultMaxCompletionTokens = 0, tu_UserBudgets = []\<rparr>"

lemmas budget_eval = reserve.simps(2) snapshot.simps(2) NewBudgetLimiter_def demoBudgetCfg_def budget_cleanupLocked_def cleanupAccount_def
  accountLocked_def windowID_def quot64_def int64_def snapshotLocked_def budgetForIdentity_def emptyWindow_def
  putWindow_def resetAt_def Let_def defaultIdentityIdleTTL_def hour_def minute_def second_def
  Commit_def Release_def settle_def windowLocked_def freeReserved_def timeSub_def maxInt64_def minInt64_def zeroTime_def

text \<open>C1. No budget breakthrough: in every run of concurrent requests, in every budget window, what an
  identity has spent plus what its requests in flight hold never exceeds its budget by more than
  the tokens by which committed usages exceeded their own reservations; without such excess the
  budget is never exceeded. A request may use a clock reading that is up to \<open>\<delta>\<close> old when it gets the mutex. It is
  assumed that \<open>\<delta>\<close> is no longer than a window, that a window and twice \<open>\<delta>\<close> fit into the idle time of an account (48h),
  and that fewer than $2^{63}$ tokens were spent in each window.\<close>

theorem budget_never_exceeded:
  assumes "budgetCfgOk cfg" and "timingOk \<delta> (tu_Window cfg) defaultIdentityIdleTTL" and "budget_reachable \<delta> cfg s" and "noOverflow s"
  shows "spent s i k + held s i k \<le> budgetForIdentity (NewBudgetLimiter cfg) i + excess s i k"
proof -
  have "0 \<le> \<delta>" using assms(2) by (simp add: timingOk_def)
  then obtain A where "limiter s = (NewBudgetLimiter cfg)\<lparr>accounts := A\<rparr>" "ghostOk \<delta> s"
    using reachable_facts [OF assms(1) _ assms(3,4)] assms(2) by metis
  then show ?thesis by (simp add: ghostOk_def)
qed

definition demoReservation :: Reservation where
  "demoReservation = \<lparr>res_identity = ''alice'', res_windowID = 0, res_tokens = 10, res_done = False\<rparr>"

lemma demo_grant:
  "\<exists>l snap. reserve (Some (NewBudgetLimiter (demoBudgetCfg (24 * hour)))) (23 * hour) ''alice'' 10 =
     Some (Some l, Some demoReservation, snap, True)"
  by (simp add: budget_eval demoReservation_def)

text \<open>The first window has just ended when the request that read the clock an hour before gets the mutex: it is admitted in
  that window.\<close>

lemma demo_held:
  "\<exists>s. budget_reachable hour (demoBudgetCfg (24 * hour)) s \<and> held s ''alice'' 0 = 10 \<and> noOverflow s \<and> clock s = 24 * hour \<and>
     limiter s = (NewBudgetLimiter (demoBudgetCfg (24 * hour)))\<lparr>accounts := accounts (limiter s)\<rparr>"
proof -
  let ?cfg = "demoBudgetCfg (24 * hour)"
  let ?s = "budget_init ?cfg (24 * hour)"
  obtain l snap where g: "reserve (Some (limiter ?s)) (23 * hour) ''alice'' 10 = Some (Some l, Some demoReservation, snap, True)"
    using demo_grant by (auto simp: budget_init_def)
  obtain A where l: "l = (NewBudgetLimiter ?cfg)\<lparr>accounts := A\<rparr>"
    using reserve_ledger [OF g] by (auto simp: budget_init_def)
  have late: "lateReading hour (clock ?s) (23 * hour)" by (simp add: lateReading_def budget_init_def hour_def minute_def second_def)
  have "budget_reachable hour ?cfg ?s"
    by (rule reach_start) (auto simp: budget_start_def hour_def minute_def second_def intro: exI [of _ "24 * hour"])
  then have "budget_reachable hour ?cfg (?s\<lparr>limiter := l, open_res := demoReservation # open_res ?s\<rparr>)"
    by (rule reach_step) (rule bs_grant [OF late g])
  then show ?thesis
    by (intro exI conjI) (assumption, simp_all add: held_def demoReservation_def budget_init_def noOverflow_def l)
qed

lemma demo_timing: "budgetCfgOk (demoBudgetCfg (24 * hour))" "timingOk hour (tu_Window (demoBudgetCfg (24 * hour))) defaultIdentityIdleTTL"
  by (simp_all add: budgetCfgOk_def timingOk_def demoBudgetCfg_def defaultIdentityIdleTTL_def hour_def minute_def second_def)

theorem budget_never_exceeded_witness:
  "\<exists>s. budget_reachable hour (demoBudgetCfg (24 * hour)) s \<and> held s ''alice'' 0 = 10 \<and>
     spent s ''alice'' 0 + 10 \<le> 10 + excess s ''alice'' 0"
proof -
  obtain s where s: "budget_reachable hour (demoBudgetCfg (24 * hour)) s" "held s ''alice'' 0 = 10" "noOverflow s"
    using demo_held by blast
  have "spent s ''alice'' 0 + held s ''alice'' 0
      \<le> budgetForIdentity (NewBudgetLimiter (demoBudgetCfg (24 * hour))) ''alice'' + excess s ''alice'' 0"
    by (rule budget_never_exceeded [OF demo_timing s(1,3)])
  with s show ?thesis by (auto simp: budgetForIdentity_def NewBudgetLimiter_def demoBudgetCfg_def)
qed

text \<open>The limiter with one account, for the run of the next theorem.\<close>

definition aliceLimiter :: "duration \<Rightarrow> int \<Rightarrow> int \<Rightarrow> time \<Rightarrow> BudgetLimiter" where
  "aliceLimiter w u r t = (NewBudgetLimiter (demoBudgetCfg w))
     \<lparr>accounts := [''alice'' \<mapsto> \<lparr>windows = [0 \<mapsto> \<lparr>used = u, reserved = r\<rparr>], lastSeen = t\<rparr>]\<rparr>"

lemma alice_first:
  "\<exists>snap. reserve (Some (NewBudgetLimiter (demoBudgetCfg (72 * hour)))) 0 ''alice'' 10 =
     Some (Some (aliceLimiter (72 * hour) 0 10 0), Some demoReservation, snap, True)"
  by (simp add: budget_eval demoReservation_def aliceLimiter_def)

lemma alice_again:
  "\<exists>snap. reserve (Some (aliceLimiter (72 * hour) 10 0 0)) (48 * hour) ''alice'' 10 =
     Some (Some (aliceLimiter (72 * hour) 0 10 (48 * hour)), Some demoReservation, snap, True)"
  by (simp add: budget_eval demoReservation_def aliceLimiter_def fun_eq_iff)

lemma alice_commit:
  assumes "t = 0 \<or> t = 48 * hour"
  shows "\<exists>r snap. Commit (Some demoReservation) (aliceLimiter (72 * hour) 0 10 t) t 10 =
     Some (r, aliceLimiter (72 * hour) 10 0 t, snap)"
  using assms by (elim disjE) (simp_all add: budget_eval demoReservation_def aliceLimiter_def)

lemma alice_ledger [simp]: "ledger (aliceLimiter w u r t) ''alice'' 0 = \<lparr>used = u, reserved = r\<rparr>"
  by (simp add: ledger_def aliceLimiter_def)

text \<open>C37. The hypothesis on the window is needed: with a budget window of 72 hours, an identity that
  spends its whole budget and then stays idle for 48 hours has its account dropped by the clean-up
  and is granted the whole budget again in the same window. Two budgets are spent, with no excess, although every clock reading is up to date.\<close>

theorem idle_cleanup_resets_long_window:
  "\<exists>s. budget_reachable 0 (demoBudgetCfg (72 * hour)) s \<and> windowID (limiter s) (clock s) = 0 \<and>
     excess s ''alice'' 0 = 0 \<and> spent s ''alice'' 0 = 20 \<and> budgetForIdentity (limiter s) ''alice'' = 10"
proof -
  let ?cfg = "demoBudgetCfg (72 * hour)" and ?al = "aliceLimiter (72 * hour)"
  let ?s = "\<lambda>l t rs n. \<lparr>limiter = l, clock = t, open_res = rs, spent = bump2 (\<lambda>_ _. 0) demoReservation n, excess = (\<lambda>_ _. 0)\<rparr>"
  have bump: "bump2 (bump2 (\<lambda>_ _. 0) demoReservation a) demoReservation b = bump2 (\<lambda>_ _. 0) demoReservation (a + b)" for a b
    by (auto simp: bump2_def fun_eq_iff)
  have "budget_reachable 0 ?cfg (?s (NewBudgetLimiter ?cfg) 0 [] 0)"
    by (rule reach_start) (auto simp: budget_start_def budget_init_def intro: exI [of _ 0])
  moreover have "budget_step 0 (?s (NewBudgetLimiter ?cfg) 0 [] 0) (?s (?al 0 10 0) 0 [demoReservation] 0)"
    using alice_first bs_grant [of 0 "?s (NewBudgetLimiter ?cfg) 0 [] 0" 0 "''alice''" 10] by (fastforce simp: lateReading_def)
  moreover have "budget_step 0 (?s (?al 0 10 0) 0 [demoReservation] 0) (?s (?al 10 0 0) 0 [] 10)"
    using alice_commit [of 0] bs_commit [of demoReservation "?s (?al 0 10 0) 0 [demoReservation] 0" 10]
    by (fastforce simp: demoReservation_def)
  moreover have "budget_step 0 (?s (?al 10 0 0) 0 [] 10) (?s (?al 10 0 0) (48 * hour) [] 10)"
    using bs_tick [of "?s (?al 10 0 0) 0 [] 10" "48 * hour"] by (simp add: hour_def minute_def second_def)
  moreover have "budget_step 0 (?s (?al 10 0 0) (48 * hour) [] 10) (?s (?al 0 10 (48 * hour)) (48 * hour) [demoReservation] 10)"
    using alice_again bs_grant [of 0 "?s (?al 10 0 0) (48 * hour) [] 10" "48 * hour" "''alice''" 10]
    by (fastforce simp: lateReading_def hour_def minute_def second_def)
  moreover have "budget_step 0 (?s (?al 0 10 (48 * hour)) (48 * hour) [demoReservation] 10) (?s (?al 10 0 (48 * hour)) (48 * hour) [] 20)"
    using alice_commit [of "48 * hour"] bump [of 10 10]
      bs_commit [of demoReservation "?s (?al 0 10 (48 * hour)) (48 * hour) [demoReservation] 10" 10]
    by (fastforce simp: demoReservation_def)
  ultimately have "budget_reachable 0 ?cfg (?s (?al 10 0 (48 * hour)) (48 * hour) [] 20)"
    by (meson reach_step)
  then show ?thesis
    by (intro exI conjI) (assumption, simp_all add: aliceLimiter_def budget_eval bump2_def demoReservation_def)
qed


lemma reserve_total:
  assumes "window l \<noteq> 0"
  obtains lp r snap ok where "reserve (Some l) now i n = Some (lp, r, snap, ok)"
proof -
  have "reserve (Some l) now i n \<noteq> None"
    using assms by (auto simp: reserve.simps(2) Let_def split: prod.split)
  then show ?thesis using that by auto
qed

text \<open>C6. The admission decision is exact: in every reachable state, for every clock reading \<open>t\<close> that is at most \<open>\<delta>\<close> old, a
  reservation never panics, it is granted exactly when the tokens spent and held by the identity in the window of \<open>t\<close> leave
  room for the request (a request for no tokens counts as one), and the snapshot returned for the
  response headers reports exactly what is then left. Assumed as for the budget: \<open>\<delta>\<close> is no longer than a window, a window and
  twice \<open>\<delta>\<close> fit into the idle time of 48h, and fewer than $2^{63}$ tokens were spent in each window.\<close>

theorem reserve_decides:
  assumes cfg: "budgetCfgOk cfg" "timingOk \<delta> (tu_Window cfg) defaultIdentityIdleTTL" and s: "budget_reachable \<delta> cfg s" "noOverflow s"
    and t: "lateReading \<delta> (clock s) t"
  shows "\<exists>l' r snap ok. reserve (Some (limiter s)) t i n = Some (Some l', r, snap, ok) \<and>
     (ok \<longleftrightarrow> spent s i (windowID (limiter s) t) + held s i (windowID (limiter s) t) + requested n \<le> limit s i) \<and>
     (r \<noteq> None \<longleftrightarrow> ok) \<and>
     snap_Remaining snap =
       max 0 (limit s i - spent s i (windowID (limiter s) t) - held s i (windowID (limiter s) t) - (if ok then requested n else 0))"
proof -
  let ?k = "windowID (limiter s) t"
  have "0 \<le> \<delta>" using cfg(2) by (simp add: timingOk_def)
  then obtain A where base: "budget_base \<delta> s" and A: "limiter s = (NewBudgetLimiter cfg)\<lparr>accounts := A\<rparr>" and g: "ghostOk \<delta> s"
    using reachable_facts [OF cfg(1) _ s] cfg(2) by metis
  note f = base_facts [OF base]
  have L: "limit s i < 2 ^ 63" using f(2) by (simp add: paramsOk_def)
  have live: "oldest \<delta> s \<le> ?k" by (rule oldestWindow_late(1) [OF t f(5,8)])
  let ?l1 = "budget_cleanupLocked (limiter s) t"
  let ?b = "ledger ?l1 i ?k"
  have b: "?b = ledger (limiter s) i ?k" by (rule base_cleanup [OF base limiter_timing [OF A cfg(2)] t live])
  then have now: "used ?b = spent s i ?k" "reserved ?b = held s i ?k" using g live by (auto simp: ghostOk_def)
  have bounds: "0 \<le> used ?b" "used ?b < 2 ^ 63" "0 \<le> reserved ?b" "reserved ?b \<le> limit s i"
    using f(3) b by (auto simp: rangesOk_def)
  obtain lp r snap ok where res: "reserve (Some (limiter s)) t i n = Some (lp, r, snap, ok)"
    by (rule reserve_total [of "limiter s" t i n]) (use f(8) in auto)
  obtain l' A where l': "lp = Some l'" "l' = (limiter s)\<lparr>accounts := A\<rparr>"
    and ok: "ok \<longleftrightarrow> requested n \<le> snap_Remaining (snapshotLocked (limiter s) (Some ?b) (limit s i) ?k)"
    and grant: "ok \<Longrightarrow> r \<noteq> None" "ok \<Longrightarrow> ledger l' i ?k = ?b\<lparr>reserved := wrap64 (reserved ?b + requested n)\<rparr>"
    and reject: "\<not> ok \<Longrightarrow> r = None \<and> ledger l' = ledger ?l1"
    and snap: "snap = snapshotLocked (limiter s) (Some (ledger l' i ?k)) (limit s i) ?k"
    by (rule reserve_ledger [OF res]) simp
  have ok': "ok \<longleftrightarrow> used ?b + reserved ?b + requested n \<le> limit s i"
    using ok remaining_exact [OF bounds L] requested_pos [of n] by auto
  have "snap_Remaining snap = max 0 (limit s i - used ?b - reserved ?b - (if ok then requested n else 0))"
  proof (cases ok)
    case True
    with ok' bounds have le: "0 \<le> reserved ?b + requested n" "reserved ?b + requested n \<le> limit s i"
      using requested_pos [of n] by linarith+
    then have "wrap64 (reserved ?b + requested n) = reserved ?b + requested n"
      using L by (intro wrap64_id) (simp add: int64_def)
    with True grant(2) have "ledger l' i ?k = ?b\<lparr>reserved := reserved ?b + requested n\<rparr>" by simp
    then show ?thesis
      using snap True bounds le L remaining_exact [of "?b\<lparr>reserved := reserved ?b + requested n\<rparr>" "limit s i"]
      by (simp add: algebra_simps)
  next
    case False
    with snap reject remaining_exact [OF bounds L] show ?thesis by simp
  qed
  then show ?thesis
    using res l' ok' grant(1) reject now by auto
qed

text \<open>The budget of the first window is held by the late request; another late reading in that window is refused.\<close>

theorem reserve_decides_witness:
  "\<exists>s. budget_reachable hour (demoBudgetCfg (24 * hour)) s \<and> held s ''alice'' 0 = 10 \<and>
     (\<exists>l' r snap ok. reserve (Some (limiter s)) (23 * hour) ''alice'' 1 = Some (Some l', r, snap, ok) \<and>
        (ok \<longleftrightarrow> spent s ''alice'' 0 + 11 \<le> 10))"
proof -
  obtain s where s: "budget_reachable hour (demoBudgetCfg (24 * hour)) s" "held s ''alice'' 0 = 10" "noOverflow s" "clock s = 24 * hour"
    and l: "limiter s = (NewBudgetLimiter (demoBudgetCfg (24 * hour)))\<lparr>accounts := accounts (limiter s)\<rparr>"
    using demo_held by blast
  have "lateReading hour (clock s) (23 * hour)" by (simp add: s(4) lateReading_def hour_def minute_def second_def)
  moreover have "windowID (limiter s) (23 * hour) = 0" "limit s ''alice'' = 10"
    by (subst l; simp add: budget_eval)+
  moreover have "requested 1 = 1" by (simp add: requested_def)
  ultimately show ?thesis
    using reserve_decides [OF demo_timing s(1,3), of "23 * hour" "''alice''" 1] s(1,2)
    by (intro exI [of _ s]) (auto simp: add.commute)
qed

text \<open>C9. Reservations do not leak, as long as fewer than $2^{63}$ tokens were spent in each window. For any window length and
  any age of clock readings, a window never records more reserved tokens than the open reservations of the identity
  in it hold, so none when no request is in flight. If a clock reading is not older than a window, and a window and twice
  this age fit into the idle time of 48h, then the running window, and every other one in which a reservation may still be
  made, records exactly the tokens that are held.\<close>

theorem no_reservation_leak:
  assumes "budgetCfgOk cfg" and "0 \<le> \<delta>" and "budget_reachable \<delta> cfg s" and "noOverflow s"
  shows "0 \<le> reserved (ledger (limiter s) i k) \<and> reserved (ledger (limiter s) i k) \<le> held s i k \<and>
    (open_res s = [] \<longrightarrow> reserved (ledger (limiter s) i k) = 0) \<and>
    (timingOk \<delta> (tu_Window cfg) defaultIdentityIdleTTL \<longrightarrow> oldest \<delta> s \<le> k \<longrightarrow> reserved (ledger (limiter s) i k) = held s i k) \<and>
    (timingOk \<delta> (tu_Window cfg) defaultIdentityIdleTTL \<longrightarrow> reserved (ledger (limiter s) i (current s)) = held s i (current s))"
proof -
  obtain A where base: "budget_base \<delta> s" and le: "reserved_le_held s"
    and g: "timingOk \<delta> (tu_Window cfg) defaultIdentityIdleTTL \<Longrightarrow> ghostOk \<delta> s"
    using reachable_facts [OF assms] by metis
  note f = base_facts [OF base]
  have "0 \<le> reserved (ledger (limiter s) i k)" "reserved (ledger (limiter s) i k) \<le> held s i k"
    using f(3) le by (auto simp: rangesOk_def reserved_le_held_def)
  moreover have "open_res s = [] \<Longrightarrow> held s i k = 0" by (simp add: held_def)
  moreover have "oldest \<delta> s \<le> current s"
    by (rule oldestWindow_late(1) [OF _ f(5,8)]) (use f(1,5) in \<open>simp add: lateReading_def\<close>)
  ultimately show ?thesis using g by (auto simp: ghostOk_def)
qed

theorem no_reservation_leak_witness:
  "\<exists>s. budget_reachable hour (demoBudgetCfg (24 * hour)) s \<and> held s ''alice'' 0 = 10 \<and> reserved (ledger (limiter s) ''alice'' 0) = 10"
proof -
  obtain s where s: "budget_reachable hour (demoBudgetCfg (24 * hour)) s" "held s ''alice'' 0 = 10" "noOverflow s" "clock s = 24 * hour"
    and l: "limiter s = (NewBudgetLimiter (demoBudgetCfg (24 * hour)))\<lparr>accounts := accounts (limiter s)\<rparr>"
    using demo_held by blast
  have "oldest hour s = 0" unfolding s(4) by (subst l) (simp add: oldestWindow_def budget_eval)
  moreover have "0 \<le> hour" by (simp add: hour_def minute_def second_def)
  ultimately show ?thesis
    using no_reservation_leak [OF demo_timing(1) _ s(1,3), of "''alice''" 0] demo_timing(2) s(1,2) by auto
qed

text \<open>A reservation is settled once: after a commit or a release, committing or releasing it again
  changes nothing and reports the zero snapshot, whatever the amount and the clock.\<close>

theorem settle_once:
  assumes "settle f (Some r) l now = Some (r', l', snap)" and "\<not> res_done r"
  shows "Commit r' l' now' n = Some (r', l', zeroSnapshot) \<and> Release r' l' now' = Some (r', l', zeroSnapshot)"
proof -
  have "r' = Some (r\<lparr>res_done := True\<rparr>)"
    by (rule settle_ledger [OF assms]) simp
  then show ?thesis
    by (simp add: Commit_def Release_def settle_def)
qed

theorem settle_once_witness:
  "\<exists>r' l' snap. settle id (Some demoReservation) (aliceLimiter (72 * hour) 0 10 0) 0 = Some (r', l', snap) \<and>
     Commit r' l' 1 7 = Some (r', l', zeroSnapshot)"
proof -
  obtain r' l' snap where "settle id (Some demoReservation) (aliceLimiter (72 * hour) 0 10 0) 0 = Some (r', l', snap)"
    by (simp add: budget_eval demoReservation_def aliceLimiter_def)
  then show ?thesis
    using settle_once [of id demoReservation "aliceLimiter (72 * hour) 0 10 0" 0 r' l' snap 1 7]
    by (simp add: demoReservation_def)
qed

end
