(* ===== verification/Limiters.thy ===== *)
theory Limiters
  imports Auth Go_Float
begin

text \<open>
  The global limit on concurrent requests, \<^verbatim>\<open>internal/concurrency\<close>, and the per-user rate limit,
  \<^verbatim>\<open>internal/ratelimit\<close>.
\<close>

section \<open>Concurrent requests\<close>

text \<open>The channel of slots: its capacity and the number of elements in it.\<close>

record Limiter =
  capacity :: nat
  slots :: nat

text \<open>\<open>None\<close> is the panic of \<^verbatim>\<open>make\<close> on a negative capacity.\<close>

definition NewLimiter :: "ConcurrencyLimitConfig \<Rightarrow> Limiter option" where
  "NewLimiter cfg = (if cc_MaxInFlight cfg < 0 then None else Some \<lparr>capacity = nat (cc_MaxInFlight cfg), slots = 0\<rparr>)"

definition acquire :: "Limiter \<Rightarrow> Limiter \<times> bool" where
  "acquire l = (if slots l < capacity l then (l\<lparr>slots := slots l + 1\<rparr>, True) else (l, False))"

text \<open>\<open>None\<close>: the receive blocks on an empty channel.\<close>

definition release :: "Limiter \<Rightarrow> Limiter option" where
  "release l = (if slots l = 0 then None else Some (l\<lparr>slots := slots l - 1\<rparr>))"

definition writeConcurrencyError :: "int \<Rightarrow> string \<Rightarrow> string \<Rightarrow> writer \<Rightarrow> writer" where
  "writeConcurrencyError status message errorType w = writeError status message errorType w"

text \<open>
  The middleware in two parts, since other requests run between them: \<open>enterSlot\<close> up to the call of
  the next handler (\<open>Inl\<close> is the response of a rejected request), \<open>release\<close> when it returns.
\<close>

definition enterSlot :: "Limiter \<Rightarrow> writer \<Rightarrow> Limiter \<times> (writer + unit)" where
  "enterSlot l w =
     (case acquire l of
        (l', True) \<Rightarrow> (l', Inr ())
      | (l', False) \<Rightarrow>
          (l', Inl (writeConcurrencyError 429 (zh [0x5F53, 0x524D, 0x5E76, 0x53D1, 0x8BF7, 0x6C42, 0x8FC7, 0x591A, 0xFF0C, 0x8BF7, 0x7A0D, 0x540E, 0x91CD, 0x8BD5]) ''rate_limit_error''
             (onHeader (hSet ''Retry-After'' ''1'') w))))"

text \<open>One request alone: \<open>next\<close> runs with the limiter as it is after \<open>enterSlot\<close>; a nil limiter is
  no limit.\<close>

fun concurrencyMiddleware :: "(Limiter option \<times> 's) handler \<Rightarrow> (Limiter option \<times> 's) handler" where
  "concurrencyMiddleware next (None, s) r w = next (None, s) r w"
| "concurrencyMiddleware next (Some l, s) r w =
     (case enterSlot l w of
        (l', Inl w') \<Rightarrow> ((Some l', s), w')
      | (l', Inr _) \<Rightarrow>
          (case next (Some l', s) r w of
             ((l2, s'), w') \<Rightarrow> ((Option.bind l2 release, s'), w')))"

text \<open>Any number of requests: \<open>running\<close> are the requests between the two parts.\<close>

record slot_sys =
  slot_lim :: Limiter
  running :: "nat list"
  rejected :: "nat list"

inductive slot_step :: "slot_sys \<Rightarrow> slot_sys \<Rightarrow> bool" where
  ss_admit: "acquire (slot_lim s) = (l', True) \<Longrightarrow> slot_step s (s\<lparr>slot_lim := l', running := q # running s\<rparr>)"
| ss_reject: "acquire (slot_lim s) = (l', False) \<Longrightarrow> slot_step s (s\<lparr>slot_lim := l', rejected := q # rejected s\<rparr>)"
| ss_leave: "q \<in> set (running s) \<Longrightarrow> release (slot_lim s) = Some l' \<Longrightarrow>
     slot_step s (s\<lparr>slot_lim := l', running := remove1 q (running s)\<rparr>)"

definition slot_start :: "ConcurrencyLimitConfig \<Rightarrow> slot_sys \<Rightarrow> bool" where
  "slot_start cfg s \<longleftrightarrow> (\<exists>l. NewLimiter cfg = Some l \<and> s = \<lparr>slot_lim = l, running = [], rejected = []\<rparr>)"

definition slot_inv :: "ConcurrencyLimitConfig \<Rightarrow> slot_sys \<Rightarrow> bool" where
  "slot_inv cfg s \<longleftrightarrow> 0 \<le> cc_MaxInFlight cfg \<and> capacity (slot_lim s) = nat (cc_MaxInFlight cfg) \<and>
     slots (slot_lim s) = length (running s) \<and> slots (slot_lim s) \<le> capacity (slot_lim s)"

inductive_cases slot_step_cases: "slot_step s t"

interpretation slot_sys: invariant_system "slot_start cfg" slot_step "slot_inv cfg"
proof (unfold_locales, goal_cases)
  case (1 s)
  then show ?case
    by (auto simp: slot_start_def slot_inv_def NewLimiter_def split: if_splits)
next
  case (2 s t)
  from 2(2) show ?case
    by (rule slot_step_cases)
      (use 2(1) in \<open>auto simp: slot_inv_def acquire_def release_def length_remove1 split: if_splits\<close>)
qed

text \<open>C19. The concurrency limit: in every reachable state of the middleware the number of requests being
  served is the number of taken slots and never above the limit; the next request is admitted exactly
  when fewer than the limit are running; and a request that ends always finds its slot, so the
  release never blocks.\<close>

theorem concurrency_limit:
  assumes "reach (slot_start cfg) slot_step s"
  shows "length (running s) = slots (slot_lim s) \<and> int (length (running s)) \<le> cc_MaxInFlight cfg \<and>
     (snd (acquire (slot_lim s)) \<longleftrightarrow> int (length (running s)) < cc_MaxInFlight cfg) \<and>
     (running s \<noteq> [] \<longrightarrow> release (slot_lim s) \<noteq> None)"
proof -
  have "slot_inv cfg s" using assms by (rule slot_sys.reach_inv)
  then show ?thesis by (auto simp: slot_inv_def acquire_def release_def)
qed

definition oneSlot :: ConcurrencyLimitConfig where
  "oneSlot = \<lparr>cc_Enabled = True, cc_MaxInFlight = 1\<rparr>"

theorem concurrency_limit_witness:
  "\<exists>s. reach (slot_start oneSlot) slot_step s \<and> running s = [7] \<and> rejected s = [8] \<and> \<not> snd (acquire (slot_lim s))"
proof -
  let ?s = "\<lambda>n run rej. \<lparr>slot_lim = \<lparr>capacity = 1, slots = n\<rparr>, running = run, rejected = rej\<rparr>"
  have start: "reach (slot_start oneSlot) slot_step (?s 0 [] [])"
    by (rule reach_start) (simp add: slot_start_def NewLimiter_def oneSlot_def)
  have admit: "slot_step (?s 0 [] []) (?s 1 [7] [])"
    using ss_admit [of "?s 0 [] []" "\<lparr>capacity = 1, slots = 1\<rparr>" 7] by (simp add: acquire_def)
  have reject: "slot_step (?s 1 [7] []) (?s 1 [7] [8])"
    using ss_reject [of "?s 1 [7] []" "\<lparr>capacity = 1, slots = 1\<rparr>" 8] by (simp add: acquire_def)
  have r: "reach (slot_start oneSlot) slot_step (?s 1 [7] [8])"
    by (rule reach_step [OF reach_step [OF start admit] reject])
  show ?thesis
    using concurrency_limit [OF r] r by (intro exI [of _ "?s 1 [7] [8]"]) (simp add: oneSlot_def)
qed

section \<open>Requests per user\<close>

text \<open>
  The token buckets are those of \<^verbatim>\<open>golang.org/x/time/rate\<close>, a package outside the repository: its
  operations are a parameter. \<open>'b\<close> is the state of a \<^verbatim>\<open>rate.Limiter\<close>, \<open>'r\<close> a
  \<^verbatim>\<open>rate.Reservation\<close>. A bucket is a pointer: \<open>lim_heap\<close> holds the state of each.
\<close>

record ('b, 'r) rate_lib =
  rate_New :: "rat \<Rightarrow> int \<Rightarrow> 'b"
  rate_Allow :: "time \<Rightarrow> 'b \<Rightarrow> 'b \<times> bool"
  rate_Reserve :: "time \<Rightarrow> 'b \<Rightarrow> 'b \<times> 'r"
  rate_OK :: "'r \<Rightarrow> bool"
  rate_Delay :: "time \<Rightarrow> 'r \<Rightarrow> duration"
  rate_Cancel :: "time \<Rightarrow> 'r \<Rightarrow> 'b \<Rightarrow> 'b"

record userBucket =
  ub_limiter :: nat
  ub_lastSeen :: time

record 'b UserLimiter =
  ul_identityHeader :: string
  ul_requestLimit :: rat
  ul_burst :: int
  ul_userIdleTTL :: duration
  ul_cleanupInterval :: duration
  ul_users :: "string \<rightharpoonup> userBucket"
  ul_lastCleanup :: time
  lim_heap :: "'b list"

definition defaultUserIdleTTL :: duration where
  "defaultUserIdleTTL = 10 * minute"

definition defaultUserCleanupInterval :: duration where
  "defaultUserCleanupInterval = minute"

definition NewUserLimiter :: "UserRateLimitConfig \<Rightarrow> 'b UserLimiter" where
  "NewUserLimiter cfg = \<lparr>
     ul_identityHeader = CanonicalHeaderKey (TrimSpace (rl_IdentityHeader cfg)),
     ul_requestLimit = rl_RequestsPerSecond cfg,
     ul_burst = rl_Burst cfg,
     ul_userIdleTTL = defaultUserIdleTTL,
     ul_cleanupInterval = defaultUserCleanupInterval,
     ul_users = Map.empty,
     ul_lastCleanup = zeroTime,
     lim_heap = []\<rparr>"

text \<open>The clean-up visits every user once and only decides about that user.\<close>

definition rate_cleanupLocked :: "'b UserLimiter \<Rightarrow> time \<Rightarrow> 'b UserLimiter" where
  "rate_cleanupLocked l now =
     (if ul_lastCleanup l \<noteq> zeroTime \<and> timeSub now (ul_lastCleanup l) < ul_cleanupInterval l then l
      else l\<lparr>ul_lastCleanup := now,
             ul_users := (\<lambda>u. case ul_users l u of
                 None \<Rightarrow> None
               | Some b \<Rightarrow> if timeSub now (ub_lastSeen b) \<ge> ul_userIdleTTL l then None else Some b)\<rparr>)"

definition bucket :: "('b, 'r) rate_lib \<Rightarrow> 'b UserLimiter \<Rightarrow> time \<Rightarrow> string \<Rightarrow> 'b UserLimiter \<times> nat" where
  "bucket lib l now identity =
     (let l1 = rate_cleanupLocked l now
      in case ul_users l1 identity of
           Some b \<Rightarrow> (l1\<lparr>ul_users := (ul_users l1)(identity \<mapsto> b\<lparr>ub_lastSeen := now\<rparr>)\<rparr>, ub_limiter b)
         | None \<Rightarrow>
             (let p = length (lim_heap l1)
              in (l1\<lparr>lim_heap := lim_heap l1 @ [rate_New lib (ul_requestLimit l1) (ul_burst l1)],
                     ul_users := (ul_users l1)(identity \<mapsto> \<lparr>ub_limiter = p, ub_lastSeen = now\<rparr>)\<rparr>, p)))"

text \<open>\<^verbatim>\<open>int(math.Ceil(delay.Seconds()))\<close>.\<close>

definition ceilSeconds :: "duration \<Rightarrow> int" where
  "ceilSeconds d = \<lceil>Seconds d\<rceil>"

definition rate_identityFromRequest :: "Request \<Rightarrow> string \<Rightarrow> string" where
  "rate_identityFromRequest r fallbackHeader =
     (case IdentityFromContext r of
        Some identity \<Rightarrow>
          if TrimSpace (UserID identity) \<noteq> [] then TrimSpace (UserID identity)
          else TrimSpace (hGet (rq_Header r) fallbackHeader)
      | None \<Rightarrow> TrimSpace (hGet (rq_Header r) fallbackHeader))"

definition writeRateLimitError :: "int \<Rightarrow> string \<Rightarrow> string \<Rightarrow> writer \<Rightarrow> writer" where
  "writeRateLimitError status message errorType w = writeError status message errorType w"

text \<open>The decision of the middleware about a user: the limiter afterwards, and \<open>None\<close> if the request
  may pass, else the seconds after which to retry.\<close>

definition rateDecide :: "('b, 'r) rate_lib \<Rightarrow> 'b UserLimiter \<Rightarrow> time \<Rightarrow> string \<Rightarrow> 'b UserLimiter \<times> int option" where
  "rateDecide lib l now identity =
     (case bucket lib l now identity of
        (l1, p) \<Rightarrow>
          (case rate_Allow lib now (lim_heap l1 ! p) of
             (b1, True) \<Rightarrow> (l1\<lparr>lim_heap := (lim_heap l1)[p := b1]\<rparr>, None)
           | (b1, False) \<Rightarrow>
               (case rate_Reserve lib now b1 of
                  (b2, rsv) \<Rightarrow>
                    if rate_OK lib rsv then
                      (l1\<lparr>lim_heap := (lim_heap l1)[p := rate_Cancel lib now rsv b2]\<rparr>,
                       Some (max 1 (ceilSeconds (rate_Delay lib now rsv))))
                    else (l1\<lparr>lim_heap := (lim_heap l1)[p := b2]\<rparr>, Some 1))))"

fun rateMiddleware :: "('b, 'r) rate_lib \<Rightarrow> time \<Rightarrow> ('b UserLimiter option \<times> 's) handler \<Rightarrow> ('b UserLimiter option \<times> 's) handler" where
  "rateMiddleware lib now next (None, s) r w = next (None, s) r w"
| "rateMiddleware lib now next (Some l, s) r w =
     (let identity = rate_identityFromRequest r (ul_identityHeader l)
      in if identity = [] then
           ((Some l, s), writeRateLimitError 401 ((zh [0x7F3A, 0x5C11, 0x7528, 0x6237, 0x6807, 0x8BC6, 0x8BF7, 0x6C42, 0x5934, 0x20]) @ ul_identityHeader l) ''invalid_request_error'' w)
         else case rateDecide lib l now identity of
             (l', None) \<Rightarrow> next (Some l', s) r w
           | (l', Some retryAfter) \<Rightarrow>
               ((Some l', s), writeRateLimitError 429 (zh [0x7528, 0x6237, 0x8BF7, 0x6C42, 0x8FC7, 0x4E8E, 0x9891, 0x7E41, 0xFF0C, 0x8BF7, 0x7A0D, 0x540E, 0x91CD, 0x8BD5]) ''rate_limit_error''
                  (onHeader (hSet ''Retry-After'' (Itoa retryAfter)) w)))"

section \<open>Users are independent\<close>

text \<open>Every user's bucket is in the heap, and no two users share one.\<close>

definition bucketsOk :: "'b UserLimiter \<Rightarrow> bool" where
  "bucketsOk l \<longleftrightarrow>
     (\<forall>u b. ul_users l u = Some b \<longrightarrow> ub_limiter b < length (lim_heap l)) \<and>
     (\<forall>u v b c. ul_users l u = Some b \<longrightarrow> ul_users l v = Some c \<longrightarrow> u \<noteq> v \<longrightarrow> ub_limiter b \<noteq> ub_limiter c)"

text \<open>The state of a user's bucket, \<open>None\<close> for a user without one.\<close>

definition userState :: "'b UserLimiter \<Rightarrow> string \<Rightarrow> 'b option" where
  "userState l u = map_option (\<lambda>b. lim_heap l ! ub_limiter b) (ul_users l u)"

lemma cleanup_users:
  "ul_users (rate_cleanupLocked l now) u = ul_users l u \<or> ul_users (rate_cleanupLocked l now) u = None"
  by (auto simp: rate_cleanupLocked_def split: option.split)

lemma cleanup_heap [simp]: "lim_heap (rate_cleanupLocked l now) = lim_heap l"
  by (simp add: rate_cleanupLocked_def)

lemma cleanup_buckets: "bucketsOk l \<Longrightarrow> bucketsOk (rate_cleanupLocked l now)"
  using cleanup_users [of l now] unfolding bucketsOk_def by (metis cleanup_heap option.distinct(1))

lemma bucket_ok:
  assumes "bucketsOk l" and "bucket lib l now i = (l', p)"
  shows "bucketsOk l' \<and> p < length (lim_heap l') \<and> (\<exists>b. ul_users l' i = Some b \<and> ub_limiter b = p) \<and>
     (\<forall>u. u \<noteq> i \<longrightarrow> userState l' u = userState (rate_cleanupLocked l now) u)"
proof (cases "ul_users (rate_cleanupLocked l now) i")
  case None
  let ?l = "rate_cleanupLocked l now"
  have ok: "bucketsOk ?l" using assms(1) by (rule cleanup_buckets)
  from None assms(2) have l': "l' = ?l\<lparr>lim_heap := lim_heap ?l @ [rate_New lib (ul_requestLimit ?l) (ul_burst ?l)],
      ul_users := (ul_users ?l)(i \<mapsto> \<lparr>ub_limiter = length (lim_heap ?l), ub_lastSeen = now\<rparr>)\<rparr>" "p = length (lim_heap ?l)"
    by (auto simp: bucket_def Let_def)
  have fresh: "ul_users ?l u = Some b \<Longrightarrow> ub_limiter b < length (lim_heap l)" for u b
    using ok by (simp add: bucketsOk_def)
  have "bucketsOk l'"
    using ok fresh unfolding bucketsOk_def l'(1) by (auto dest: fresh)
  moreover have "u \<noteq> i \<Longrightarrow> userState l' u = userState ?l u" for u
    using fresh [of u] by (cases "ul_users ?l u") (simp_all add: userState_def l'(1) nth_append)
  ultimately show ?thesis using l' by simp
next
  case (Some b)
  let ?l = "rate_cleanupLocked l now"
  have ok: "bucketsOk ?l" using assms(1) by (rule cleanup_buckets)
  from Some assms(2) have l': "l' = ?l\<lparr>ul_users := (ul_users ?l)(i \<mapsto> b\<lparr>ub_lastSeen := now\<rparr>)\<rparr>" "p = ub_limiter b"
    by (auto simp: bucket_def Let_def)
  have "bucketsOk l'"
    using ok Some unfolding bucketsOk_def l'(1) by auto
  moreover have "p < length (lim_heap l')" using ok Some l' by (auto simp: bucketsOk_def)
  moreover have "u \<noteq> i \<Longrightarrow> userState l' u = userState ?l u" for u
    by (simp add: userState_def l'(1))
  ultimately show ?thesis using l' by simp
qed

text \<open>\<open>rateDecide\<close> is \<open>bucket\<close> followed by one change of that bucket.\<close>

lemma rateDecide_form:
  assumes "rateDecide lib l now i = (l', d)"
  obtains l1 p b where "bucket lib l now i = (l1, p)" "l' = l1\<lparr>lim_heap := (lim_heap l1)[p := b]\<rparr>"
    "d = None \<longleftrightarrow> snd (rate_Allow lib now (lim_heap l1 ! p))" "\<And>n. d = Some n \<Longrightarrow> 1 \<le> n"
proof -
  obtain l1 p where bk: "bucket lib l now i = (l1, p)" by fastforce
  obtain b1 ok where al: "rate_Allow lib now (lim_heap l1 ! p) = (b1, ok)" by fastforce
  obtain b2 rsv where rs: "rate_Reserve lib now b1 = (b2, rsv)" by fastforce
  show ?thesis
  proof (cases ok)
    case True
    with assms bk al that [of l1 p b1] show ?thesis by (simp add: rateDecide_def)
  next
    case False
    with assms bk al rs that [of l1 p "if rate_OK lib rsv then rate_Cancel lib now rsv b2 else b2"] show ?thesis
      by (auto simp: rateDecide_def split: if_splits)
  qed
qed

text \<open>C26. Users are rate-limited independently: deciding about a request of one user keeps the buckets of
  all users separate, and leaves the bucket of every other user as it is, or drops it if that user has been idle for the
  idle time of the limiter (ten minutes); a dropped bucket is full when the user returns.\<close>

theorem users_are_independent:
  assumes "bucketsOk l" and "rateDecide lib l now i = (l', d)" and "u \<noteq> i"
  shows "bucketsOk l' \<and>
     (userState l' u = userState l u \<or>
      userState l' u = None \<and> (\<exists>b. ul_users l u = Some b \<and> ul_userIdleTTL l \<le> timeSub now (ub_lastSeen b)))"
proof -
  obtain l1 p b where bk: "bucket lib l now i = (l1, p)" and l': "l' = l1\<lparr>lim_heap := (lim_heap l1)[p := b]\<rparr>"
    using rateDecide_form [OF assms(2)] by metis
  obtain c where ok: "bucketsOk l1" "p < length (lim_heap l1)" "ul_users l1 i = Some c" "ub_limiter c = p"
    "userState l1 u = userState (rate_cleanupLocked l now) u"
    using bucket_ok [OF assms(1) bk] assms(3) by blast
  have "bucketsOk l'" using ok(1) by (simp add: bucketsOk_def l')
  moreover have "userState l' u = userState l1 u"
  proof (cases "ul_users l1 u")
    case (Some x)
    then have "ub_limiter x \<noteq> p" using ok(1,3,4) assms(3) by (auto simp: bucketsOk_def)
    with Some show ?thesis by (simp add: userState_def l')
  qed (simp add: userState_def l')
  moreover have "userState (rate_cleanupLocked l now) u = userState l u \<or>
      userState (rate_cleanupLocked l now) u = None \<and> (\<exists>b. ul_users l u = Some b \<and> ul_userIdleTTL l \<le> timeSub now (ub_lastSeen b))"
    by (auto simp: userState_def rate_cleanupLocked_def split: option.splits if_splits)
  ultimately show ?thesis using ok(5) by simp
qed

text \<open>A token bucket as that package documents it: it starts full and fills at the given rate; the
  state is the rate, the burst, the tokens and the time of the last change.\<close>

definition tb_refill :: "time \<Rightarrow> rat \<times> int \<times> rat \<times> time \<Rightarrow> rat" where
  "tb_refill now b = (case b of (r, burst, tokens, since) \<Rightarrow>
     min (of_int burst) (tokens + r * of_int (max 0 (now - since)) / of_int second))"

definition token_bucket :: "(rat \<times> int \<times> rat \<times> time, unit) rate_lib" where
  "token_bucket = \<lparr>rate_New = (\<lambda>r burst. (r, burst, of_int burst, 0)),
     rate_Allow = (\<lambda>now b. case b of (r, burst, tokens, since) \<Rightarrow>
        if 1 \<le> tb_refill now b then ((r, burst, tb_refill now b - 1, now), True) else (b, False)),
     rate_Reserve = (\<lambda>now b. (b, ())), rate_OK = (\<lambda>_. False), rate_Delay = (\<lambda>_ _. 0), rate_Cancel = (\<lambda>_ _ b. b)\<rparr>"

definition slowUsers :: UserRateLimitConfig where
  "slowUsers = \<lparr>rl_Enabled = True, rl_IdentityHeader = ''X-User-ID'', rl_RequestsPerSecond = 1 / 3600, rl_Burst = 1\<rparr>"

text \<open>A decision never rejects without a positive number of seconds to wait, and it rejects exactly
  when the user's bucket refuses: the request passes if and only if \<open>Allow\<close> on the user's bucket says
  so.\<close>

theorem rate_decision:
  assumes "rateDecide lib l now i = (l', d)"
  shows "(d = None \<longleftrightarrow> (\<exists>l1 p. bucket lib l now i = (l1, p) \<and> snd (rate_Allow lib now (lim_heap l1 ! p)))) \<and>
     (\<forall>n. d = Some n \<longrightarrow> 1 \<le> n)"
  using rateDecide_form [OF assms] by (metis prod.inject)

lemma slow_first:
  "rateDecide token_bucket (NewUserLimiter slowUsers) hour ''a'' =
     (\<lparr>ul_identityHeader = ''X-User-Id'', ul_requestLimit = 1 / 3600, ul_burst = 1, ul_userIdleTTL = 10 * minute,
       ul_cleanupInterval = minute, ul_users = [''a'' \<mapsto> \<lparr>ub_limiter = 0, ub_lastSeen = hour\<rparr>], ul_lastCleanup = hour,
       lim_heap = [(1 / 3600, 1, 0, hour)]\<rparr>, None)"
proof -
  have "TrimSpace ''X-User-ID'' = ''X-User-ID''" by (rule TrimSpace_plain) (auto simp: ascii_space_def)
  then have h: "CanonicalHeaderKey (TrimSpace ''X-User-ID'') = ''X-User-Id''" by code_simp
  show ?thesis
    by (simp add: rateDecide_def bucket_def rate_cleanupLocked_def NewUserLimiter_def slowUsers_def h token_bucket_def tb_refill_def
        defaultUserIdleTTL_def defaultUserCleanupInterval_def Let_def fun_eq_iff second_def minute_def hour_def zeroTime_def)
qed

theorem rate_decision_witness:
  "\<exists>l'. rateDecide token_bucket (NewUserLimiter slowUsers) hour ''a'' = (l', None) \<and>
     (\<exists>l1 p. bucket token_bucket (NewUserLimiter slowUsers) hour ''a'' = (l1, p) \<and> snd (rate_Allow token_bucket hour (lim_heap l1 ! p)))"
  using rate_decision [OF slow_first] slow_first by blast

text \<open>The limiter after the first request of the slow user.\<close>

definition slowState :: "(rat \<times> int \<times> rat \<times> time) UserLimiter" where
  "slowState = fst (rateDecide token_bucket (NewUserLimiter slowUsers) hour ''a'')"

lemmas slowState_val = slowState_def [unfolded slow_first fst_conv]

lemmas rate_eval = rateDecide_def bucket_def rate_cleanupLocked_def token_bucket_def tb_refill_def Let_def timeSub_def
  maxInt64_def minInt64_def second_def minute_def hour_def zeroTime_def

theorem users_are_independent_witness:
  "\<exists>l' d. rateDecide token_bucket slowState (hour + minute) ''b'' = (l', d) \<and> userState l' ''a'' = userState slowState ''a''"
proof -
  obtain l' d where r: "rateDecide token_bucket slowState (hour + minute) ''b'' = (l', d)" by fastforce
  have "bucketsOk slowState" by (simp add: slowState_val bucketsOk_def)
  from users_are_independent [OF this r, of "''a''"] have "userState l' ''a'' = userState slowState ''a''"
    by (auto simp: slowState_val timeSub_def maxInt64_def minInt64_def second_def minute_def hour_def)
  with r show ?thesis by blast
qed

text \<open>The clean-up of idle users gives a slow user a full bucket again: with one request per hour and a
  burst of one, a second request nine minutes after the first is rejected, but ten minutes after it
  the bucket was dropped as idle and the request passes, fifty minutes early.\<close>

theorem idle_cleanup_refills_bucket:
  "snd (rateDecide token_bucket (NewUserLimiter slowUsers) hour ''a'') = None \<and>
   snd (rateDecide token_bucket slowState (hour + 9 * minute) ''a'') = Some 1 \<and>
   snd (rateDecide token_bucket slowState (hour + 10 * minute) ''a'') = None"
  unfolding slowState_val slow_first by (simp add: rate_eval)

end
