(* ===== verification/Token_Middleware.thy ===== *)
theory Token_Middleware
  imports Budget_Machine Limiters Token_Usage Observability
begin

text \<open>
  The token budget in front of the chat handler, \<^verbatim>\<open>internal/tokenusage/middleware.go\<close>: reserve the
  estimated tokens, run the next handler with a capturing writer, and settle the reservation with
  what the response says. The next handler takes and returns the budget limiter, so other requests
  may have changed it in any way in the meantime. \<open>onM\<close> applies an operation to the metrics in the
  state of the program.
\<close>

definition maxRequestBodyBytes :: nat where
  "maxRequestBodyBytes = 10 * 2 ^ 20"

definition maxResponseBodyBytes :: int where
  "maxResponseBodyBytes = 2 ^ 20"

text \<open>The clock readings of a request: at \<^verbatim>\<open>reserve\<close>, for \<^verbatim>\<open>Retry-After\<close>, and when it settles.\<close>

record tokenClock =
  tc_reserve :: time
  tc_retry :: time
  tc_settle :: time

definition restoreRequestBody :: "Request \<Rightarrow> string \<Rightarrow> Request" where
  "restoreRequestBody r rawBody = r\<lparr>rq_Body := rawBody\<rparr>"

definition token_identityFromRequest :: "Request \<Rightarrow> string \<Rightarrow> string" where
  "token_identityFromRequest r fallbackHeader =
     (case IdentityFromContext r of
        Some identity \<Rightarrow>
          if TrimSpace (UserID identity) \<noteq> [] then TrimSpace (UserID identity)
          else if TrimSpace (TenantID identity) \<noteq> [] then TrimSpace (TenantID identity)
          else TrimSpace (hGet (rq_Header r) fallbackHeader)
      | None \<Rightarrow> TrimSpace (hGet (rq_Header r) fallbackHeader))"

definition writeBudgetHeaders :: "BudgetSnapshot \<Rightarrow> Header \<Rightarrow> Header" where
  "writeBudgetHeaders snap h =
     hSet ''X-Token-Budget-Reset'' (Itoa (snap_ResetAt snap div second))
       (hSet ''X-Token-Budget-Remaining'' (Itoa (snap_Remaining snap))
         (hSet ''X-Token-Budget-Limit'' (Itoa (snap_Limit snap)) h))"

definition retryAfter :: "time \<Rightarrow> time \<Rightarrow> string" where
  "retryAfter reset now = (let seconds = ceilSeconds (timeSub reset now) in Itoa (if seconds < 1 then 1 else seconds))"

definition writeTokenUsageError :: "int \<Rightarrow> string \<Rightarrow> string \<Rightarrow> writer \<Rightarrow> writer" where
  "writeTokenUsageError status message errorType w = writeError status message errorType w"

definition observeUsage :: "((Metrics option \<Rightarrow> Metrics option) \<Rightarrow> 's \<Rightarrow> 's) \<Rightarrow> string \<Rightarrow> Usage \<Rightarrow> 's \<Rightarrow> 's" where
  "observeUsage onM identity u =
     onM (ObserveTokenUsage identity (u_Model u) (u_PromptTokens u) (u_CompletionTokens u) (u_TotalTokens u) (u_Estimated u))"

definition observeBudgetRemaining :: "((Metrics option \<Rightarrow> Metrics option) \<Rightarrow> 's \<Rightarrow> 's) \<Rightarrow> string \<Rightarrow> BudgetSnapshot \<Rightarrow> 's \<Rightarrow> 's" where
  "observeBudgetRemaining onM identity snap = onM (SetTokenBudgetRemaining identity (snap_Remaining snap))"

definition observeBudgetRejected :: "((Metrics option \<Rightarrow> Metrics option) \<Rightarrow> 's \<Rightarrow> 's) \<Rightarrow> string \<Rightarrow> string \<Rightarrow> 's \<Rightarrow> 's" where
  "observeBudgetRejected onM identity model = onM (ObserveTokenBudgetRejected identity model)"

text \<open>What the middleware does before the next handler: \<open>Inl\<close> a response, \<open>Inr None\<close> a request that is
  not metered, \<open>Inr (Some _)\<close> a request with its reservation.\<close>

record metered =
  mt_identity :: string
  mt_estimate :: RequestEstimate
  mt_reservation :: "Reservation option"

definition tokenEnter :: "((Metrics option \<Rightarrow> Metrics option) \<Rightarrow> 's \<Rightarrow> 's) \<Rightarrow> tokenClock \<Rightarrow> BudgetLimiter \<Rightarrow> 's \<Rightarrow> Request \<Rightarrow> writer \<Rightarrow>
    BudgetLimiter option \<times> 's \<times> (writer + (metered option \<times> Request \<times> writer))" where
  "tokenEnter onM clk l s r w =
     (if rq_Method r \<noteq> ''POST'' then (Some l, s, Inr (None, r, w))
      else case readBody maxRequestBodyBytes r of
        None \<Rightarrow> (Some l, s, Inl (writeTokenUsageError 413 (zh [0x8BF7, 0x6C42, 0x4F53, 0x8FC7, 0x5927, 0x6216, 0x8BFB, 0x53D6, 0x5931, 0x8D25]) ''invalid_request_error'' w))
      | Some rawBody \<Rightarrow>
          (let r1 = restoreRequestBody r rawBody
           in case estimateRequest rawBody (defaultCompletionBudget (Some l)) of
                None \<Rightarrow> (Some l, s, Inr (None, r1, w))
              | Some e \<Rightarrow>
                  if \<not> re_Reservable e then (Some l, s, Inr (None, r1, w))
                  else
                    (let identity = token_identityFromRequest r1 (identityHeader l)
                     in if identity = [] then
                          (Some l, s, Inl (writeTokenUsageError 401 ((zh [0x7F3A, 0x5C11, 0x7528, 0x6237, 0x6807, 0x8BC6, 0x8BF7, 0x6C42, 0x5934, 0x20]) @ identityHeader l) ''invalid_request_error'' w))
                        else case reserve (Some l) (tc_reserve clk) identity (u_TotalTokens (re_Usage e)) of
                          None \<Rightarrow> (Some l, s, Inl (panicWriter w))
                        | Some (l1, rsv, snap, ok) \<Rightarrow>
                            if \<not> ok then
                              (l1, observeBudgetRejected onM identity (u_Model (re_Usage e)) s,
                               Inl (writeTokenUsageError 429 (zh [0x74, 0x6F, 0x6B, 0x65, 0x6E, 0x20, 0x9884, 0x7B97, 0x4E0D, 0x8DB3, 0xFF0C, 0x8BF7, 0x5728, 0x9884, 0x7B97, 0x7A97, 0x53E3, 0x91CD, 0x7F6E, 0x540E, 0x91CD, 0x8BD5]) ''rate_limit_error''
                                 (onHeader (hSet ''Retry-After'' (retryAfter (snap_ResetAt snap) (tc_retry clk)))
                                   (onHeader (writeBudgetHeaders snap) w))))
                            else
                              (l1, s, Inr (Some \<lparr>mt_identity = identity, mt_estimate = e, mt_reservation = rsv\<rparr>, r1,
                                 newCaptureWriter (onHeader (writeBudgetHeaders snap) w) maxResponseBodyBytes)))))"

text \<open>What it does after the next handler; the deferred function releases the reservation when that
  handler panics.\<close>

definition tokenLeave :: "((Metrics option \<Rightarrow> Metrics option) \<Rightarrow> 's \<Rightarrow> 's) \<Rightarrow> tokenClock \<Rightarrow> metered \<Rightarrow> BudgetLimiter \<Rightarrow> 's \<Rightarrow> captureWriter \<Rightarrow> writer \<Rightarrow>
    (BudgetLimiter option \<times> 's) \<times> writer" where
  "tokenLeave onM clk m l s c below =
     (let status = captureStatus c
      in if rw_panic (writerBase below) \<or> status < 200 \<or> status \<ge> 300 then
           (case Release (mt_reservation m) l (tc_settle clk) of
              None \<Rightarrow> ((Some l, s), panicWriter below)
            | Some (_, l', snap) \<Rightarrow> ((Some l', observeBudgetRemaining onM (mt_identity m) snap s), below))
         else
           (let usage = usageFromResponseBody (cw_body c) (hGet (headerOf below) ''Content-Type'') (cw_truncated c) (mt_estimate m)
            in case Commit (mt_reservation m) l (tc_settle clk) (u_TotalTokens usage) of
                 None \<Rightarrow> ((Some l, s), panicWriter below)
               | Some (_, l', snap) \<Rightarrow>
                   ((Some l', observeBudgetRemaining onM (mt_identity m) snap (observeUsage onM (mt_identity m) usage s)), below)))"

fun tokenMiddleware :: "((Metrics option \<Rightarrow> Metrics option) \<Rightarrow> 's \<Rightarrow> 's) \<Rightarrow> tokenClock \<Rightarrow>
    (BudgetLimiter option \<times> 's) handler \<Rightarrow> (BudgetLimiter option \<times> 's) handler" where
  "tokenMiddleware onM clk next (None, s) r w = next (None, s) r w"
| "tokenMiddleware onM clk next (Some l, s) r w =
     (case tokenEnter onM clk l s r w of
        (l1, s1, Inl w1) \<Rightarrow> ((l1, s1), w1)
      | (l1, s1, Inr (None, r1, w1)) \<Rightarrow> next (l1, s1) r1 w1
      | (l1, s1, Inr (Some m, r1, w1)) \<Rightarrow>
          (case next (l1, s1) r1 w1 of
             ((Some l2, s2), Capturing c below) \<Rightarrow> tokenLeave onM clk m l2 s2 c below
           | other \<Rightarrow> other))"

section \<open>Properties\<close>

text \<open>A metered request holds a live reservation of the estimated tokens, at least one.\<close>

lemma tokenEnter_metered:
  assumes "tokenEnter onM clk l s r w = (lp, s1, Inr (Some m, r1, w1))"
  shows "\<exists>rsv. mt_reservation m = Some rsv \<and> \<not> res_done rsv \<and> res_identity rsv = mt_identity m \<and>
    res_tokens rsv = u_TotalTokens (re_Usage (mt_estimate m)) \<and> 1 \<le> u_TotalTokens (re_Usage (mt_estimate m)) \<and> s1 = s"
proof -
  obtain e where e: "estimateRequest (rq_Body r) (defaultCompletionBudget (Some l)) = Some e" "re_Reservable e"
    and m: "mt_estimate m = e" "s1 = s"
      "\<exists>snap. reserve (Some l) (tc_reserve clk) (mt_identity m) (u_TotalTokens (re_Usage e)) = Some (lp, mt_reservation m, snap, True)"
    using assms by (auto simp: tokenEnter_def readBody_def restoreRequestBody_def Let_def
        split: if_splits option.splits prod.splits)
  from e have pos: "1 \<le> u_TotalTokens (re_Usage e)"
    using reservable_total by (auto simp: estimateRequest_def)
  then have req: "requested (u_TotalTokens (re_Usage e)) = u_TotalTokens (re_Usage e)" by (simp add: requested_def)
  from m(3) obtain snap where "reserve (Some l) (tc_reserve clk) (mt_identity m) (u_TotalTokens (re_Usage e)) = Some (lp, mt_reservation m, snap, True)" by blast
  then obtain wid where "mt_reservation m = Some \<lparr>res_identity = mt_identity m, res_windowID = wid,
      res_tokens = u_TotalTokens (re_Usage e), res_done = False\<rparr>"
    using req by (auto elim!: reserve_ledger)
  with pos m show ?thesis by simp
qed

definition succeeded :: "captureWriter \<Rightarrow> writer \<Rightarrow> bool" where
  "succeeded c below \<longleftrightarrow> \<not> rw_panic (writerBase below) \<and> 200 \<le> captureStatus c \<and> captureStatus c < 300"

definition chargedTokens :: "metered \<Rightarrow> captureWriter \<Rightarrow> writer \<Rightarrow> int" where
  "chargedTokens m c below =
     u_TotalTokens (usageFromResponseBody (cw_body c) (hGet (headerOf below) ''Content-Type'') (cw_truncated c) (mt_estimate m))"

lemma tokenLeave_ledger:
  assumes rsv: "mt_reservation m = Some rsv" "\<not> res_done rsv" and win: "window l \<noteq> 0"
    and pos: "1 \<le> u_TotalTokens (re_Usage (mt_estimate m))"
  shows "\<exists>l' s'. tokenLeave onM clk m l s c below = ((Some l', s'), below) \<and>
    ledger l' = put (ledger l) (res_identity rsv) (res_windowID rsv)
      (let b = freeReserved (ledger l (res_identity rsv) (res_windowID rsv)) (res_tokens rsv)
       in if succeeded c below then b\<lparr>used := wrap64 (used b + chargedTokens m c below)\<rparr> else b)"
proof -
  have settle: "\<exists>r' l' snap. settle f (Some rsv) l now = Some (r', l', snap) \<and>
      ledger l' = put (ledger l) (res_identity rsv) (res_windowID rsv) (f (freeReserved (ledger l (res_identity rsv) (res_windowID rsv)) (res_tokens rsv)))"
    for f now
  proof -
    have "settle f (Some rsv) l now \<noteq> None"
      using rsv win by (simp add: settle_def Let_def split: prod.split)
    then obtain r' l' snap where "settle f (Some rsv) l now = Some (r', l', snap)" by auto
    then show ?thesis using settle_ledger [of f rsv l now r' l' snap] rsv(2) by blast
  qed
  show ?thesis
  proof (cases "succeeded c below")
    case False
    then have "rw_panic (writerBase below) \<or> captureStatus c < 200 \<or> captureStatus c \<ge> 300" by (auto simp: succeeded_def)
    moreover obtain r' l' snap where "Release (Some rsv) l (tc_settle clk) = Some (r', l', snap)"
      "ledger l' = put (ledger l) (res_identity rsv) (res_windowID rsv) (freeReserved (ledger l (res_identity rsv) (res_windowID rsv)) (res_tokens rsv))"
      using settle [of id "tc_settle clk"] by (auto simp: Release_def)
    ultimately show ?thesis using False rsv(1) by (simp add: tokenLeave_def Let_def)
  next
    case True
    then have ok: "\<not> (rw_panic (writerBase below) \<or> captureStatus c < 200 \<or> captureStatus c \<ge> 300)" by (auto simp: succeeded_def)
    have "1 \<le> chargedTokens m c below" unfolding chargedTokens_def using pos by (rule usage_pos)
    then obtain r' l' snap where "Commit (Some rsv) l (tc_settle clk) (chargedTokens m c below) = Some (r', l', snap)"
      "ledger l' = put (ledger l) (res_identity rsv) (res_windowID rsv)
         (let b = freeReserved (ledger l (res_identity rsv) (res_windowID rsv)) (res_tokens rsv) in b\<lparr>used := wrap64 (used b + chargedTokens m c below)\<rparr>)"
      using settle [of "\<lambda>w. w\<lparr>used := wrap64 (used w + chargedTokens m c below)\<rparr>" "tc_settle clk"]
      by (auto simp: Commit_def Let_def)
    with True ok rsv(1) show ?thesis by (simp add: tokenLeave_def Let_def chargedTokens_def)
  qed
qed

text \<open>C8. Every reservation is settled, whatever the handler behind the budget does and whatever other requests
  do to the limiter in the meantime: when the handler returns, the tokens the request reserved are
  given back in the window they were taken from; a response with a status of 2xx is charged with at
  least one token, any other response and a panic with nothing; and no other entry of the ledger
  changes.\<close>

theorem every_reservation_settled:
  assumes "tokenEnter onM clk l s r w = (lp, s1, Inr (Some m, r1, w1))"
    and "nxt (lp, s1) r1 w1 = ((Some l2, s2), Capturing c below)" and "window l2 \<noteq> 0"
  shows "\<exists>rsv l3 s3. mt_reservation m = Some rsv \<and> res_identity rsv = mt_identity m \<and>
    res_tokens rsv = u_TotalTokens (re_Usage (mt_estimate m)) \<and>
    tokenMiddleware onM clk nxt (Some l, s) r w = ((Some l3, s3), below) \<and> 1 \<le> chargedTokens m c below \<and>
    ledger l3 = put (ledger l2) (mt_identity m) (res_windowID rsv)
      (let b = freeReserved (ledger l2 (mt_identity m) (res_windowID rsv)) (res_tokens rsv)
       in if succeeded c below then b\<lparr>used := wrap64 (used b + chargedTokens m c below)\<rparr> else b)"
proof -
  obtain rsv where rsv: "mt_reservation m = Some rsv" "\<not> res_done rsv" "res_identity rsv = mt_identity m"
    "res_tokens rsv = u_TotalTokens (re_Usage (mt_estimate m))" "1 \<le> u_TotalTokens (re_Usage (mt_estimate m))"
    using tokenEnter_metered [OF assms(1)] by blast
  have "tokenMiddleware onM clk nxt (Some l, s) r w = tokenLeave onM clk m l2 s2 c below"
    using assms(1,2) by simp
  moreover have "1 \<le> chargedTokens m c below" unfolding chargedTokens_def using rsv(5) by (rule usage_pos)
  ultimately show ?thesis
    using tokenLeave_ledger [OF rsv(1,2) assms(3) rsv(5), of onM clk s2 c below] rsv by auto
qed

definition tinyBody :: string where
  \<open>tinyBody = ''{"model":"m","messages":[{"role":"user","content":"hi"}]}''\<close>

definition tinyEstimate :: RequestEstimate where
  "tinyEstimate = \<lparr>re_Usage = \<lparr>u_Model = ''m'', u_PromptTokens = 3, u_CompletionTokens = 0, u_TotalTokens = 3, u_Estimated = True\<rparr>,
     re_CompletionBudget = 0, re_Reservable = True\<rparr>"

definition tinyRequest :: Request where
  "tinyRequest = \<lparr>rq_Method = ''POST'', rq_Path = ''/v1/chat/completions'', rq_Header = [(''X-User-Id'', [''alice''])],
     rq_Body = tinyBody, rq_identity = None, rq_info = None, rq_span = None, rq_RawPath = [], rq_RawQuery = []\<rparr>"

lemma tiny_estimate: "estimateRequest tinyBody 0 = Some tinyEstimate"
  by code_simp

lemma tiny_identity: "token_identityFromRequest tinyRequest ''X-User-ID'' = ''alice''"
  by code_simp

lemma tiny_body: "readBody maxRequestBodyBytes tinyRequest = Some tinyBody"
  by (simp add: readBody_def maxRequestBodyBytes_def tinyRequest_def tinyBody_def)

definition tinyClock :: tokenClock where
  "tinyClock = \<lparr>tc_reserve = 5, tc_retry = 5, tc_settle = 6\<rparr>"

lemma tiny_reserve:
  "\<exists>l snap. reserve (Some (NewBudgetLimiter (demoBudgetCfg minute))) 5 ''alice'' 3 =
     Some (Some l, Some \<lparr>res_identity = ''alice'', res_windowID = 0, res_tokens = 3, res_done = False\<rparr>, snap, True) \<and>
     window l = minute \<and> ledger l ''alice'' 0 = \<lparr>used = 0, reserved = 3\<rparr>"
  by (simp add: budget_eval ledger_def)

text \<open>A handler that answers 200 with a body that is not JSON.\<close>

definition okHandler :: "'s handler" where
  "okHandler s r w = (s, fst (Write ''ok'' (WriteHeader 200 w)))"

definition tinyMetered :: metered where
  "tinyMetered = \<lparr>mt_identity = ''alice'', mt_estimate = tinyEstimate,
     mt_reservation = Some \<lparr>res_identity = ''alice'', res_windowID = 0, res_tokens = 3, res_done = False\<rparr>\<rparr>"

lemma tiny_enter:
  "\<exists>l1 snap. tokenEnter (\<lambda>_ s. s) tinyClock (NewBudgetLimiter (demoBudgetCfg minute)) () tinyRequest (Server (newServerWriter [])) =
       (Some l1, (), Inr (Some tinyMetered, tinyRequest,
         newCaptureWriter (onHeader (writeBudgetHeaders snap) (Server (newServerWriter []))) maxResponseBodyBytes)) \<and>
     window l1 \<noteq> 0 \<and> ledger l1 ''alice'' 0 = \<lparr>used = 0, reserved = 3\<rparr>"
proof -
  let ?l = "NewBudgetLimiter (demoBudgetCfg minute)" and ?w = "Server (newServerWriter [])"
  obtain l1 snap where rsv: "reserve (Some ?l) 5 ''alice'' 3 =
      Some (Some l1, Some \<lparr>res_identity = ''alice'', res_windowID = 0, res_tokens = 3, res_done = False\<rparr>, snap, True)"
    and l1: "window l1 = minute" "ledger l1 ''alice'' 0 = \<lparr>used = 0, reserved = 3\<rparr>"
    using tiny_reserve by blast
  have restore: "restoreRequestBody tinyRequest tinyBody = tinyRequest" by (simp add: restoreRequestBody_def tinyRequest_def)
  have hdr: "identityHeader ?l = ''X-User-ID''" "defaultCompletionBudget (Some ?l) = 0"
    by (simp_all add: NewBudgetLimiter_def demoBudgetCfg_def) code_simp
  have total: "u_TotalTokens (re_Usage tinyEstimate) = 3" "re_Reservable tinyEstimate" by (simp_all add: tinyEstimate_def)
  have meth: "rq_Method tinyRequest = ''POST''" by (simp add: tinyRequest_def)
  have "tokenEnter (\<lambda>_ s. s) tinyClock ?l () tinyRequest ?w =
      (Some l1, (), Inr (Some tinyMetered, tinyRequest, newCaptureWriter (onHeader (writeBudgetHeaders snap) ?w) maxResponseBodyBytes))"
    unfolding tokenEnter_def tiny_body restore hdr meth Let_def
    using rsv tiny_estimate total tiny_identity by (simp add: tinyClock_def restore tinyMetered_def)
  moreover have "window l1 \<noteq> 0" using l1 by (simp add: minute_def second_def)
  ultimately show ?thesis using l1(2) by blast
qed

theorem every_reservation_settled_witness:
  "\<exists>l3 s3 w3. tokenMiddleware (\<lambda>_ s. s) tinyClock okHandler (Some (NewBudgetLimiter (demoBudgetCfg minute)), ()) tinyRequest
      (Server (newServerWriter [])) = ((Some l3, s3), w3) \<and> ledger l3 ''alice'' 0 = \<lparr>used = 3, reserved = 0\<rparr>"
proof -
  let ?w = "Server (newServerWriter [])"
  obtain l1 snap where enter: "tokenEnter (\<lambda>_ s. s) tinyClock (NewBudgetLimiter (demoBudgetCfg minute)) () tinyRequest ?w =
      (Some l1, (), Inr (Some tinyMetered, tinyRequest, newCaptureWriter (onHeader (writeBudgetHeaders snap) ?w) maxResponseBodyBytes))"
    and l1: "window l1 \<noteq> 0" "ledger l1 ''alice'' 0 = \<lparr>used = 0, reserved = 3\<rparr>"
    using tiny_enter by blast
  let ?cw = "newCaptureWriter (onHeader (writeBudgetHeaders snap) ?w) maxResponseBodyBytes"
  let ?c = "\<lparr>cw_status = 200, cw_body = ''ok'', cw_limit = maxResponseBodyBytes, cw_written = True, cw_truncated = False\<rparr>"
  obtain below where ok: "okHandler (Some l1, ()) tinyRequest ?cw = ((Some l1, ()), Capturing ?c below)"
      "rw_panic (writerBase below) = False"
    by (simp add: okHandler_def newCaptureWriter_def newServerWriter_def capture_def maxResponseBodyBytes_def rw_Write_def
        rw_WriteHeader_def bodyAllowed_def Let_def)
  have "succeeded ?c below" using ok(2) by (simp add: succeeded_def captureStatus_def)
  moreover have "chargedTokens tinyMetered ?c below = 3"
  proof -
    have "decResponse ''message'' ''ok'' = None" by code_simp
    then have "usageFromJSONResponse ''ok'' tinyEstimate = re_Usage tinyEstimate" by (simp add: usageFromJSONResponse_def)
    moreover have "usageFromStreamResponse ''ok'' tinyEstimate = re_Usage tinyEstimate" by code_simp
    ultimately show ?thesis by (simp add: chargedTokens_def usageFromResponseBody_def tinyMetered_def tinyEstimate_def)
  qed
  ultimately show ?thesis
    using every_reservation_settled [where nxt = okHandler, OF enter ok(1) l1(1)] l1
    by (auto simp: freeReserved_def wrap64_def tinyMetered_def)
qed

end
