(* ===== verification/Go_Mux.thy ===== *)
theory Go_Mux
  imports Tracing Go_Net
begin

text \<open>
  What the gateway uses of \<^verbatim>\<open>path\<close>, \<^verbatim>\<open>net/url\<close> and the router of \<^verbatim>\<open>net/http\<close>: \<^verbatim>\<open>path.Clean\<close>, the escaped
  path of a URL, redirects, \<^verbatim>\<open>http.StripPrefix\<close> and \<^verbatim>\<open>http.ServeMux\<close> for the patterns the gateway
  registers, which name a path or, with a slash at the end, a subtree, and neither a host nor a
  method nor a wildcard.
\<close>

section \<open>Paths\<close>

text \<open>\<open>cleanSeg\<close> is one step of \<^verbatim>\<open>path.Clean\<close>; the elements kept so far are in reverse order.\<close>

definition cleanSeg :: "bool \<Rightarrow> string \<Rightarrow> string list \<Rightarrow> string list" where
  "cleanSeg rooted seg out =
     (if seg = [] \<or> seg = ''.'' then out
      else if seg = ''..'' then
        (case out of
           x # xs \<Rightarrow> if x = ''..'' then seg # out else xs
         | [] \<Rightarrow> if rooted then [] else [seg])
      else seg # out)"

definition cleanSegs :: "bool \<Rightarrow> string \<Rightarrow> string list" where
  "cleanSegs rooted p = rev (fold (cleanSeg rooted) (Split (CHR ''/'') p) [])"

definition path_Clean :: "string \<Rightarrow> string" where
  "path_Clean p =
     (if p = [] then ''.''
      else let rooted = HasPrefix p ''/''; body = Join (cleanSegs rooted p) ''/''
           in if rooted then CHR ''/'' # body else if body = [] then ''.'' else body)"

text \<open>\<^verbatim>\<open>cleanPath\<close> of the router: rooted, and a slash at the end is kept.\<close>

definition cleanPath :: "string \<Rightarrow> string" where
  "cleanPath p0 =
     (if p0 = [] then ''/''
      else let p = (if HasPrefix p0 ''/'' then p0 else CHR ''/'' # p0);
               np = path_Clean p
           in if HasSuffix p ''/'' \<and> np \<noteq> ''/'' then np @ ''/'' else np)"

section \<open>URLs\<close>

definition path_byte :: "char \<Rightarrow> bool" where
  "path_byte c \<longleftrightarrow> is_alpha c \<or> is_digit c \<or> c \<in> set ''-_.~$&+,/:;=@''"

definition upper_hex :: "nat \<Rightarrow> char" where
  "upper_hex n = (if n < 10 then char_of (48 + n) else char_of (55 + n))"

definition percent :: "(nat \<Rightarrow> char) \<Rightarrow> char \<Rightarrow> string" where
  "percent digit c = [CHR 0x25, digit (of_char c div 16), digit (of_char c mod 16)]"

definition escapePath :: "string \<Rightarrow> string" where
  "escapePath s = concat (map (\<lambda>c. if path_byte c then [c] else percent upper_hex c) s)"

definition validEncoded :: "string \<Rightarrow> bool" where
  "validEncoded s = list_all (\<lambda>c. path_byte c \<or> c \<in> set ''!()*[]'' \<or> c = CHR 0x27 \<or> c = CHR 0x25) s"

definition EscapedPath :: "Request \<Rightarrow> string" where
  "EscapedPath r =
     (if rq_RawPath r \<noteq> [] \<and> validEncoded (rq_RawPath r) \<and> unescapeAny (rq_RawPath r) = Some (rq_Path r) then rq_RawPath r
      else if rq_Path r = ''*'' then ''*''
      else escapePath (rq_Path r))"

text \<open>\<^verbatim>\<open>URL.String\<close> for a URL that has only a rooted path and a query.\<close>

definition urlString :: "string \<Rightarrow> string \<Rightarrow> string" where
  "urlString path query = escapePath path @ (if query = [] then [] else CHR ''?'' # query)"

section \<open>Redirects\<close>

definition htmlEscape :: "string \<Rightarrow> string" where
  "htmlEscape s = concat (map (\<lambda>c.
     if c = CHR ''&'' then ''&amp;'' else if c = CHR ''<'' then ''&lt;'' else if c = CHR ''>'' then ''&gt;''
     else if c = CHR 0x22 then ''&#34;'' else if c = CHR 0x27 then ''&#39;'' else [c]) s)"

definition hexEscapeNonASCII :: "string \<Rightarrow> string" where
  "hexEscapeNonASCII s = concat (map (\<lambda>c. if 128 \<le> (of_char c :: nat) then percent hex_digit c else [c]) s)"

text \<open>The target that \<^verbatim>\<open>http.Redirect\<close> computes from a rooted one: the path cleaned, with the slash at its
  end and the query kept.\<close>

definition redirectTarget :: "string \<Rightarrow> string" where
  "redirectTarget url =
     (if url_Parse url = Some ([], []) then
        (let path = takeWhile (\<lambda>c. c \<noteq> CHR ''?'') url;
             query = dropWhile (\<lambda>c. c \<noteq> CHR ''?'') url;
             np = path_Clean path
         in (if HasSuffix path ''/'' \<and> \<not> HasSuffix np ''/'' then np @ ''/'' else np) @ query)
      else url)"

definition RedirectHandler :: "string \<Rightarrow> int \<Rightarrow> string \<Rightarrow> 's handler" where
  "RedirectHandler url code statusText s r w =
     (let url' = redirectTarget url;
          hadCT = (map_of (headerOf w) ''Content-Type'' \<noteq> None);
          w1 = onHeader (hSet ''Location'' (hexEscapeNonASCII url')) w;
          w2 = (if \<not> hadCT \<and> (rq_Method r = ''GET'' \<or> rq_Method r = ''HEAD'')
                then onHeader (hSet ''Content-Type'' ''text/html; charset=utf-8'') w1 else w1);
          w3 = WriteHeader code w2
      in (s, if \<not> hadCT \<and> rq_Method r = ''GET''
             then fst (Write (''<a href='' @ [CHR 0x22] @ htmlEscape url' @ [CHR 0x22] @ ''>'' @ statusText @ ''</a>.'' @ [CHR 0x0A, CHR 0x0A]) w3)
             else w3))"

definition movedPermanently :: "string \<Rightarrow> 's handler" where
  "movedPermanently url = RedirectHandler url 301 ''Moved Permanently''"

definition StripPrefix :: "string \<Rightarrow> 's handler \<Rightarrow> 's handler" where
  "StripPrefix pre h s r w =
     (let p = TrimPrefix (rq_Path r) pre; rp = TrimPrefix (rq_RawPath r) pre
      in if length p < length (rq_Path r) \<and> (rq_RawPath r = [] \<or> length rp < length (rq_RawPath r))
         then h s (r\<lparr>rq_Path := p, rq_RawPath := rp\<rparr>) w
         else NotFoundHandler s r w)"

section \<open>The router\<close>

type_synonym 's mux = "(string \<times> 's handler) list"

text \<open>\<^verbatim>\<open>mux.Handle\<close> panics (\<open>None\<close>) on a pattern that is already there.\<close>

definition mux_Handle :: "string \<Rightarrow> 's handler \<Rightarrow> 's mux \<Rightarrow> 's mux option" where
  "mux_Handle pat h m = (if pat \<in> set (map fst m) then None else Some (m @ [(pat, h)]))"

definition pathUnescape :: "string \<Rightarrow> string" where
  "pathUnescape s = (case unescapeAny s of Some u \<Rightarrow> u | None \<Rightarrow> s)"

definition segmentsOf :: "string \<Rightarrow> string list" where
  "segmentsOf p = Split (CHR ''/'') (tl p)"

text \<open>A pattern with a slash at its end has an empty last segment and matches everything below it.\<close>

definition isSubtree :: "string \<Rightarrow> bool" where
  "isSubtree pat \<longleftrightarrow> last (segmentsOf pat) = []"

definition patternMatches :: "string \<Rightarrow> string \<Rightarrow> bool" where
  "patternMatches path pat \<longleftrightarrow>
     path \<noteq> [] \<and>
     (let ps = segmentsOf pat; xs = map pathUnescape (segmentsOf path)
      in if isSubtree pat then length ps \<le> length xs \<and> take (length ps - 1) xs = butlast ps else xs = ps)"

text \<open>Of the patterns that match, the most specific one is the longest.\<close>

definition moreSpecific :: "string \<Rightarrow> string \<times> 's handler \<Rightarrow> (string \<times> 's handler) option \<Rightarrow> (string \<times> 's handler) option" where
  "moreSpecific path e acc =
     (if patternMatches path (fst e) \<and> (case acc of None \<Rightarrow> True | Some a \<Rightarrow> length (fst a) < length (fst e)) then Some e else acc)"

definition bestMatch :: "'s mux \<Rightarrow> string \<Rightarrow> (string \<times> 's handler) option" where
  "bestMatch m path = fold (moreSpecific path) m None"

definition exactMatch :: "string \<Rightarrow> (string \<times> 's handler) option \<Rightarrow> bool" where
  "exactMatch path n =
     (case n of
        None \<Rightarrow> False
      | Some (pat, _) \<Rightarrow>
          if \<not> isSubtree pat then True
          else if path \<noteq> [] \<and> \<not> HasSuffix path ''/'' then False
          else length (segmentsOf pat) = count_list path (CHR ''/''))"

definition slashRedirect :: "'s mux \<Rightarrow> string \<Rightarrow> Request \<Rightarrow> string option" where
  "slashRedirect m path r =
     (if \<not> exactMatch path (bestMatch m path) \<and> \<not> HasSuffix path ''/'' \<and> path \<noteq> [] \<and>
         exactMatch (path @ ''/'') (bestMatch m (path @ ''/''))
      then Some (urlString (cleanPath (rq_Path r) @ ''/'') (rq_RawQuery r)) else None)"

definition matched :: "(string \<times> 's handler) option \<Rightarrow> 's handler" where
  "matched n = (case n of None \<Rightarrow> NotFoundHandler | Some (_, h) \<Rightarrow> h)"

definition findHandler :: "'s mux \<Rightarrow> Request \<Rightarrow> 's handler" where
  "findHandler m r =
     (let escaped = EscapedPath r
      in if rq_Method r = ''CONNECT'' then
           (case slashRedirect m escaped r of
              Some u \<Rightarrow> movedPermanently u
            | None \<Rightarrow> matched (bestMatch m escaped))
         else
           (let path = cleanPath escaped
            in case slashRedirect m path r of
                 Some u \<Rightarrow> movedPermanently u
               | None \<Rightarrow>
                   if path \<noteq> escaped then movedPermanently (urlString path (rq_RawQuery r))
                   else matched (bestMatch m path)))"

text \<open>The request \<^verbatim>\<open>OPTIONS *\<close> is refused.\<close>

definition mux_ServeHTTP :: "'s mux \<Rightarrow> 's handler" where
  "mux_ServeHTTP m s r w =
     (if rq_Path r = ''*'' then (s, WriteHeader 400 (onHeader (hSet ''Connection'' ''close'') w))
      else findHandler m r s r w)"

section \<open>Laws of paths\<close>

text \<open>An element of a clean path: not empty, no slash in it, neither the directory itself nor its parent.\<close>

definition plainSeg :: "string \<Rightarrow> bool" where
  "plainSeg seg \<longleftrightarrow> seg \<noteq> [] \<and> seg \<noteq> ''.'' \<and> seg \<noteq> ''..'' \<and> CHR ''/'' \<notin> set seg"

lemma Split_Join: "xs \<noteq> [] \<Longrightarrow> \<forall>x\<in>set xs. d \<notin> set x \<Longrightarrow> Split d (Join xs [d]) = xs"
proof (induction xs "[d]" rule: Join.induct)
  case (3 w v vs)
  then show ?case by (simp add: Split_sep)
qed (simp_all add: Split_plain)

lemma fold_cleanSeg_plain:
  assumes "\<forall>x\<in>set segs. CHR ''/'' \<notin> set x" "list_all plainSeg out"
  shows "list_all plainSeg (fold (cleanSeg True) segs out)"
  using assms
proof (induction segs arbitrary: out)
  case (Cons a segs)
  have "plainSeg a \<or> a = [] \<or> a = ''.'' \<or> a = ''..''" "\<not> plainSeg ''..''"
    using Cons.prems by (auto simp: plainSeg_def)
  then have "list_all plainSeg (cleanSeg True a out)"
    using Cons.prems(2) by (auto simp: cleanSeg_def split: list.split)
  with Cons show ?case by simp
qed simp

lemma cleanSegs_plain: "list_all plainSeg (cleanSegs True p)"
  unfolding cleanSegs_def using fold_cleanSeg_plain [of "Split (CHR ''/'') p" "[]"] Split_parts by auto

lemma fold_cleanSeg_id:
  "list_all plainSeg segs \<Longrightarrow> fold (cleanSeg rooted) segs out = rev segs @ out"
  by (induction segs arbitrary: out) (auto simp: cleanSeg_def plainSeg_def)

lemma cleanSegs_Join:
  assumes "list_all plainSeg segs"
  shows "cleanSegs True (Join segs ''/'') = segs"
proof (cases "segs = []")
  case False
  have "Split (CHR ''/'') (Join segs ''/'') = segs"
    using False assms by (intro Split_Join) (auto simp: list_all_iff plainSeg_def)
  then show ?thesis using fold_cleanSeg_id [OF assms, of True "[]"] by (simp add: cleanSegs_def)
qed (simp add: cleanSegs_def cleanSeg_def)

lemma cleanSegs_slash: "cleanSegs rooted (CHR ''/'' # p) = cleanSegs rooted p"
  by (simp add: cleanSegs_def cleanSeg_def)

lemma path_Clean_rooted: "path_Clean (CHR ''/'' # p) = CHR ''/'' # Join (cleanSegs True p) ''/''"
  by (simp add: path_Clean_def HasPrefix_def cleanSegs_slash Let_def)

lemma path_Clean_idem: "path_Clean (path_Clean (CHR ''/'' # p)) = path_Clean (CHR ''/'' # p)"
  by (simp add: path_Clean_rooted cleanSegs_Join cleanSegs_plain)

section \<open>Laws of the router\<close>

lemma moreSpecific_fold:
  assumes "\<And>e. acc = Some e \<Longrightarrow> patternMatches path (fst e)"
  shows "(case fold (moreSpecific path) m acc of
       None \<Rightarrow> acc = None \<and> (\<forall>e\<in>set m. \<not> patternMatches path (fst e))
     | Some b \<Rightarrow> (acc = Some b \<or> b \<in> set m) \<and> patternMatches path (fst b) \<and>
         (\<forall>e \<in> set m \<union> set_option acc. patternMatches path (fst e) \<longrightarrow> length (fst e) \<le> length (fst b)))"
  using assms
proof (induction m arbitrary: acc)
  case Nil
  then show ?case by (auto split: option.split)
next
  case (Cons a m)
  have acc: "moreSpecific path a acc = acc \<or> moreSpecific path a acc = Some a \<and> patternMatches path (fst a)"
    by (auto simp: moreSpecific_def)
  then have pre: "patternMatches path (fst e)" if "moreSpecific path a acc = Some e" for e using that Cons.prems [of e] by auto
  note IH = Cons.IH [of "moreSpecific path a acc", OF pre]
  have low: "\<exists>b. moreSpecific path a acc = Some b \<and> length (fst e) \<le> length (fst b)"
    if "patternMatches path (fst e)" "e = a \<or> acc = Some e" for e
    using that by (auto simp: moreSpecific_def simp del: split_paired_Ex split: option.split)
  show ?case
  proof (cases "fold (moreSpecific path) m (moreSpecific path a acc)")
    case None
    then have m: "moreSpecific path a acc = None" "\<forall>e\<in>set m. \<not> patternMatches path (fst e)" using IH by simp_all
    then have "acc = None" "\<not> patternMatches path (fst a)"
      using low [of a] by (auto simp: moreSpecific_def split: if_splits)
    then show ?thesis using None m by simp
  next
    case (Some b)
    with IH have b: "moreSpecific path a acc = Some b \<or> b \<in> set m" "patternMatches path (fst b)"
      and le: "\<And>e. e \<in> set m \<or> moreSpecific path a acc = Some e \<Longrightarrow> patternMatches path (fst e) \<Longrightarrow> length (fst e) \<le> length (fst b)"
      by auto
    have "length (fst e) \<le> length (fst b)" if e: "patternMatches path (fst e)" "e \<in> set (a # m) \<union> set_option acc" for e
    proof (cases "e \<in> set m")
      case False
      then obtain b' where b': "moreSpecific path a acc = Some b'" "length (fst e) \<le> length (fst b')"
        using low [OF e(1)] e(2) by auto
      then have "patternMatches path (fst b')" using pre by blast
      then show ?thesis using le b' by fastforce
    qed (use le e in blast)
    moreover have "acc = Some b \<or> b \<in> set (a # m)" using b(1) acc by auto
    ultimately show ?thesis using Some b(2) by simp
  qed
qed

lemma bestMatch_Some:
  assumes "bestMatch m path = Some (pat, h)"
  shows "(pat, h) \<in> set m" "patternMatches path pat"
    "\<And>pat' h'. (pat', h') \<in> set m \<Longrightarrow> patternMatches path pat' \<Longrightarrow> length pat' \<le> length pat"
  using moreSpecific_fold [of None path m] assms by (fastforce simp: bestMatch_def)+

lemma bestMatch_None:
  assumes "bestMatch m path = None" "(pat, h) \<in> set m"
  shows "\<not> patternMatches path pat"
  using moreSpecific_fold [of None path m] assms by (fastforce simp: bestMatch_def)

lemma movedPermanently_state [simp]: "fst (movedPermanently url s r w) = s"
  by (simp add: movedPermanently_def RedirectHandler_def Let_def)

lemma NotFound_state [simp]: "fst (NotFoundHandler s r w) = s"
  by (simp add: NotFoundHandler_def)

text \<open>A router leaves the state alone or hands the request to a registered handler whose pattern
  matches its path.\<close>

lemma mux_ServeHTTP_cases:
  obtains (none) "fst (mux_ServeHTTP m s r w) = s"
  | (to) pat h where "(pat, h) \<in> set m" "patternMatches (EscapedPath r) pat" "mux_ServeHTTP m s r w = h s r w"
proof (cases "rq_Path r = ''*''")
  case False
  have "fst (findHandler m r s r w) = s \<or> findHandler m r = matched (bestMatch m (EscapedPath r))"
  proof (cases "rq_Method r = ''CONNECT''")
    case True
    then show ?thesis by (cases "slashRedirect m (EscapedPath r) r") (simp_all add: findHandler_def Let_def)
  next
    case False
    then show ?thesis by (cases "slashRedirect m (cleanPath (EscapedPath r)) r") (simp_all add: findHandler_def Let_def)
  qed
  then consider "fst (findHandler m r s r w) = s" | "findHandler m r = matched (bestMatch m (EscapedPath r))" by blast
  then show ?thesis
  proof cases
    case 2
    then show ?thesis
      using False none to bestMatch_Some [of m "EscapedPath r"]
      by (cases "bestMatch m (EscapedPath r)") (auto simp: mux_ServeHTTP_def matched_def)
  qed (use False none in \<open>simp add: mux_ServeHTTP_def\<close>)
qed (use none in \<open>simp add: mux_ServeHTTP_def\<close>)

text \<open>A relation between the state before and after a request, for every request a handler may get.\<close>

definition obeys :: "('s \<Rightarrow> 's \<Rightarrow> bool) \<Rightarrow> 's handler \<Rightarrow> bool" where
  "obeys R h \<longleftrightarrow> (\<forall>s r w. R s (fst (h s r w)))"

lemma obeysI [intro]: "(\<And>s r w. R s (fst (h s r w))) \<Longrightarrow> obeys R h"
  by (simp add: obeys_def)

lemma obeysD [dest]: "obeys R h \<Longrightarrow> R s (fst (h s r w))"
  by (simp add: obeys_def)

text \<open>The interface between the router and what it routes to: a reflexive relation that every
  registered handler obeys is obeyed by the router.\<close>

locale effect =
  fixes R :: "'s \<Rightarrow> 's \<Rightarrow> bool"
  assumes untouched: "R s s"
begin

lemma still_obeys: "(\<And>s r w. fst (h s r w) = s) \<Longrightarrow> obeys R h"
  by (simp add: obeys_def untouched)

lemma mux_obeys:
  assumes "\<And>pat h. (pat, h) \<in> set m \<Longrightarrow> obeys R h"
  shows "obeys R (mux_ServeHTTP m)"
proof
  fix s r w
  show "R s (fst (mux_ServeHTTP m s r w))"
    by (rule mux_ServeHTTP_cases [of m s r w]) (auto simp: untouched dest: assms)
qed

lemma strip_obeys: "obeys R h \<Longrightarrow> obeys R (StripPrefix p h)"
  by (simp add: obeys_def StripPrefix_def Let_def untouched)

end

end
