(* ===== verification/Admin.thy ===== *)
theory Admin
  imports Go_Mux Config_Types "HOL-Library.Multiset"
begin

text \<open>
  The admin pages (\<^verbatim>\<open>internal/admin/admin.go\<close>) and the API that reports the state of the observability
  stack (\<^verbatim>\<open>internal/admin/observability.go\<close>). The embedded files, the file server of \<^verbatim>\<open>net/http\<close> and
  the answers of the services are parameters.
\<close>

section \<open>Static pages\<close>

text \<open>\<open>fs_Stat\<close> is \<open>None\<close> when there is no such file, else whether it is a directory.\<close>

record staticFS =
  fs_Stat :: "string \<Rightarrow> bool option"
  fs_ReadFile :: "string \<Rightarrow> string option"

definition cleanRequestPath :: "string \<Rightarrow> string" where
  "cleanRequestPath rawPath = TrimPrefix (path_Clean (CHR ''/'' # rawPath)) ''/''"

definition shouldServeIndex :: "staticFS \<Rightarrow> string \<Rightarrow> bool" where
  "shouldServeIndex staticRoot requestPath \<longleftrightarrow>
     (if requestPath = [] \<or> requestPath = ''.'' then True
      else case fs_Stat staticRoot requestPath of None \<Rightarrow> True | Some isDir \<Rightarrow> isDir)"

definition serveIndex :: "staticFS \<Rightarrow> Request \<Rightarrow> writer \<Rightarrow> writer" where
  "serveIndex staticRoot r w =
     (let w1 = onHeader (hSet ''Content-Type'' ''text/html; charset=utf-8'') (onHeader (hSet ''Cache-Control'' ''no-store'') w)
      in if rq_Method r = ''HEAD'' then w1
         else case fs_ReadFile staticRoot ''index.html'' of
             None \<Rightarrow> httpError (zh [0x7BA1, 0x7406, 0x9875, 0x9762, 0x4E0D, 0x53EF, 0x7528]) 500 w1
           | Some indexHTML \<Rightarrow> fst (Write indexHTML w1))"

definition setCacheHeader :: "string \<Rightarrow> writer \<Rightarrow> writer" where
  "setCacheHeader requestPath w =
     (if HasSuffix requestPath ''.html'' then onHeader (hSet ''Cache-Control'' ''no-store'') w
      else onHeader (hSet ''Cache-Control'' ''public, max-age=300'') w)"

definition adminHandler :: "staticFS \<Rightarrow> 's handler \<Rightarrow> 's handler" where
  "adminHandler staticRoot fileServer s r w =
     (if rq_Method r \<noteq> ''GET'' \<and> rq_Method r \<noteq> ''HEAD'' then
        (s, httpError (zh [0x4EC5, 0x652F, 0x6301, 0x20, 0x47, 0x45, 0x54, 0x20, 0x548C, 0x20, 0x48, 0x45, 0x41, 0x44, 0x20, 0x65B9, 0x6CD5]) 405 (onHeader (hSet ''Allow'' ''GET, HEAD'') w))
      else
        let requestPath = cleanRequestPath (rq_Path r)
        in if shouldServeIndex staticRoot requestPath then (s, serveIndex staticRoot r w)
           else fileServer s r (setCacheHeader requestPath w))"

section \<open>State of the observability stack\<close>

record observabilityServiceStatus =
  os_Name :: string
  os_Kind :: string
  os_URL :: string
  os_Status :: string
  os_StatusCode :: int
  os_Message :: string

record observabilityDashboard =
  od_Name :: string
  od_URL :: string
  od_EmbedURL :: string

record observabilityResponse =
  or_Enabled :: bool
  or_Services :: "observabilityServiceStatus list"
  or_Dashboards :: "observabilityDashboard list"

text \<open>What the network does: the message of an error of \<^verbatim>\<open>http.NewRequestWithContext\<close>, and the message
  of an error of \<^verbatim>\<open>http.DefaultClient.Do\<close> (a timeout after \<^verbatim>\<open>observabilityCheckTimeout\<close> included) or
  the status of the response.\<close>

record healthClient =
  hc_NewRequest :: "string \<Rightarrow> string option"
  hc_Do :: "string \<Rightarrow> string + int"

definition checkObservabilityService :: "healthClient \<Rightarrow> ObservabilityServiceConfig \<Rightarrow> observabilityServiceStatus" where
  "checkObservabilityService hc service =
     (let status = \<lparr>os_Name = TrimSpace (svc_Name service), os_Kind = TrimSpace (svc_Kind service),
            os_URL = TrimSpace (svc_PublicURL service), os_Status = ''unknown'', os_StatusCode = 0, os_Message = []\<rparr>;
          healthURL = TrimSpace (svc_HealthURL service)
      in if healthURL = [] then status\<lparr>os_Message := (zh [0x672A, 0x914D, 0x7F6E, 0x5065, 0x5EB7, 0x68C0, 0x67E5, 0x5730, 0x5740])\<rparr>
         else case hc_NewRequest hc healthURL of
             Some err \<Rightarrow> status\<lparr>os_Status := ''offline'', os_Message := err\<rparr>
           | None \<Rightarrow>
               (case hc_Do hc healthURL of
                  Inl err \<Rightarrow> status\<lparr>os_Status := ''offline'', os_Message := err\<rparr>
                | Inr code \<Rightarrow>
                    let status1 = status\<lparr>os_StatusCode := code\<rparr>
                    in if code \<ge> 200 \<and> code < 300 then status1\<lparr>os_Status := ''online''\<rparr>
                       else if code \<ge> 300 \<and> code < 500 then status1\<lparr>os_Status := ''degraded'', os_Message := ''HTTP '' @ Itoa code\<rparr>
                       else status1\<lparr>os_Status := ''offline'', os_Message := ''HTTP '' @ Itoa code\<rparr>))"

text \<open>One goroutine per service writes its own element of \<^verbatim>\<open>statuses\<close>. \<open>order\<close> lists the goroutines as
  their writes happen; \<^verbatim>\<open>waitGroup.Wait\<close> returns after all of them.\<close>

definition zeroStatus :: observabilityServiceStatus where
  "zeroStatus = \<lparr>os_Name = [], os_Kind = [], os_URL = [], os_Status = [], os_StatusCode = 0, os_Message = []\<rparr>"

definition checkObservabilityServices ::
    "healthClient \<Rightarrow> nat list \<Rightarrow> ObservabilityServiceConfig list \<Rightarrow> observabilityServiceStatus list" where
  "checkObservabilityServices hc order services =
     fold (\<lambda>index statuses. statuses[index := checkObservabilityService hc (services ! index)]) order
       (replicate (length services) zeroStatus)"

definition buildObservabilityResponse :: "healthClient \<Rightarrow> nat list \<Rightarrow> ObservabilityStack \<Rightarrow> observabilityResponse" where
  "buildObservabilityResponse hc order stack =
     (let response = \<lparr>or_Enabled = stack_Enabled stack, or_Services = [],
            or_Dashboards = map (\<lambda>d. \<lparr>od_Name = TrimSpace (dash_Name d), od_URL = TrimSpace (dash_URL d),
              od_EmbedURL = TrimSpace (dash_EmbedURL d)\<rparr>) (stack_Dashboards stack)\<rparr>
      in if \<not> stack_Enabled stack then response
         else response\<lparr>or_Services := checkObservabilityServices hc order (stack_Services stack)\<rparr>)"

text \<open>The JSON of the response; fields marked \<^verbatim>\<open>omitempty\<close> are left out when empty.\<close>

definition omitempty :: "string \<Rightarrow> string \<Rightarrow> (string \<times> string) list" where
  "omitempty k v = (if v = [] then [] else [(k, quote v)])"

definition statusJSON :: "observabilityServiceStatus \<Rightarrow> string" where
  "statusJSON s = enc_obj ([(''name'', quote (os_Name s)), (''kind'', quote (os_Kind s))] @ omitempty ''url'' (os_URL s) @
     [(''status'', quote (os_Status s))] @ (if os_StatusCode s = 0 then [] else [(''status_code'', Itoa (os_StatusCode s))]) @
     omitempty ''message'' (os_Message s))"

definition dashboardJSON :: "observabilityDashboard \<Rightarrow> string" where
  "dashboardJSON d = enc_obj ((''name'', quote (od_Name d)) # omitempty ''url'' (od_URL d) @ omitempty ''embed_url'' (od_EmbedURL d))"

definition observabilityJSON :: "observabilityResponse \<Rightarrow> string" where
  "observabilityJSON r = enc_obj [(''enabled'', if or_Enabled r then ''true'' else ''false''),
     (''services'', enc_arr (map statusJSON (or_Services r))), (''dashboards'', enc_arr (map dashboardJSON (or_Dashboards r)))]"

definition ObservabilityHandler :: "healthClient \<Rightarrow> nat list \<Rightarrow> ObservabilityStack \<Rightarrow> 's handler" where
  "ObservabilityHandler hc order stack s r w =
     (if rq_Method r \<noteq> ''GET'' then (s, httpError (zh [0x4EC5, 0x652F, 0x6301, 0x20, 0x47, 0x45, 0x54, 0x20, 0x65B9, 0x6CD5]) 405 (onHeader (hSet ''Allow'' ''GET'') w))
      else (s, writeJSON 200 (observabilityJSON (buildObservabilityResponse hc order stack)) w))"

section \<open>Routes\<close>

text \<open>The network and the scheduling are those of the moment of the request, so they are read from the state.\<close>

definition admin_Register :: "staticFS \<Rightarrow> 's handler \<Rightarrow> ('s \<Rightarrow> healthClient) \<Rightarrow> ('s \<Rightarrow> nat list) \<Rightarrow> ObservabilityStack \<Rightarrow> 's mux \<Rightarrow> 's mux option" where
  "admin_Register staticRoot fileServer hcOf orderOf stack m =
     Option.bind (mux_Handle ''/admin/api/observability'' (\<lambda>s. ObservabilityHandler (hcOf s) (orderOf s) stack s) m)
       (\<lambda>m. Option.bind (mux_Handle ''/admin'' (movedPermanently ''/admin/'') m)
         (mux_Handle ''/admin/'' (StripPrefix ''/admin/'' (adminHandler staticRoot fileServer))))"

section \<open>Properties\<close>

lemma cleanRequestPath_Join: "cleanRequestPath p = Join (cleanSegs True p) ''/''"
  by (simp add: cleanRequestPath_def path_Clean_rooted TrimPrefix_def HasPrefix_def)

text \<open>C36. The path that is looked up in the embedded files never leaves their root: whatever path a client sends,
  it is a sequence of plain names joined by slashes, none of them empty, \<^verbatim>\<open>.\<close> or \<^verbatim>\<open>..\<close>, and cleaning
  it again changes nothing.\<close>

theorem admin_path_stays_inside:
  "\<exists>segs. list_all plainSeg segs \<and> cleanRequestPath p = Join segs ''/'' \<and> cleanRequestPath (cleanRequestPath p) = cleanRequestPath p"
  using cleanSegs_plain [of p] cleanSegs_Join [OF cleanSegs_plain, of p] unfolding cleanRequestPath_Join by auto

text \<open>The admin pages on every request: other methods than GET and HEAD are refused, a path that is not a
  regular file gets the index page, a regular file goes to the file server with its own path.\<close>

lemma admin_pages:
  "adminHandler fs fileServer s r w =
     (if rq_Method r \<notin> {''GET'', ''HEAD''} then (s, httpError (zh [0x4EC5, 0x652F, 0x6301, 0x20, 0x47, 0x45, 0x54, 0x20, 0x548C, 0x20, 0x48, 0x45, 0x41, 0x44, 0x20, 0x65B9, 0x6CD5]) 405 (onHeader (hSet ''Allow'' ''GET, HEAD'') w))
      else if cleanRequestPath (rq_Path r) \<noteq> [] \<and> fs_Stat fs (cleanRequestPath (rq_Path r)) = Some False
      then fileServer s r (setCacheHeader (cleanRequestPath (rq_Path r)) w)
      else (s, serveIndex fs r w))"
proof -
  have "cleanRequestPath (rq_Path r) \<noteq> ''.''"
  proof
    assume dot: "cleanRequestPath (rq_Path r) = ''.''"
    have plain: "list_all plainSeg (cleanSegs True (rq_Path r))" by (rule cleanSegs_plain)
    have "cleanSegs True (rq_Path r) = []"
      using cleanSegs_Join [OF plain] dot unfolding cleanRequestPath_Join by (simp add: cleanSegs_def cleanSeg_def)
    with dot show False unfolding cleanRequestPath_Join by simp
  qed
  then show ?thesis by (auto simp: adminHandler_def shouldServeIndex_def Let_def split: option.split)
qed

lemma fold_update_length [simp]: "length (fold (\<lambda>i ys. ys[i := f i]) is ys) = length ys"
  by (induction "is" arbitrary: ys) auto

lemma fold_update_nth:
  "i < length ys \<Longrightarrow> fold (\<lambda>i ys. ys[i := f i]) is ys ! i = (if i \<in> set is then f i else ys ! i)"
  by (induction "is" arbitrary: ys) (auto simp: nth_list_update)

text \<open>The reported state of the services does not depend on the order in which the goroutines finish: in every
  order it is, service by service and in the order of the configuration, the result of its own check.\<close>

theorem service_checks_any_order:
  assumes "mset order = mset [0..<length services]"
  shows "checkObservabilityServices hc order services = map (checkObservabilityService hc) services"
proof (rule nth_equalityI)
  have all: "set order = {..<length services}" using mset_eq_setD [OF assms] by (simp add: lessThan_atLeast0)
  fix i
  assume "i < length (checkObservabilityServices hc order services)"
  then show "checkObservabilityServices hc order services ! i = map (checkObservabilityService hc) services ! i"
    unfolding checkObservabilityServices_def by (simp add: fold_update_nth all)
qed (simp add: checkObservabilityServices_def)

definition demoServices :: "ObservabilityServiceConfig list" where
  "demoServices = [\<lparr>svc_Name = ''Grafana'', svc_Kind = ''dashboard'', svc_PublicURL = [], svc_HealthURL = ''http://grafana/health''\<rparr>,
     \<lparr>svc_Name = ''Tempo'', svc_Kind = ''traces'', svc_PublicURL = [], svc_HealthURL = ''http://tempo/ready''\<rparr>]"

definition demoClient :: healthClient where
  "demoClient = \<lparr>hc_NewRequest = \<lambda>_. None, hc_Do = \<lambda>u. Inr (if u = ''http://tempo/ready'' then 503 else 200)\<rparr>"

theorem service_checks_any_order_witness:
  "map os_Status (checkObservabilityServices demoClient [1, 0] demoServices) = [''online'', ''offline'']"
proof -
  have "checkObservabilityServices demoClient [1, 0] demoServices = map (checkObservabilityService demoClient) demoServices"
    by (rule service_checks_any_order) (simp add: demoServices_def add_mset_commute)
  moreover have "map (os_Status \<circ> checkObservabilityService demoClient) demoServices = [''online'', ''offline'']"
    by code_simp
  ultimately show ?thesis by simp
qed

end
