(* ===== verification/Telemetry.thy ===== *)
theory Telemetry
  imports Tracing Config_Types
begin

text \<open>
  \<^verbatim>\<open>internal/telemetry\<close>: the exporters (\<^verbatim>\<open>exporters.go\<close>), the runtime that holds the OpenTelemetry
  providers (\<^verbatim>\<open>runtime.go\<close>), the logger that writes to several handlers (\<^verbatim>\<open>logger.go\<close>), the propagator
  of the older trace headers (\<^verbatim>\<open>propagator.go\<close>) and the wrappers of handlers (\<^verbatim>\<open>http.go\<close>). The SDK of
  OpenTelemetry is a parameter; a provider is what it was built from.
\<close>

section \<open>Exporters\<close>

datatype otlpOption =
    WithTimeout duration
  | WithEndpointURL string
  | WithInsecure
  | WithHeaders "(string \<times> string) list"

definition traceSignalPath :: string where "traceSignalPath = ''/v1/traces''"
definition logSignalPath :: string where "logSignalPath = ''/v1/logs''"

definition shouldExport :: "(string \<Rightarrow> string) \<Rightarrow> OpenTelemetryConfig \<Rightarrow> OpenTelemetrySignalConfig \<Rightarrow> string \<Rightarrow> bool" where
  "shouldExport getenv cfg signal signalEnv =
     (if \<not> otel_Enabled cfg \<or> \<not> sig_Enabled signal then False
      else if TrimSpace (otel_Endpoint cfg) \<noteq> [] \<or> TrimSpace (sig_Endpoint signal) \<noteq> [] then True
      else getenv ''OTEL_EXPORTER_OTLP_ENDPOINT'' \<noteq> [] \<or> getenv (''OTEL_EXPORTER_OTLP_'' @ signalEnv @ ''_ENDPOINT'') \<noteq> [])"

definition signalEndpoint :: "string \<Rightarrow> string \<Rightarrow> string \<Rightarrow> string" where
  "signalEndpoint commonEndpoint ownEndpoint signalPath =
     (if TrimSpace ownEndpoint \<noteq> [] then TrimSpace ownEndpoint
      else let endpoint = TrimRight (TrimSpace commonEndpoint) ''/''
           in if endpoint = [] then [] else endpoint @ signalPath)"

definition cleanHeaders :: "(string \<times> string) list \<Rightarrow> (string \<times> string) list" where
  "cleanHeaders headers =
     fold (\<lambda>(key, value) result. if TrimSpace key = [] then result else AList.update (TrimSpace key) (TrimSpace value) result) headers []"

definition exporterOptions :: "OpenTelemetryConfig \<Rightarrow> string \<Rightarrow> otlpOption list" where
  "exporterOptions cfg endpoint =
     WithTimeout (otel_ExportTimeout cfg) #
     (if endpoint \<noteq> [] then [WithEndpointURL endpoint] else []) @
     (if otel_Insecure cfg then [WithInsecure] else []) @
     (if cleanHeaders (otel_Headers cfg) \<noteq> [] then [WithHeaders (cleanHeaders (otel_Headers cfg))] else [])"

definition traceExporterOptions :: "OpenTelemetryConfig \<Rightarrow> otlpOption list" where
  "traceExporterOptions cfg = exporterOptions cfg (signalEndpoint (otel_Endpoint cfg) (sig_Endpoint (otel_Traces cfg)) traceSignalPath)"

definition logExporterOptions :: "OpenTelemetryConfig \<Rightarrow> otlpOption list" where
  "logExporterOptions cfg = exporterOptions cfg (signalEndpoint (otel_Endpoint cfg) (sig_Endpoint (otel_Logs cfg)) logSignalPath)"

text \<open>The calls of the SDK that can fail, each with the message of its error, and the environment.
  A resource is the attributes it was given, a provider its resource and, if it exports, the options
  of its exporter and the timeout.\<close>

type_synonym resource = "(string \<times> string) list"

record otelSDK =
  sdk_resource :: "resource \<Rightarrow> string option"
  sdk_traceExporter :: "otlpOption list \<Rightarrow> string option"
  sdk_logExporter :: "otlpOption list \<Rightarrow> string option"
  sdk_getenv :: "string \<Rightarrow> string"

record provider =
  pv_resource :: resource
  pv_exporter :: "(otlpOption list \<times> duration) option"

definition newTracerProvider :: "otelSDK \<Rightarrow> OpenTelemetryConfig \<Rightarrow> resource \<Rightarrow> string + provider" where
  "newTracerProvider sdk cfg res =
     (if shouldExport (sdk_getenv sdk) cfg (otel_Traces cfg) ''TRACES'' then
        (case sdk_traceExporter sdk (traceExporterOptions cfg) of
           Some err \<Rightarrow> Inl err
         | None \<Rightarrow> Inr \<lparr>pv_resource = res, pv_exporter = Some (traceExporterOptions cfg, otel_ExportTimeout cfg)\<rparr>)
      else Inr \<lparr>pv_resource = res, pv_exporter = None\<rparr>)"

definition newLoggerProvider :: "otelSDK \<Rightarrow> OpenTelemetryConfig \<Rightarrow> resource \<Rightarrow> string + provider" where
  "newLoggerProvider sdk cfg res =
     (if shouldExport (sdk_getenv sdk) cfg (otel_Logs cfg) ''LOGS'' then
        (case sdk_logExporter sdk (logExporterOptions cfg) of
           Some err \<Rightarrow> Inl err
         | None \<Rightarrow> Inr \<lparr>pv_resource = res, pv_exporter = Some (logExporterOptions cfg, otel_ExportTimeout cfg)\<rparr>)
      else Inr \<lparr>pv_resource = res, pv_exporter = None\<rparr>)"

section \<open>Runtime\<close>

record Runtime =
  rt_cfg :: OpenTelemetryConfig
  rt_resource :: "resource option"
  rt_tracerProvider :: "provider option"
  rt_loggerProvider :: "provider option"

text \<open>The globals of the package \<^verbatim>\<open>otel\<close>: whether the propagator is the one of the gateway, and the
  tracer provider.\<close>

record otelGlobals =
  og_propagator :: bool
  og_tracerProvider :: "provider option"

definition newResource :: "otelSDK \<Rightarrow> OpenTelemetryConfig \<Rightarrow> string + resource" where
  "newResource sdk cfg =
     (let attrs = [(''service.name'', TrimSpace (otel_ServiceName cfg))] @
            (if TrimSpace (otel_ServiceVersion cfg) \<noteq> [] then [(''service.version'', TrimSpace (otel_ServiceVersion cfg))] else []) @
            (if TrimSpace (otel_Environment cfg) \<noteq> [] then [(''deployment.environment.name'', TrimSpace (otel_Environment cfg))] else [])
      in case sdk_resource sdk attrs of Some err \<Rightarrow> Inl err | None \<Rightarrow> Inr attrs)"

definition addTracer :: "otelSDK \<Rightarrow> resource \<Rightarrow> otelGlobals \<Rightarrow> Runtime \<Rightarrow> otelGlobals \<times> (string + Runtime)" where
  "addTracer sdk res g rt =
     (if sig_Enabled (otel_Traces (rt_cfg rt)) then
        (case newTracerProvider sdk (rt_cfg rt) res of
           Inl err \<Rightarrow> (g, Inl err)
         | Inr p \<Rightarrow> (g\<lparr>og_tracerProvider := Some p\<rparr>, Inr (rt\<lparr>rt_tracerProvider := Some p\<rparr>)))
      else (g, Inr rt))"

definition addLogger :: "otelSDK \<Rightarrow> resource \<Rightarrow> Runtime \<Rightarrow> string + Runtime" where
  "addLogger sdk res rt =
     (if sig_Enabled (otel_Logs (rt_cfg rt)) then
        (case newLoggerProvider sdk (rt_cfg rt) res of
           Inl err \<Rightarrow> Inl err
         | Inr p \<Rightarrow> Inr (rt\<lparr>rt_loggerProvider := Some p\<rparr>))
      else Inr rt)"

definition telemetry_New :: "otelSDK \<Rightarrow> otelGlobals \<Rightarrow> OpenTelemetryConfig \<Rightarrow> otelGlobals \<times> (string + Runtime)" where
  "telemetry_New sdk g0 cfg =
     (let rt = \<lparr>rt_cfg = cfg, rt_resource = None, rt_tracerProvider = None, rt_loggerProvider = None\<rparr>;
          g = g0\<lparr>og_propagator := True\<rparr>
      in if \<not> otel_Enabled cfg then (g, Inr rt)
         else case newResource sdk cfg of
             Inl err \<Rightarrow> (g, Inl err)
           | Inr res \<Rightarrow>
               (case addTracer sdk res g (rt\<lparr>rt_resource := Some res\<rparr>) of
                  (g1, Inl err) \<Rightarrow> (g1, Inl err)
                | (g1, Inr rt1) \<Rightarrow> (g1, addLogger sdk res rt1)))"

definition TracesEnabled :: "Runtime option \<Rightarrow> bool" where
  "TracesEnabled r = (case r of None \<Rightarrow> False
     | Some rt \<Rightarrow> otel_Enabled (rt_cfg rt) \<and> sig_Enabled (otel_Traces (rt_cfg rt)) \<and> rt_tracerProvider rt \<noteq> None)"

definition LogsEnabled :: "Runtime option \<Rightarrow> bool" where
  "LogsEnabled r = (case r of None \<Rightarrow> False
     | Some rt \<Rightarrow> otel_Enabled (rt_cfg rt) \<and> sig_Enabled (otel_Logs (rt_cfg rt)) \<and> rt_loggerProvider rt \<noteq> None)"

definition TracerProvider :: "otelGlobals \<Rightarrow> Runtime option \<Rightarrow> provider option" where
  "TracerProvider g r = (case Option.bind r rt_tracerProvider of None \<Rightarrow> og_tracerProvider g | Some p \<Rightarrow> Some p)"

definition LoggerProvider :: "Runtime option \<Rightarrow> provider option" where
  "LoggerProvider r = Option.bind r rt_loggerProvider"

text \<open>\<open>close\<close> is \<^verbatim>\<open>provider.Shutdown\<close>. The result lists the providers that were shut down, in order,
  with the joined error.\<close>

definition Shutdown :: "(provider \<Rightarrow> string option) \<Rightarrow> Runtime option \<Rightarrow> provider list \<times> string option" where
  "Shutdown close r =
     (case r of
        None \<Rightarrow> ([], None)
      | Some rt \<Rightarrow>
          let ps = (case rt_loggerProvider rt of None \<Rightarrow> [] | Some p \<Rightarrow> [p]) @ (case rt_tracerProvider rt of None \<Rightarrow> [] | Some p \<Rightarrow> [p]);
              errs = List.map_filter close ps
          in (ps, if errs = [] then None else Some (Join errs [CHR 0x0A])))"

section \<open>Logger\<close>

text \<open>\<^verbatim>\<open>slog.Handler\<close> is an interface; \<open>'h\<close> is the state of an implementation. A log record is its level
  and its text.\<close>

record 'h slogOps =
  so_Enabled :: "'h \<Rightarrow> int \<Rightarrow> bool"
  so_Handle :: "'h \<Rightarrow> int \<times> string \<Rightarrow> 'h \<times> string option"
  so_WithAttrs :: "'h \<Rightarrow> (string \<times> string) list \<Rightarrow> 'h"
  so_WithGroup :: "'h \<Rightarrow> string \<Rightarrow> 'h"

type_synonym 'h fanoutHandler = "'h list"

definition newFanoutHandler :: "'h option list \<Rightarrow> 'h fanoutHandler" where
  "newFanoutHandler handlers = List.map_filter (\<lambda>h. h) handlers"

definition fanout_Enabled :: "'h slogOps \<Rightarrow> 'h fanoutHandler \<Rightarrow> int \<Rightarrow> bool" where
  "fanout_Enabled ops hs level = list_ex (\<lambda>h. so_Enabled ops h level) hs"

fun fanout_Handle :: "'h slogOps \<Rightarrow> 'h fanoutHandler \<Rightarrow> int \<times> string \<Rightarrow> 'h fanoutHandler \<times> string option" where
  "fanout_Handle ops [] rec = ([], None)"
| "fanout_Handle ops (h # hs) rec =
     (if \<not> so_Enabled ops h (fst rec) then (case fanout_Handle ops hs rec of (hs', err) \<Rightarrow> (h # hs', err))
      else case so_Handle ops h rec of
          (h', err) \<Rightarrow>
            (case fanout_Handle ops hs rec of
               (hs', err') \<Rightarrow> (h' # hs', case err of Some e \<Rightarrow> Some e | None \<Rightarrow> err')))"

definition fanout_WithAttrs :: "'h slogOps \<Rightarrow> 'h fanoutHandler \<Rightarrow> (string \<times> string) list \<Rightarrow> 'h fanoutHandler" where
  "fanout_WithAttrs ops hs attrs = map (\<lambda>h. so_WithAttrs ops h attrs) hs"

definition fanout_WithGroup :: "'h slogOps \<Rightarrow> 'h fanoutHandler \<Rightarrow> string \<Rightarrow> 'h fanoutHandler" where
  "fanout_WithGroup ops hs name = map (\<lambda>h. so_WithGroup ops h name) hs"

text \<open>\<open>textHandler\<close> writes to the output, \<open>otelHandler\<close> to the provider of the runtime.\<close>

definition NewLogger :: "'h \<Rightarrow> (provider option \<Rightarrow> 'h) \<Rightarrow> Runtime option \<Rightarrow> 'h fanoutHandler" where
  "NewLogger textHandler otelHandler runtime =
     newFanoutHandler ([Some textHandler] @ (if LogsEnabled runtime then [Some (otelHandler (LoggerProvider runtime))] else []))"

section \<open>Propagator of the older headers\<close>

definition legacy_Inject :: "Request \<Rightarrow> Header \<Rightarrow> Header" where
  "legacy_Inject ctx carrier =
     (case rq_span ctx of
        None \<Rightarrow> carrier
      | Some (traceID, _) \<Rightarrow> hSet HeaderRequestID traceID (hSet HeaderTraceID traceID carrier))"

text \<open>\<^verbatim>\<open>randomSpanID\<close> reads again while all bytes are zero; the error of a read ends it. The span id is
  printed in hexadecimal.\<close>

fun randomSpanID :: "string option list \<Rightarrow> string option \<times> string option list" where
  "randomSpanID [] = (None, [])"
| "randomSpanID (None # rs) = (None, rs)"
| "randomSpanID (Some b # rs) =
     (if allZeroBytes (fillBuf 8 b) then randomSpanID rs else (Some (hex_encode (fillBuf 8 b)), rs))"

text \<open>\<open>fromHex\<close> is \<^verbatim>\<open>trace.TraceIDFromHex\<close>, followed by the printing of the identifier.\<close>

definition legacy_Extract :: "(string \<Rightarrow> string option) \<Rightarrow> entropy \<Rightarrow> Request \<Rightarrow> Header \<Rightarrow> Request \<times> entropy" where
  "legacy_Extract fromHex en ctx carrier =
     (if rq_span ctx \<noteq> None then (ctx, en)
      else
        let v = (if hGet carrier HeaderTraceID = [] then hGet carrier HeaderRequestID else hGet carrier HeaderTraceID)
        in case fromHex v of
             None \<Rightarrow> (ctx, en)
           | Some traceID \<Rightarrow>
               (case randomSpanID (en_reads en) of
                  (None, rs) \<Rightarrow> (ctx, en\<lparr>en_reads := rs\<rparr>)
                | (Some spanID, rs) \<Rightarrow> (ctx\<lparr>rq_span := Some (traceID, spanID, ''01'', [])\<rparr>, en\<lparr>en_reads := rs\<rparr>)))"

definition legacy_Fields :: "string list" where
  "legacy_Fields = [HeaderTraceID, HeaderRequestID]"

text \<open>\<^verbatim>\<open>newPropagator\<close>: the W3C trace context, the baggage and the older headers, one after the other.\<close>

definition newPropagator_Inject :: "(Request \<Rightarrow> Header \<Rightarrow> Header) \<Rightarrow> (Request \<Rightarrow> Header \<Rightarrow> Header) \<Rightarrow> Request \<Rightarrow> Header \<Rightarrow> Header" where
  "newPropagator_Inject traceContext baggage ctx carrier = legacy_Inject ctx (baggage ctx (traceContext ctx carrier))"

definition newPropagator_Extract ::
    "(Request \<Rightarrow> Header \<Rightarrow> Request) \<Rightarrow> (Request \<Rightarrow> Header \<Rightarrow> Request) \<Rightarrow> (string \<Rightarrow> string option) \<Rightarrow> entropy \<Rightarrow> Request \<Rightarrow> Header \<Rightarrow> Request \<times> entropy" where
  "newPropagator_Extract traceContext baggage fromHex en ctx carrier =
     legacy_Extract fromHex en (baggage (traceContext ctx carrier) carrier) carrier"

section \<open>Wrappers of handlers\<close>

definition spanName :: "string \<Rightarrow> Request option \<Rightarrow> string" where
  "spanName operation req = (case req of None \<Rightarrow> operation | Some r \<Rightarrow> rq_Method r @ '' '' @ rq_Path r)"

text \<open>\<open>otelhttp\<close> is \<^verbatim>\<open>otelhttp.NewHandler\<close> with the options of the gateway; the name of the span is its
  first argument.\<close>

definition WrapHandler :: "((Request option \<Rightarrow> string) \<Rightarrow> 's handler \<Rightarrow> 's handler) \<Rightarrow> Runtime option \<Rightarrow> 's handler option \<Rightarrow> string \<Rightarrow> 's handler" where
  "WrapHandler otelhttp r handler operation =
     (let h = (case handler of None \<Rightarrow> NotFoundHandler | Some h \<Rightarrow> h)
      in if \<not> TracesEnabled r then h else otelhttp (spanName operation) h)"

definition WrapTransport :: "('t \<Rightarrow> 't) \<Rightarrow> 't \<Rightarrow> Runtime option \<Rightarrow> 't option \<Rightarrow> 't" where
  "WrapTransport otelhttp defaultTransport r base =
     (let t = (case base of None \<Rightarrow> defaultTransport | Some b \<Rightarrow> b)
      in if \<not> TracesEnabled r then t else otelhttp t)"

section \<open>Properties\<close>

text \<open>Nothing but an error of the SDK makes the initialisation fail.\<close>

definition sdkWorks :: "otelSDK \<Rightarrow> bool" where
  "sdkWorks sdk \<longleftrightarrow> sdk_resource sdk = (\<lambda>_. None) \<and> sdk_traceExporter sdk = (\<lambda>_. None) \<and> sdk_logExporter sdk = (\<lambda>_. None)"

lemma telemetry_New_works:
  assumes "sdkWorks sdk"
  obtains g' rt where "telemetry_New sdk g cfg = (g', Inr rt)"
  using assms that
  by (fastforce simp: sdkWorks_def telemetry_New_def newResource_def addTracer_def addLogger_def newTracerProvider_def
      newLoggerProvider_def Let_def split: sum.split prod.split)

lemma addTracer_Inr:
  assumes "addTracer sdk res g rt = (g', Inr rt')"
  shows "og_propagator g' = og_propagator g"
    "\<exists>tp. rt' = rt\<lparr>rt_tracerProvider := tp\<rparr> \<and>
       (if sig_Enabled (otel_Traces (rt_cfg rt))
        then tp \<noteq> None \<and> Option.bind tp pv_exporter = (if shouldExport (sdk_getenv sdk) (rt_cfg rt) (otel_Traces (rt_cfg rt)) ''TRACES''
          then Some (traceExporterOptions (rt_cfg rt), otel_ExportTimeout (rt_cfg rt)) else None)
        else tp = rt_tracerProvider rt)"
  using assms by (auto simp: addTracer_def newTracerProvider_def split: if_splits option.splits)

lemma addLogger_Inr:
  assumes "addLogger sdk res rt = Inr rt'"
  shows "\<exists>lp. rt' = rt\<lparr>rt_loggerProvider := lp\<rparr> \<and>
       (if sig_Enabled (otel_Logs (rt_cfg rt))
        then lp \<noteq> None \<and> Option.bind lp pv_exporter = (if shouldExport (sdk_getenv sdk) (rt_cfg rt) (otel_Logs (rt_cfg rt)) ''LOGS''
          then Some (logExporterOptions (rt_cfg rt), otel_ExportTimeout (rt_cfg rt)) else None)
        else lp = rt_loggerProvider rt)"
  using assms by (auto simp: addLogger_def newLoggerProvider_def split: if_splits option.splits)

text \<open>The telemetry runtime does what its configuration says: traces (logs) are on exactly when OpenTelemetry and
  the signal are enabled, they are exported exactly when an endpoint is configured or set in the environment, with
  the options of the configuration; disabled telemetry calls nothing of the SDK and always starts.\<close>

theorem telemetry_follows_config:
  "(case telemetry_New sdk g cfg of
      (g', Inl err) \<Rightarrow> otel_Enabled cfg \<and> og_propagator g'
    | (g', Inr rt) \<Rightarrow>
        og_propagator g' \<and>
        TracesEnabled (Some rt) = (otel_Enabled cfg \<and> sig_Enabled (otel_Traces cfg)) \<and>
        LogsEnabled (Some rt) = (otel_Enabled cfg \<and> sig_Enabled (otel_Logs cfg)) \<and>
        Option.bind (rt_tracerProvider rt) pv_exporter =
          (if shouldExport (sdk_getenv sdk) cfg (otel_Traces cfg) ''TRACES'' then Some (traceExporterOptions cfg, otel_ExportTimeout cfg) else None) \<and>
        Option.bind (LoggerProvider (Some rt)) pv_exporter =
          (if shouldExport (sdk_getenv sdk) cfg (otel_Logs cfg) ''LOGS'' then Some (logExporterOptions cfg, otel_ExportTimeout cfg) else None))"
proof (cases "otel_Enabled cfg")
  case False
  then show ?thesis by (simp add: telemetry_New_def TracesEnabled_def LogsEnabled_def LoggerProvider_def shouldExport_def Let_def)
next
  case on: True
  let ?rt = "\<lparr>rt_cfg = cfg, rt_resource = None, rt_tracerProvider = None, rt_loggerProvider = None\<rparr>"
  let ?g = "g\<lparr>og_propagator := True\<rparr>"
  show ?thesis
  proof (cases "newResource sdk cfg")
    case (Inl err)
    then show ?thesis using on by (simp add: telemetry_New_def Let_def)
  next
    case res: (Inr res)
    obtain g1 x where tr: "addTracer sdk res ?g (?rt\<lparr>rt_resource := Some res\<rparr>) = (g1, x)" by fastforce
    have g1: "og_propagator g1"
      using tr by (auto simp: addTracer_def split: if_splits sum.splits)
    show ?thesis
    proof (cases x)
      case (Inl err)
      then show ?thesis using on res tr g1 by (simp add: telemetry_New_def Let_def)
    next
      case (Inr rt1)
      note tracer = addTracer_Inr [OF tr [unfolded Inr]]
      show ?thesis
      proof (cases "addLogger sdk res rt1")
        case (Inl err)
        then show ?thesis using on res tr Inr g1 by (simp add: telemetry_New_def Let_def)
      next
        case rt2: (Inr rt2)
        with on res tr Inr g1 tracer(2) addLogger_Inr [OF rt2] show ?thesis
          by (auto simp: telemetry_New_def Let_def TracesEnabled_def LogsEnabled_def LoggerProvider_def shouldExport_def split: if_splits)
      qed
    qed
  qed
qed

text \<open>An error of the log exporter leaves the trace provider that was already built as the global one, although no
  runtime is returned that could shut it down.\<close>

lemma logger_error_leaves_tracer:
  assumes "otel_Enabled cfg" "newResource sdk cfg = Inr res" "sig_Enabled (otel_Traces cfg)" "newTracerProvider sdk cfg res = Inr p"
    and "sig_Enabled (otel_Logs cfg)" "newLoggerProvider sdk cfg res = Inl err"
  shows "telemetry_New sdk g cfg = (g\<lparr>og_propagator := True, og_tracerProvider := Some p\<rparr>, Inl err)"
  using assms by (simp add: telemetry_New_def addTracer_def addLogger_def Let_def)

text \<open>The logger delivers every record to every handler that is enabled for its level, once and whether or not
  another handler fails, leaves the others alone, and reports the first error.\<close>

theorem fanout_delivers:
  "fanout_Handle ops hs rec =
     (map (\<lambda>h. if so_Enabled ops h (fst rec) then fst (so_Handle ops h rec) else h) hs,
      case List.map_filter (\<lambda>h. if so_Enabled ops h (fst rec) then snd (so_Handle ops h rec) else None) hs of
        [] \<Rightarrow> None | e # _ \<Rightarrow> Some e)"
  by (induction hs) (auto simp: List.map_filter_simps split: option.split prod.split)

definition cleanTable :: "(string \<times> string) list \<Rightarrow> bool" where
  "cleanTable t \<longleftrightarrow> distinct (map fst t) \<and> (\<forall>k \<in> fst ` set t. k \<noteq> [] \<and> TrimSpace k = k)"

lemma cleanTable_update:
  assumes "cleanTable t" "TrimSpace k \<noteq> []"
  shows "cleanTable (AList.update (TrimSpace k) v t)"
proof -
  have "fst ` set (AList.update (TrimSpace k) v t) = insert (TrimSpace k) (fst ` set t)"
    by (simp add: dom_update)
  then show ?thesis using assms unfolding cleanTable_def by (simp add: distinct_update)
qed

lemma cleanHeaders_clean: "cleanTable (cleanHeaders hs)"
  unfolding cleanHeaders_def
  by (rule fold_invariant [where Q = "\<lambda>_. True"]) (auto simp: cleanTable_update, simp add: cleanTable_def)

lemma randomSpanID_Some: "randomSpanID rs = (Some sid, rs') \<Longrightarrow> length sid = 16 \<and> isHex sid"
  by (induction rs rule: randomSpanID.induct) (auto simp: fillBuf_def split: if_splits)

text \<open>The older headers continue a trace: a request without a span context whose header names a trace gets a span
  context of that trace, which the requests sent on behalf of it name in both headers.\<close>

theorem legacy_headers_roundtrip:
  assumes "rq_span ctx = None" and "fromHex (hGet carrier HeaderTraceID) = Some traceID" and "hGet carrier HeaderTraceID \<noteq> []"
    and "randomSpanID (en_reads en) = (Some spanID, rs)"
  shows "case legacy_Extract fromHex en ctx carrier of
      (ctx', en') \<Rightarrow> FromContext ctx' = Some \<lparr>TraceID = traceID, SpanID = spanID, ParentSpanID = [], TraceFlags = ''01'', TraceState = []\<rparr> \<and>
        hGet (legacy_Inject ctx' h) HeaderTraceID = traceID \<and> hGet (legacy_Inject ctx' h) HeaderRequestID = traceID"
proof -
  have "CanonicalHeaderKey HeaderTraceID \<noteq> CanonicalHeaderKey HeaderRequestID" by code_simp
  then show ?thesis using assms by (simp add: legacy_Extract_def legacy_Inject_def FromContext_def Let_def)
qed

theorem legacy_headers_roundtrip_witness:
  "case legacy_Extract Some (demoEntropy\<lparr>en_reads := [Some ''abcdefgh'']\<rparr>) (demoTraced\<lparr>rq_Header := []\<rparr>) [(CanonicalHeaderKey HeaderTraceID, [''t1''])] of
     (ctx', en') \<Rightarrow> hGet (legacy_Inject ctx' []) HeaderRequestID = ''t1''"
proof -
  let ?ctx = "demoTraced\<lparr>rq_Header := []\<rparr>" and ?c = "[(CanonicalHeaderKey HeaderTraceID, [''t1''])]"
    and ?en = "demoEntropy\<lparr>en_reads := [Some ''abcdefgh'']\<rparr>"
  have span: "rq_span ?ctx = None" by (simp add: demoTraced_def)
  have get: "hGet ?c HeaderTraceID = ''t1''" by (simp add: hGet_def headerValues_def)
  have "\<not> allZeroBytes (fillBuf 8 ''abcdefgh'')" by code_simp
  then have sid: "randomSpanID (en_reads ?en) = (Some (hex_encode (fillBuf 8 ''abcdefgh'')), [])" by simp
  have "Some (hGet ?c HeaderTraceID) = Some ''t1''" "hGet ?c HeaderTraceID \<noteq> []" unfolding get by simp_all
  from legacy_headers_roundtrip [of ?ctx Some ?c "''t1''", OF span this sid, of "[]"] show ?thesis
    by (cases "legacy_Extract Some ?en ?ctx ?c") (simp only: prod.case)
qed

end
