(* ===== verification/App.thy ===== *)
theory App
  imports Proxy Token_Middleware Admin Telemetry
begin

text \<open>
  The application: the routes of the packages (\<^verbatim>\<open>llm.Register\<close>, \<^verbatim>\<open>observability.Register\<close>,
  \<^verbatim>\<open>admin.Register\<close>) and \<^verbatim>\<open>app.New\<close> of \<^verbatim>\<open>internal/app/app.go\<close>, which builds every component from the
  configuration and composes them into one handler.
\<close>

section \<open>The state of the gateway\<close>

text \<open>
  The state of all components in one record. \<open>gs_world\<close> is what a request reads from outside: the
  token buckets of \<^verbatim>\<open>golang.org/x/time/rate\<close>, the clocks, the network of the proxy and of the health
  checks. A limiter that is not configured is \<open>None\<close>.
\<close>

record ('b, 'r) world =
  wd_rate :: "('b, 'r) rate_lib"
  wd_now :: time
  wd_clock :: tokenClock
  wd_env :: env
  wd_health :: healthClient
  wd_order :: "nat list"

record ('b, 'r) gateway =
  gs_rate :: "'b UserLimiter option"
  gs_budget :: "BudgetLimiter option"
  gs_slots :: "Limiter option"
  gs_proxy :: proxyState
  gs_trace :: traceState
  gs_ready :: bool
  gs_world :: "('b, 'r) world"

text \<open>A middleware that works on one component of the state: \<open>get\<close> and \<open>upd\<close> read and write it.\<close>

definition liftMw :: "('s \<Rightarrow> 'a) \<Rightarrow> ('a \<Rightarrow> 's \<Rightarrow> 's) \<Rightarrow> (('a \<times> 's) handler \<Rightarrow> ('a \<times> 's) handler) \<Rightarrow> 's handler \<Rightarrow> 's handler" where
  "liftMw get upd mw next s r w =
     (case mw (\<lambda>p r w. case next (upd (fst p) (snd p)) r w of (s', w') \<Rightarrow> ((get s', s'), w')) (get s, s) r w of
        (p, w') \<Rightarrow> (upd (fst p) (snd p), w'))"

definition putRate :: "'b UserLimiter option \<Rightarrow> ('b, 'r) gateway \<Rightarrow> ('b, 'r) gateway" where
  "putRate l s = s\<lparr>gs_rate := l\<rparr>"

definition putBudget :: "BudgetLimiter option \<Rightarrow> ('b, 'r) gateway \<Rightarrow> ('b, 'r) gateway" where
  "putBudget l s = s\<lparr>gs_budget := l\<rparr>"

definition putSlots :: "Limiter option \<Rightarrow> ('b, 'r) gateway \<Rightarrow> ('b, 'r) gateway" where
  "putSlots l s = s\<lparr>gs_slots := l\<rparr>"

definition putTrace :: "traceState \<Rightarrow> ('b, 'r) gateway \<Rightarrow> ('b, 'r) gateway" where
  "putTrace t s = s\<lparr>gs_trace := t\<rparr>"

definition gatewayMetrics :: "(Metrics option \<Rightarrow> Metrics option) \<Rightarrow> ('b, 'r) gateway \<Rightarrow> ('b, 'r) gateway" where
  "gatewayMetrics f s = s\<lparr>gs_proxy := onMetrics f (gs_proxy s)\<rparr>"

definition rateMw :: "('b, 'r) gateway handler \<Rightarrow> ('b, 'r) gateway handler" where
  "rateMw next s = liftMw gs_rate putRate (rateMiddleware (wd_rate (gs_world s)) (wd_now (gs_world s))) next s"

definition tokenMw :: "('b, 'r) gateway handler \<Rightarrow> ('b, 'r) gateway handler" where
  "tokenMw next s = liftMw gs_budget putBudget (tokenMiddleware gatewayMetrics (wd_clock (gs_world s))) next s"

definition slotMw :: "('b, 'r) gateway handler \<Rightarrow> ('b, 'r) gateway handler" where
  "slotMw next s = liftMw gs_slots putSlots concurrencyMiddleware next s"

definition traceMw :: "('b, 'r) gateway handler \<Rightarrow> ('b, 'r) gateway handler" where
  "traceMw next s = liftMw gs_trace putTrace (\<lambda>n. tracingMiddleware (Some n)) next s"

definition chatHandler :: "Handler \<Rightarrow> ('b, 'r) gateway handler" where
  "chatHandler h s r w = (case ServeHTTP h (wd_env (gs_world s)) (gs_proxy s) r w of (p, w') \<Rightarrow> (s\<lparr>gs_proxy := p\<rparr>, w'))"

section \<open>Routes\<close>

text \<open>\<^verbatim>\<open>llm.Register\<close>: the first middleware is the outermost.\<close>

definition llm_Register :: "('s \<Rightarrow> time) \<Rightarrow> 's handler \<Rightarrow> Handler \<Rightarrow> ('s handler \<Rightarrow> 's handler) list \<Rightarrow> 's mux \<Rightarrow> 's mux option" where
  "llm_Register nowOf chat handler chatMiddlewares m =
     Option.bind (mux_Handle ''/v1/chat/completions'' (foldr (\<lambda>mw h. mw h) chatMiddlewares chat) m)
       (mux_Handle ''/v1/models'' (\<lambda>s. ListModels handler (nowOf s) s))"

text \<open>\<open>promhttp\<close> is the handler of the Prometheus library, \<open>pprof\<close> those of \<^verbatim>\<open>net/http/pprof\<close>.
  \<open>metricsOf\<close> is the metrics object, \<open>None\<close> when it is nil.\<close>

definition registerMetrics :: "promRegistry \<Rightarrow> (Metrics \<Rightarrow> 's handler) \<Rightarrow> ('s \<Rightarrow> Metrics) option \<Rightarrow> 's mux \<Rightarrow> 's mux option" where
  "registerMetrics register promhttp metricsOf m =
     (case metricsOf of
        Some f \<Rightarrow> mux_Handle ''/metrics'' (\<lambda>s. promhttp (f s) s) m
      | None \<Rightarrow> (case NewMetrics register ''gateway'' of
          None \<Rightarrow> None
        | Some fresh \<Rightarrow> mux_Handle ''/metrics'' (promhttp fresh) m))"

definition pprofRoutes :: "string list" where
  "pprofRoutes = [''/debug/pprof/'', ''/debug/pprof/cmdline'', ''/debug/pprof/profile'', ''/debug/pprof/symbol'', ''/debug/pprof/trace'',
     ''/debug/pprof/goroutine'', ''/debug/pprof/heap'', ''/debug/pprof/threadcreate'', ''/debug/pprof/block'', ''/debug/pprof/mutex'']"

definition registerPprof :: "(string \<Rightarrow> 's handler) \<Rightarrow> 's mux \<Rightarrow> 's mux option" where
  "registerPprof pprof m = fold (\<lambda>pat acc. Option.bind acc (mux_Handle pat (pprof pat))) pprofRoutes (Some m)"

definition observability_Register :: "promRegistry \<Rightarrow> (Metrics \<Rightarrow> 's handler) \<Rightarrow> (string \<Rightarrow> 's handler) \<Rightarrow> time \<Rightarrow> ('s \<Rightarrow> time) \<Rightarrow> ('s \<Rightarrow> (unit \<Rightarrow> bool) option) \<Rightarrow>
    State \<Rightarrow> ('s \<Rightarrow> Metrics) option \<Rightarrow> 's mux \<Rightarrow> 's mux option" where
  "observability_Register register promhttp pprof now nowOf readyOf state0 metricsOf m =
     (let state = normalizeState now state0
      in case (case metricsOf of Some f \<Rightarrow> Some f | None \<Rightarrow> map_option (\<lambda>fresh _. fresh) (NewMetrics register (st_MetricsNamespace state))) of
           None \<Rightarrow> None
         | Some metrics \<Rightarrow>
             Option.bind (mux_Handle ''/healthz'' (\<lambda>s. healthHandler (nowOf s) state s) m)
               (\<lambda>m. Option.bind (mux_Handle ''/readyz'' (\<lambda>s. readyHandler (state\<lparr>st_Ready := readyOf s\<rparr>) s) m)
                 (\<lambda>m. Option.bind (registerMetrics register promhttp (Some metrics) m) (registerPprof pprof))))"

section \<open>app.New\<close>

text \<open>What the application is linked with: the embedded files, the registry of Prometheus and the handlers of other
  libraries, which have no access to the state of the gateway but for the metrics.\<close>

record appLib =
  al_fs :: staticFS
  al_fileServer :: "Request \<Rightarrow> writer \<Rightarrow> writer"
  al_register :: promRegistry
  al_promhttp :: "Metrics \<Rightarrow> Request \<Rightarrow> writer \<Rightarrow> writer"
  al_pprof :: "string \<Rightarrow> Request \<Rightarrow> writer \<Rightarrow> writer"
  al_sdk :: otelSDK

definition stateless :: "(Request \<Rightarrow> writer \<Rightarrow> writer) \<Rightarrow> 's handler" where
  "stateless f s r w = (s, f r w)"

record ('b, 'r) App =
  app_cfg :: Config
  app_runtime :: Runtime
  app_startedAt :: time
  app_handler :: "('b, 'r) gateway handler"
  app_address :: string
  app_readHeaderTimeout :: duration
  app_state :: "('b, 'r) gateway"

datatype newError = ConfigError configError | TelemetryError string | AuthenticatorError authError | NewPanic

text \<open>The limiters and their middlewares. \<open>NewLimiter\<close> panics on a negative capacity.\<close>

definition chatMiddlewares :: "Config \<Rightarrow> (('b, 'r) gateway handler \<Rightarrow> ('b, 'r) gateway handler) list" where
  "chatMiddlewares cfg =
     (if rl_Enabled (rate_User (cfg_RateLimit cfg)) then [rateMw] else []) @
     (if tu_Enabled (cfg_TokenUsage cfg) then [tokenMw] else []) @
     (if cc_Enabled (rate_Concurrency (cfg_RateLimit cfg)) then [slotMw] else [])"

text \<open>The state the application starts with.\<close>

definition initialState :: "Config \<Rightarrow> Metrics \<Rightarrow> circuitBreaker \<Rightarrow> entropy \<Rightarrow> ('b, 'r) world \<Rightarrow> ('b, 'r) gateway option" where
  "initialState cfg metrics breaker en wd =
     (let slots = (if cc_Enabled (rate_Concurrency (cfg_RateLimit cfg)) then map_option Some (NewLimiter (rate_Concurrency (cfg_RateLimit cfg))) else Some None)
      in case slots of
           None \<Rightarrow> None
         | Some l \<Rightarrow> Some \<lparr>
             gs_rate = (if rl_Enabled (rate_User (cfg_RateLimit cfg)) then Some (NewUserLimiter (rate_User (cfg_RateLimit cfg))) else None),
             gs_budget = (if tu_Enabled (cfg_TokenUsage cfg) then Some (NewBudgetLimiter (cfg_TokenUsage cfg)) else None),
             gs_slots = l,
             gs_proxy = \<lparr>px_breaker = Some breaker, px_metrics = Some metrics, px_entropy = en, px_sent = [], px_tick = 0\<rparr>,
             gs_trace = \<lparr>ts_entropy = en, ts_log = []\<rparr>,
             gs_ready = False,
             gs_world = wd\<rparr>)"

text \<open>\<open>llmRoutes\<close>: the routes of the models, behind the authenticator when there is one.\<close>

definition gatewayNow :: "('b, 'r) gateway \<Rightarrow> time" where
  "gatewayNow s = wd_now (gs_world s)"

definition llmRoutes :: "Config \<Rightarrow> Handler \<Rightarrow> ('b, 'r) gateway mux \<Rightarrow> newError + ('b, 'r) gateway mux" where
  "llmRoutes cfg h m =
     (if auth_Enabled (cfg_Auth cfg) then
        (case NewAPIKeyAuthenticator (cfg_Auth cfg) of
           Inl e \<Rightarrow> Inl (AuthenticatorError e)
         | Inr authenticator \<Rightarrow>
             (case llm_Register gatewayNow (chatHandler h) h (chatMiddlewares cfg) [] of
                None \<Rightarrow> Inl NewPanic
              | Some llmMux \<Rightarrow>
                  (case mux_Handle ''/v1/'' (authMiddleware (Some authenticator) (mux_ServeHTTP llmMux)) m of
                     None \<Rightarrow> Inl NewPanic
                   | Some m' \<Rightarrow> Inr m')))
      else case llm_Register gatewayNow (chatHandler h) h (chatMiddlewares cfg) m of
          None \<Rightarrow> Inl NewPanic
        | Some m' \<Rightarrow> Inr m')"

definition serviceRoutes :: "appLib \<Rightarrow> Config \<Rightarrow> time \<Rightarrow> ('b, 'r) gateway mux \<Rightarrow> ('b, 'r) gateway mux option" where
  "serviceRoutes lib cfg startedAt m =
     Option.bind
       (observability_Register (al_register lib) (\<lambda>mt. stateless (al_promhttp lib mt)) (\<lambda>p. stateless (al_pprof lib p)) startedAt gatewayNow
          (\<lambda>s. Some (\<lambda>_. gs_ready s))
          \<lparr>st_ServiceName = ''telemetry-gateway'', st_StartTime = startedAt, st_MetricsNamespace = obs_MetricsNamespace (cfg_Observability cfg), st_Ready = None\<rparr>
          (Some (\<lambda>s. the (px_metrics (gs_proxy s)))) m)
       (admin_Register (al_fs lib) (stateless (al_fileServer lib)) (\<lambda>s. wd_health (gs_world s)) (\<lambda>s. wd_order (gs_world s))
          (obs_Stack (cfg_Observability cfg)))"

definition rootHandler :: "((Request option \<Rightarrow> string) \<Rightarrow> ('b, 'r) gateway handler \<Rightarrow> ('b, 'r) gateway handler) \<Rightarrow> Config \<Rightarrow> Runtime \<Rightarrow>
    ('b, 'r) gateway mux \<Rightarrow> ('b, 'r) gateway handler" where
  "rootHandler otelhttp cfg rt m =
     WrapHandler otelhttp (Some rt)
       (Some (if obs_TracingEnabled (cfg_Observability cfg) then traceMw (mux_ServeHTTP m) else mux_ServeHTTP m)) ''gateway.http''"

definition buildApp :: "appLib \<Rightarrow> ((Request option \<Rightarrow> string) \<Rightarrow> ('b, 'r) gateway handler \<Rightarrow> ('b, 'r) gateway handler) \<Rightarrow> entropy \<Rightarrow> ('b, 'r) world \<Rightarrow>
    Config \<Rightarrow> Runtime \<Rightarrow> newError + ('b, 'r) App" where
  "buildApp lib otelhttp en wd cfg rt =
     (let startedAt = wd_now wd
      in case NewMetrics (al_register lib) (obs_MetricsNamespace (cfg_Observability cfg)) of
           None \<Rightarrow> Inl NewPanic
         | Some metrics \<Rightarrow>
             (case NewHandler (cfg_AI cfg) True of
                (h, breaker) \<Rightarrow>
                  (case initialState cfg metrics breaker en wd of
                     None \<Rightarrow> Inl NewPanic
                   | Some s \<Rightarrow>
                       (case llmRoutes cfg h [] of
                          Inl e \<Rightarrow> Inl e
                        | Inr m1 \<Rightarrow>
                            (case serviceRoutes lib cfg startedAt m1 of
                               None \<Rightarrow> Inl NewPanic
                             | Some m \<Rightarrow> Inr \<lparr>app_cfg = cfg, app_runtime = rt, app_startedAt = startedAt,
                                 app_handler = rootHandler otelhttp cfg rt m, app_address = srv_Address (cfg_Server cfg),
                                 app_readHeaderTimeout = srv_ReadHeaderTimeout (cfg_Server cfg), app_state = s\<rparr>)))))"

text \<open>\<^verbatim>\<open>New\<close>; a runtime that is passed in is used, else one is made.\<close>

definition New :: "appLib \<Rightarrow> ((Request option \<Rightarrow> string) \<Rightarrow> ('b, 'r) gateway handler \<Rightarrow> ('b, 'r) gateway handler) \<Rightarrow> entropy \<Rightarrow> ('b, 'r) world \<Rightarrow>
    Config \<Rightarrow> Runtime option \<Rightarrow> otelGlobals \<Rightarrow> otelGlobals \<times> (newError + ('b, 'r) App)" where
  "New lib otelhttp en wd cfg telemetryRuntime g =
     (case Validate cfg of
        Some e \<Rightarrow> (g, Inl (ConfigError e))
      | None \<Rightarrow>
          (case (case telemetryRuntime of Some rt \<Rightarrow> (g, Inr rt) | None \<Rightarrow> telemetry_New (al_sdk lib) g (obs_OpenTelemetry (cfg_Observability cfg))) of
             (g', Inl err) \<Rightarrow> (g', Inl (TelemetryError err))
           | (g', Inr rt) \<Rightarrow> (g', buildApp lib otelhttp en wd cfg rt)))"

section \<open>Laws of the composition\<close>

lemma mux_Handle_set: "mux_Handle pat h m = Some m' \<Longrightarrow> set m' = insert (pat, h) (set m)"
  by (auto simp: mux_Handle_def split: if_splits)

text \<open>The tracing middleware calls the next handler once, with the same request but for the trace in its context.\<close>

lemma tracing_calls_next:
  "\<exists>t ctx w1. snd (fst (tracingMiddleware (Some n) p r w)) = snd (fst (n (t, snd p) ctx w1)) \<and> (ctx = r \<or> (\<exists>i. ctx = WithInfo r i))"
proof -
  have log: "snd (fst (case x of (ts2, w2) \<Rightarrow> case w2 of
      Tracking t below \<Rightarrow> ((f ts2 t, snd ts2), below) | _ \<Rightarrow> (ts2, w2))) = snd (fst x)" for x :: "(traceState \<times> 's) \<times> writer" and f
    by (cases x) (simp split: writer.split)
  show ?thesis
  proof (cases "FromContext r")
    case (Some info)
    then show ?thesis unfolding tracingMiddleware_def Let_def
      by (intro exI [of _ "fst p"] exI [of _ r] exI) (simp add: log)
  next
    case None
    obtain info en where "NewInfoFromHeaders (ts_entropy (fst p)) (rq_Header r) = (info, en)" by fastforce
    with None show ?thesis unfolding tracingMiddleware_def Let_def
      by (intro exI [of _ "(fst p)\<lparr>ts_entropy := en\<rparr>"] exI [of _ "WithInfo r info"] exI) (auto simp: log)
  qed
qed

text \<open>What a middleware may do to the rest of the state: the laws a relation needs so that the middlewares
  around a handler obey it when the handler does.\<close>

locale gateway_effect = effect R for R :: "('b, 'r) gateway \<Rightarrow> ('b, 'r) gateway \<Rightarrow> bool" +
  assumes chain: "R s t \<Longrightarrow> R t u \<Longrightarrow> R s u"
    and rate_free: "R s (putRate l s)"
    and budget_free: "R s (putBudget b s)"
    and metrics_free: "R s (gatewayMetrics f s)"
    and trace_free: "R s (putTrace ts s)"
begin

lemma lifted_obeys:
  assumes free: "\<And>a s. R s (upd a s)"
    and mw: "\<And>n p r w. (\<And>p r w. R (snd p) (snd (fst (n p r w)))) \<Longrightarrow> R (snd p) (snd (fst (mw n p r w)))"
    and nxt: "obeys R nxt"
  shows "R s (fst (liftMw get upd mw nxt s r w))"
proof -
  let ?n = "\<lambda>p r w. case nxt (upd (fst p) (snd p)) r w of (s', w') \<Rightarrow> ((get s', s'), w')"
  have "R (snd p) (snd (fst (?n p r w)))" for p r w
    using chain [OF free [of "snd p" "fst p"] obeysD [OF nxt, of _ r w]]
    by (cases "nxt (upd (fst p) (snd p)) r w") simp
  then have "R s (snd (fst (mw ?n (get s, s) r w)))" using mw [of ?n "(get s, s)"] by simp
  from chain [OF this free] show ?thesis
    by (cases "mw ?n (get s, s) r w") (simp add: liftMw_def)
qed

lemma rate_obeys: "obeys R next \<Longrightarrow> obeys R (rateMw next)"
proof (rule obeysI, unfold rateMw_def, rule lifted_obeys [OF rate_free])
  fix lib :: "('b, 'r) rate_lib" and now
  fix n :: "('b UserLimiter option \<times> ('b, 'r) gateway) handler" and p :: "'b UserLimiter option \<times> ('b, 'r) gateway" and r w
  assume n: "\<And>p r w. R (snd p) (snd (fst (n p r w)))"
  show "R (snd p) (snd (fst (rateMiddleware lib now n p r w)))"
  proof (cases p)
    case (Pair l s)
    have pass: "R s (snd (fst (n (l', s) r w)))" for l' using n [of "(l', s)" r w] by simp
    show ?thesis using pass untouched
      by (cases l) (auto simp: Pair Let_def split: prod.split option.split)
  qed
qed

lemma trace_obeys: "obeys R next \<Longrightarrow> obeys R (traceMw next)"
proof (rule obeysI, unfold traceMw_def, rule lifted_obeys [OF trace_free])
  fix n :: "(traceState \<times> ('b, 'r) gateway) handler" and p :: "traceState \<times> ('b, 'r) gateway" and r w
  assume n: "\<And>p r w. R (snd p) (snd (fst (n p r w)))"
  obtain t ctx w1 where "snd (fst (tracingMiddleware (Some n) p r w)) = snd (fst (n (t, snd p) ctx w1))"
    using tracing_calls_next by blast
  with n [of "(t, snd p)" ctx w1] show "R (snd p) (snd (fst (tracingMiddleware (Some n) p r w)))" by simp
qed

lemma token_obeys: "obeys R next \<Longrightarrow> obeys R (tokenMw next)"
proof (rule obeysI, unfold tokenMw_def, rule lifted_obeys [OF budget_free])
  fix clk and n :: "(BudgetLimiter option \<times> ('b, 'r) gateway) handler" and p :: "BudgetLimiter option \<times> ('b, 'r) gateway" and r w
  assume n: "\<And>p r w. R (snd p) (snd (fst (n p r w)))"
  obtain l s where p: "p = (l, s)" by fastforce
  have leave: "R s' (snd (fst (tokenLeave gatewayMetrics clk m l' s' c below)))" for m l' s' c below
    using metrics_free chain [OF metrics_free metrics_free] untouched
    by (auto simp: tokenLeave_def observeBudgetRemaining_def observeUsage_def Let_def split: option.split)
  show "R (snd p) (snd (fst (tokenMiddleware gatewayMetrics clk n p r w)))"
  proof (cases l)
    case None
    then show ?thesis using n [of "(None, s)"] by (simp add: p)
  next
    case (Some b)
    obtain l1 s1 x where enter: "tokenEnter gatewayMetrics clk b s r w = (l1, s1, x)" by (metis prod_cases3)
    have s1: "R s s1" using enter metrics_free untouched
      by (auto simp: tokenEnter_def observeBudgetRejected_def Let_def split: if_splits option.splits)
    have go: "R s (snd (fst (n (l1, s1) r' w')))" for r' w' using chain [OF s1] n [of "(l1, s1)"] by simp
    have "R s (snd (fst (case n (l1, s1) r1 w1 of ((Some l2, s2), Capturing c below) \<Rightarrow> tokenLeave gatewayMetrics clk m l2 s2 c below | other \<Rightarrow> other)))"
      for m r1 w1
      using go [of r1 w1] chain leave by (fastforce split: prod.split option.split writer.split)
    then show ?thesis using s1 go
      by (auto simp: p Some enter split: sum.split option.split prod.split)
  qed
qed

lemma auth_obeys:
  assumes "obeys R next"
  shows "obeys R (authMiddleware (Some a) next)"
  using assms by (auto simp: obeys_def untouched split: option.split)

end

text \<open>The handlers that never change the state.\<close>

lemma stateless_still [simp]: "fst (stateless f s r w) = s"
  by (simp add: stateless_def)

lemma admin_still: "(\<And>s r w. fst (fileServer s r w) = s) \<Longrightarrow> fst (adminHandler fs fileServer s r w) = s"
  by (simp add: adminHandler_def Let_def)

lemma strip_still: "(\<And>s r w. fst (h s r w) = s) \<Longrightarrow> fst (StripPrefix p h s r w) = s"
  by (simp add: StripPrefix_def Let_def)

lemma handlers_still [simp]:
  "fst (ObservabilityHandler hc order stack s r w) = s" "fst (healthHandler now st s r w) = s"
  "fst (readyHandler st s r w) = s" "fst (ListModels h now s r w) = s"
  by (simp_all add: ObservabilityHandler_def healthHandler_def readyHandler_def ListModels_def)

text \<open>The routes besides those of the models belong to such handlers.\<close>

definition still :: "'s handler \<Rightarrow> bool" where
  "still h \<longleftrightarrow> (\<forall>s r w. fst (h s r w) = s)"

definition addsStill :: "'s mux \<Rightarrow> 's mux \<Rightarrow> bool" where
  "addsStill m m' \<longleftrightarrow> (\<forall>e \<in> set m'. e \<in> set m \<or> still (snd e))"

lemma addsStill_refl [simp]: "addsStill m m"
  by (simp add: addsStill_def)

lemma addsStill_trans: "addsStill m m1 \<Longrightarrow> addsStill m1 m2 \<Longrightarrow> addsStill m m2"
  unfolding addsStill_def by blast

lemma addsStill_Handle: "mux_Handle pat h m = Some m' \<Longrightarrow> still h \<Longrightarrow> addsStill m m'"
  using mux_Handle_set [of pat h m m'] by (auto simp: addsStill_def)

lemma addsStill_pprof:
  assumes "registerPprof pprof m = Some m'" "\<And>p. still (pprof p)"
  shows "addsStill m m'"
proof -
  have "addsStill m m'" if "fold (\<lambda>pat acc. Option.bind acc (mux_Handle pat (pprof pat))) pats (Some m1) = Some m'" "addsStill m m1" for pats m1
    using that
  proof (induction pats arbitrary: m1)
    case (Cons pat pats)
    have "mux_Handle pat (pprof pat) m1 \<noteq> None"
    proof
      assume "mux_Handle pat (pprof pat) m1 = None"
      moreover have "fold (\<lambda>pat acc. Option.bind acc (mux_Handle pat (pprof pat))) ps None = None" for ps by (induction ps) auto
      ultimately show False using Cons.prems(1) by simp
    qed
    then obtain m2 where m2: "mux_Handle pat (pprof pat) m1 = Some m2" by blast
    with Cons show ?case using addsStill_trans [OF _ addsStill_Handle [OF m2 assms(2)]] by simp
  qed simp
  with assms(1) show ?thesis unfolding registerPprof_def using addsStill_refl by blast
qed

lemma serviceRoutes_still:
  assumes "serviceRoutes lib cfg now m = Some m'"
  shows "addsStill m m'"
proof -
  note bind = Option.bind_eq_Some_conv
  from assms obtain m1 where obs: "observability_Register (al_register lib) (\<lambda>mt. stateless (al_promhttp lib mt)) (\<lambda>p. stateless (al_pprof lib p)) now gatewayNow
        (\<lambda>s. Some (\<lambda>_. gs_ready s))
        \<lparr>st_ServiceName = ''telemetry-gateway'', st_StartTime = now, st_MetricsNamespace = obs_MetricsNamespace (cfg_Observability cfg), st_Ready = None\<rparr>
        (Some (\<lambda>s. the (px_metrics (gs_proxy s)))) m = Some m1"
    and adm: "admin_Register (al_fs lib) (stateless (al_fileServer lib)) (\<lambda>s. wd_health (gs_world s)) (\<lambda>s. wd_order (gs_world s))
        (obs_Stack (cfg_Observability cfg)) m1 = Some m'"
    by (auto simp: serviceRoutes_def bind)
  have "addsStill m m1"
    using obs
    by (auto simp: observability_Register_def registerMetrics_def bind Let_def still_def
        intro!: addsStill_trans [OF addsStill_Handle addsStill_trans [OF addsStill_Handle addsStill_trans [OF addsStill_Handle addsStill_pprof]]])
  moreover have "addsStill m1 m'"
    using adm
    by (auto simp: admin_Register_def bind still_def strip_still admin_still
        intro!: addsStill_trans [OF addsStill_Handle addsStill_trans [OF addsStill_Handle addsStill_Handle]])
  ultimately show ?thesis by (rule addsStill_trans)
qed

text \<open>The route of the chat completions and, if the models are not behind the authenticator, that of the models.\<close>

lemma llm_Register_routes:
  assumes "llm_Register nowOf chat h mws m = Some m'"
  shows "(pat, g) \<in> set m' \<Longrightarrow> (pat, g) \<in> set m \<or> still g \<or> (pat = ''/v1/chat/completions'' \<and> g = foldr (\<lambda>mw h. mw h) mws chat)"
  using assms by (auto simp: llm_Register_def Option.bind_eq_Some_conv still_def dest!: mux_Handle_set)

text \<open>What \<open>New\<close> returns.\<close>

lemma New_Inr:
  assumes "New lib otelhttp en wd cfg rt0 g = (g', Inr app)"
  obtains rt h breaker metrics m1 m where "Validate cfg = None" "NewHandler (cfg_AI cfg) True = (h, breaker)"
    "initialState cfg metrics breaker en wd = Some (app_state app)"
    "llmRoutes cfg h [] = Inr m1" "serviceRoutes lib cfg (wd_now wd) m1 = Some m"
    "app_handler app = rootHandler otelhttp cfg rt m" "app_cfg app = cfg"
  using assms
  by (auto simp: New_def buildApp_def Let_def split: option.splits sum.splits prod.splits)

text \<open>What is used of the handler of \<^verbatim>\<open>otelhttp\<close>: it calls the handler it wraps once, with a request that has the
  same method, path and headers (its context and the response writer are the library's own).\<close>

definition otelTransparent :: "((Request option \<Rightarrow> string) \<Rightarrow> 's handler \<Rightarrow> 's handler) \<Rightarrow> bool" where
  "otelTransparent otelhttp \<longleftrightarrow> (\<forall>name h s r w. \<exists>r' w'. fst (otelhttp name h s r w) = fst (h s r' w') \<and>
     rq_Method r' = rq_Method r \<and> rq_Path r' = rq_Path r \<and> rq_RawPath r' = rq_RawPath r \<and> rq_Header r' = rq_Header r)"

text \<open>So does the whole chain in front of the router.\<close>

lemma rootHandler_calls_mux:
  assumes "otelTransparent (otelhttp :: (Request option \<Rightarrow> string) \<Rightarrow> ('b, 'r) gateway handler \<Rightarrow> _)"
  obtains t t' r' w' where "fst (rootHandler otelhttp cfg rt m s r w) = putTrace t' (fst (mux_ServeHTTP m (putTrace t s) r' w'))"
    "rq_Path r' = rq_Path r" "rq_RawPath r' = rq_RawPath r" "rq_Header r' = rq_Header r"
proof -
  have noop: "putTrace (gs_trace s) s = s" for s :: "('b, 'r) gateway" by (simp add: putTrace_def)
  have inner: "\<exists>t t' r' w'. fst ((if obs_TracingEnabled (cfg_Observability cfg) then traceMw (mux_ServeHTTP m) else mux_ServeHTTP m) s r w) =
      putTrace t' (fst (mux_ServeHTTP m (putTrace t s) r' w')) \<and> rq_Path r' = rq_Path r \<and> rq_RawPath r' = rq_RawPath r \<and> rq_Header r' = rq_Header r"
    for r w
  proof (cases "obs_TracingEnabled (cfg_Observability cfg)")
    case True
    let ?n = "\<lambda>p r w. case mux_ServeHTTP m (putTrace (fst p) (snd p)) r w of (s', w') \<Rightarrow> ((gs_trace s', s'), w')"
    obtain t ctx w1 where call: "snd (fst (tracingMiddleware (Some ?n) (gs_trace s, s) r w)) = snd (fst (?n (t, s) ctx w1))"
      and ctx: "ctx = r \<or> (\<exists>i. ctx = WithInfo r i)"
      using tracing_calls_next [of ?n "(gs_trace s, s)" r w] by auto
    have "fst (traceMw (mux_ServeHTTP m) s r w) = putTrace (fst (fst (tracingMiddleware (Some ?n) (gs_trace s, s) r w))) (fst (mux_ServeHTTP m (putTrace t s) ctx w1))"
      using call by (auto simp: traceMw_def liftMw_def split: prod.splits)
    moreover have "rq_Path ctx = rq_Path r" "rq_RawPath ctx = rq_RawPath r" "rq_Header ctx = rq_Header r"
      using ctx by (auto simp: WithInfo_def)
    ultimately show ?thesis using True by auto
  next
    case False
    have "fst (mux_ServeHTTP m s r w) = putTrace (gs_trace (fst (mux_ServeHTTP m s r w))) (fst (mux_ServeHTTP m (putTrace (gs_trace s) s) r w))"
      by (simp add: noop)
    with False show ?thesis
      by (intro exI [of _ "gs_trace s"] exI [of _ "gs_trace (fst (mux_ServeHTTP m s r w))"] exI [of _ r] exI [of _ w]) simp
  qed
  show ?thesis
  proof (cases "TracesEnabled (Some rt)")
    case True
    obtain r0 w0 where "fst (rootHandler otelhttp cfg rt m s r w) =
        fst ((if obs_TracingEnabled (cfg_Observability cfg) then traceMw (mux_ServeHTTP m) else mux_ServeHTTP m) s r0 w0)"
      "rq_Path r0 = rq_Path r" "rq_RawPath r0 = rq_RawPath r" "rq_Header r0 = rq_Header r"
      using assms True unfolding otelTransparent_def rootHandler_def WrapHandler_def Let_def by (simp del: split_paired_All) metis
    with inner [of r0 w0] that show ?thesis by metis
  next
    case False
    with inner [of r w] that show ?thesis by (auto simp: rootHandler_def WrapHandler_def Let_def)
  qed
qed

text \<open>A key is only accepted if it is a configured one.\<close>

lemma authenticate_sound:
  assumes "NewAPIKeyAuthenticator cfg = Inr a" "authenticate a apiKey = Some identity"
  shows "\<exists>k \<in> set (auth_Keys cfg). parseAPIKeyHash (key_KeyHash k) = Some (sha256 apiKey) \<and> identity = keyIdentity k"
proof -
  from assms(1) have cs: "buildCredentials 0 (auth_Keys cfg) = Inr (authn_credentials a)"
    by (auto simp: NewAPIKeyAuthenticator_def Let_def split: if_splits sum.splits)
  let ?f = "filter (\<lambda>c. cred_hash c = sha256 apiKey) (authn_credentials a)"
  have f: "?f \<noteq> []" "identity = cred_identity (last ?f)"
    using assms(2) by (auto simp: authenticate_def Let_def last_match split: list.splits)
  have "last ?f \<in> set ?f" using f(1) by (rule last_in_set)
  then obtain k where k: "k \<in> set (auth_Keys cfg)" "last ?f = \<lparr>cred_hash = the (parseAPIKeyHash (key_KeyHash k)), cred_identity = keyIdentity k\<rparr>"
    "cred_hash (last ?f) = sha256 apiKey"
    using buildCredentials_result [OF cs] by auto
  moreover have "parseAPIKeyHash (key_KeyHash k) \<noteq> None" using cs k(1) buildCredentials_ok by blast
  ultimately show ?thesis using f(2) by auto
qed

text \<open>What every middleware and the chat handler obey, a request to the application obeys.\<close>

context gateway_effect
begin

lemma llmRoutes_obey:
  assumes "llmRoutes cfg h [] = Inr m" "(pat, g) \<in> set m"
    and chat: "obeys R (foldr (\<lambda>mw h. mw h) (chatMiddlewares cfg) (chatHandler h))"
  shows "obeys R g"
proof -
  have routes: "obeys R g'" if "llm_Register gatewayNow (chatHandler h) h (chatMiddlewares cfg) [] = Some m'" "(p, g') \<in> set m'" for m' p g'
    using llm_Register_routes [OF that] chat still_obeys [of g'] by (auto simp: still_def)
  show ?thesis
  proof (cases "auth_Enabled (cfg_Auth cfg)")
    case True
    with assms obtain a llmMux where llm: "llm_Register gatewayNow (chatHandler h) h (chatMiddlewares cfg) [] = Some llmMux"
      and g: "g = authMiddleware (Some a) (mux_ServeHTTP llmMux)"
      by (auto simp: llmRoutes_def mux_Handle_def split: sum.splits option.splits)
    show ?thesis unfolding g by (intro auth_obeys mux_obeys routes [OF llm])
  next
    case False
    with assms(1) have "llm_Register gatewayNow (chatHandler h) h (chatMiddlewares cfg) [] = Some m"
      by (auto simp: llmRoutes_def split: option.splits)
    then show ?thesis using assms(2) by (rule routes)
  qed
qed

lemma request_obeys:
  assumes "New lib otelhttp en wd cfg rt0 g = (g', Inr app)" "otelTransparent otelhttp"
    and chat: "\<And>h. obeys R (foldr (\<lambda>mw h. mw h) (chatMiddlewares cfg) (chatHandler h))"
  shows "R s (fst (app_handler app s r w))"
proof -
  obtain rt h m1 m where llm: "llmRoutes cfg h [] = Inr m1" and svc: "serviceRoutes lib cfg (wd_now wd) m1 = Some m"
    and app: "app_handler app = rootHandler otelhttp cfg rt m"
    using New_Inr [OF assms(1)] by metis
  obtain t t' r' w' where run: "fst (app_handler app s r w) = putTrace t' (fst (mux_ServeHTTP m (putTrace t s) r' w'))"
    using rootHandler_calls_mux [OF assms(2), of cfg rt m s r w] app by metis
  have "obeys R k" if "(pat, k) \<in> set m" for pat k
    using serviceRoutes_still [OF svc] that llmRoutes_obey [OF llm _ chat] still_obeys [of k] unfolding addsStill_def still_def by force
  then have "obeys R (mux_ServeHTTP m)" by (rule mux_obeys)
  from obeysD [OF this] show ?thesis unfolding run by (intro chain [OF trace_free chain [OF _ trace_free]])
qed

end

section \<open>Properties\<close>

text \<open>Slots of the concurrency limiter are taken for the time of a request only.\<close>

definition sameSlots :: "('b, 'r) gateway \<Rightarrow> ('b, 'r) gateway \<Rightarrow> bool" where
  "sameSlots s s' \<longleftrightarrow> gs_slots s' = gs_slots s"

interpretation slots: gateway_effect sameSlots
  by unfold_locales (simp_all add: sameSlots_def putRate_def putBudget_def gatewayMetrics_def putTrace_def)

lemma slotMw_slots:
  assumes inner: "obeys sameSlots nxt"
  shows "obeys sameSlots (slotMw nxt)"
proof
  fix s r w
  have held: "gs_slots (fst (nxt (putSlots l s) r w)) = l" for l
    using obeysD [OF inner, of "putSlots l s" r w] by (simp add: sameSlots_def putSlots_def)
  show "sameSlots s (fst (slotMw nxt s r w))"
  proof (cases "gs_slots s")
    case None
    then show ?thesis using held [of None]
      by (auto simp: slotMw_def liftMw_def sameSlots_def putSlots_def split: prod.split)
  next
    case (Some l)
    show ?thesis
    proof (cases "slots l < capacity l")
      case True
      then show ?thesis using held [of "Some (l\<lparr>slots := slots l + 1\<rparr>)"] Some
        by (auto simp: slotMw_def liftMw_def sameSlots_def enterSlot_def acquire_def release_def putSlots_def split: prod.split)
    next
      case False
      with Some show ?thesis
        by (simp add: slotMw_def liftMw_def sameSlots_def enterSlot_def acquire_def putSlots_def)
    qed
  qed
qed

lemma chat_slots: "obeys sameSlots (chatHandler h)"
  by (rule obeysI) (simp add: chatHandler_def sameSlots_def split: prod.split)

lemma chain_slots: "obeys sameSlots (foldr (\<lambda>mw h. mw h) (chatMiddlewares cfg) (chatHandler h))"
  by (auto simp: chatMiddlewares_def intro!: slots.rate_obeys slots.token_obeys slotMw_slots chat_slots)

text \<open>C16. Every request gives back what it took of the concurrency limit: after any request to any path, whatever
  the backends do and however the request ends, the limiter holds as many slots as before.\<close>

theorem requests_return_slots:
  assumes "New lib otelhttp en wd cfg rt0 g = (g', Inr app)" and "otelTransparent otelhttp"
  shows "gs_slots (fst (app_handler app s r w)) = gs_slots s"
  using slots.request_obeys [OF assms chain_slots] by (simp add: sameSlots_def)

text \<open>The routes are all different, so that registering them never panics.\<close>

lemma mux_Handle_fresh: "pat \<notin> fst ` set m \<Longrightarrow> mux_Handle pat h m = Some (m @ [(pat, h)])"
  by (simp add: mux_Handle_def)

lemma serviceRoutes_fresh:
  assumes "map fst m = [''/v1/''] \<or> map fst m = [''/v1/chat/completions'', ''/v1/models'']"
  shows "\<exists>m'. serviceRoutes lib cfg now m = Some m'"
proof -
  have "fst ` set m = set (map fst m)" by simp
  with assms have "fst ` set m = {''/v1/''} \<or> fst ` set m = {''/v1/chat/completions'', ''/v1/models''}" by auto
  then show ?thesis
    by (elim disjE) (simp_all add: serviceRoutes_def observability_Register_def registerMetrics_def registerPprof_def pprofRoutes_def
        admin_Register_def mux_Handle_fresh image_Un Let_def)
qed

lemma llm_Register_empty:
  "llm_Register nowOf chat h mws [] = Some [(''/v1/chat/completions'', foldr (\<lambda>mw h. mw h) mws chat), (''/v1/models'', \<lambda>s. ListModels h (nowOf s) s)]"
  by (simp add: llm_Register_def mux_Handle_def)

lemma llmRoutes_valid:
  assumes "validateAPIKeyAuth (cfg_Auth cfg) = None"
  shows "\<exists>m. llmRoutes cfg h [] = Inr m \<and> (map fst m = [''/v1/''] \<or> map fst m = [''/v1/chat/completions'', ''/v1/models''])"
proof (cases "auth_Enabled (cfg_Auth cfg)")
  case True
  then obtain a where "NewAPIKeyAuthenticator (cfg_Auth cfg) = Inr a" using validated_auth_builds assms by blast
  with True show ?thesis by (simp add: llmRoutes_def llm_Register_empty mux_Handle_def)
qed (simp add: llmRoutes_def llm_Register_empty)

lemma New_starts:
  fixes wd :: "('b, 'r) world"
  assumes "Validate cfg = None" and "rt0 \<noteq> None \<or> sdkWorks (al_sdk lib)"
    and "promAccepts (al_register lib) (metricsNamespace (obs_MetricsNamespace (cfg_Observability cfg)))"
  shows "\<exists>g' app. New lib otelhttp en wd cfg rt0 g = (g', Inr app) \<and> app_cfg app = cfg \<and> \<not> gs_ready (app_state app) \<and>
    gs_slots (app_state app) = (if cc_Enabled (rate_Concurrency (cfg_RateLimit cfg))
      then Some \<lparr>capacity = nat (cc_MaxInFlight (rate_Concurrency (cfg_RateLimit cfg))), slots = 0\<rparr> else None)"
proof -
  have auth: "validateAPIKeyAuth (cfg_Auth cfg) = None"
    and cc: "cc_Enabled (rate_Concurrency (cfg_RateLimit cfg)) \<longrightarrow> 0 < cc_MaxInFlight (rate_Concurrency (cfg_RateLimit cfg))"
    using assms(1) by (auto simp: Validate_def)
  obtain g' rt where rt: "(case rt0 of Some rt \<Rightarrow> (g, Inr rt) | None \<Rightarrow> telemetry_New (al_sdk lib) g (obs_OpenTelemetry (cfg_Observability cfg))) = (g', Inr rt)"
    using assms(2) telemetry_New_works [of "al_sdk lib" g "obs_OpenTelemetry (cfg_Observability cfg)"] by (cases rt0) auto
  obtain metrics where metrics: "NewMetrics (al_register lib) (obs_MetricsNamespace (cfg_Observability cfg)) = Some metrics"
    using new_metrics_total [OF assms(3)] by blast
  obtain h breaker where h: "NewHandler (cfg_AI cfg) True = (h, breaker)" by fastforce
  obtain m1 :: "('b, 'r) gateway mux" where "llmRoutes cfg h [] = Inr m1 \<and>
      (map fst m1 = [''/v1/''] \<or> map fst m1 = [''/v1/chat/completions'', ''/v1/models''])"
    using llmRoutes_valid [OF auth, of h] by (rule exE)
  note m1 = conjunct1 [OF this] and pats = conjunct2 [OF this]
  obtain m where m: "serviceRoutes lib cfg (wd_now wd) m1 = Some m" using serviceRoutes_fresh [OF pats] by (rule exE)
  obtain s where s: "initialState cfg metrics breaker en wd = Some s" "\<not> gs_ready s"
    "gs_slots s = (if cc_Enabled (rate_Concurrency (cfg_RateLimit cfg))
      then Some \<lparr>capacity = nat (cc_MaxInFlight (rate_Concurrency (cfg_RateLimit cfg))), slots = 0\<rparr> else None)"
    using cc by (cases "cc_Enabled (rate_Concurrency (cfg_RateLimit cfg))") (simp_all add: initialState_def NewLimiter_def)
  show ?thesis
    using assms(1) rt metrics h m1 m s by (simp add: New_def buildApp_def Let_def)
qed

text \<open>C18. A validated configuration always starts: \<^verbatim>\<open>New\<close> returns an application, with neither an error nor a panic,
  if a telemetry runtime is given or the SDK reports no error, and if the registry of Prometheus accepts the metrics of
  the configured namespace one by one (validation accepts any namespace that is not blank, also one that is no legal
  part of a metric name): the names of the metrics differ, and so do the patterns of the routes. The application is not ready yet and its
  concurrency limiter has the configured capacity and no slot taken.\<close>

theorem valid_config_starts:
  assumes "Validate cfg = None" and "rt0 \<noteq> None \<or> sdkWorks (al_sdk lib)"
    and "promAccepts (al_register lib) (metricsNamespace (obs_MetricsNamespace (cfg_Observability cfg)))"
  shows "\<exists>g' app. New lib otelhttp en wd cfg rt0 g = (g', Inr app) \<and> app_cfg app = cfg \<and> \<not> gs_ready (app_state app) \<and>
    gs_slots (app_state app) = (if cc_Enabled (rate_Concurrency (cfg_RateLimit cfg))
      then Some \<lparr>capacity = nat (cc_MaxInFlight (rate_Concurrency (cfg_RateLimit cfg))), slots = 0\<rparr> else None)"
  using assms by (rule New_starts)

definition demoLib :: appLib where
  "demoLib = \<lparr>al_fs = \<lparr>fs_Stat = \<lambda>_. None, fs_ReadFile = \<lambda>_. None\<rparr>, al_fileServer = \<lambda>_ w. w, al_register = \<lambda>known d. fqName d \<notin> fqName ` set known, al_promhttp = \<lambda>_ _ w. w, al_pprof = \<lambda>_ _ w. w,
     al_sdk = \<lparr>sdk_resource = \<lambda>_. None, sdk_traceExporter = \<lambda>_. None, sdk_logExporter = \<lambda>_. None, sdk_getenv = \<lambda>_. []\<rparr>\<rparr>"

definition demoWorld :: "(rat \<times> int \<times> rat \<times> time, unit) world" where
  "demoWorld = \<lparr>wd_rate = token_bucket, wd_now = 5, wd_clock = tinyClock, wd_env = demoEnv refusingNet, wd_health = demoClient, wd_order = []\<rparr>"

definition demoGlobals :: otelGlobals where
  "demoGlobals = \<lparr>og_propagator = False, og_tracerProvider = None\<rparr>"

lemma demo_prom: "promAccepts (al_register demoLib) namespace"
  by (simp add: promAccepts_def demoLib_def)

lemma demo_sdk: "sdkWorks (al_sdk demoLib)"
  by (simp add: sdkWorks_def demoLib_def)

lemma Default_valid: "Validate Default = None"
  by code_simp

lemma otel_identity: "otelTransparent (\<lambda>_ h. h)"
  by (auto simp: otelTransparent_def)

theorem valid_config_starts_witness:
  "\<exists>g' app. New demoLib (\<lambda>_ h. h) demoEntropy demoWorld Default None demoGlobals = (g', Inr app) \<and> \<not> gs_ready (app_state app)"
  using valid_config_starts [OF Default_valid disjI2 [OF demo_sdk] demo_prom, of "\<lambda>_ h. h" demoEntropy demoWorld None demoGlobals] by blast

theorem requests_return_slots_witness:
  "\<exists>g' app. New demoLib (\<lambda>_ h. h) demoEntropy demoWorld Default None demoGlobals = (g', Inr app) \<and>
     gs_slots (fst (app_handler app (app_state app) tinyRequest (Server (newServerWriter [])))) = gs_slots (app_state app)"
proof -
  obtain g' app where "New demoLib (\<lambda>_ h. h) demoEntropy demoWorld Default None demoGlobals = (g', Inr app)"
    using New_starts [OF Default_valid disjI2 [OF demo_sdk] demo_prom] by blast
  with requests_return_slots [OF this otel_identity] show ?thesis by blast
qed

text \<open>What a request may spend: the limiters, the breaker, the metrics and the requests sent to backends.\<close>

definition core :: "('b, 'r) gateway \<Rightarrow> 'b UserLimiter option \<times> BudgetLimiter option \<times> Limiter option \<times> proxyState" where
  "core s = (gs_rate s, gs_budget s, gs_slots s, gs_proxy s)"

lemma core_putTrace [simp]: "core (putTrace t s) = core s"
  by (simp add: core_def putTrace_def)

definition llmMux :: "Config \<Rightarrow> Handler \<Rightarrow> ('b, 'r) gateway mux" where
  "llmMux cfg h = [(''/v1/chat/completions'', foldr (\<lambda>mw h. mw h) (chatMiddlewares cfg) (chatHandler h)),
     (''/v1/models'', \<lambda>s. ListModels h (gatewayNow s) s)]"

definition chatPath :: "Request \<Rightarrow> bool" where
  "chatPath r \<longleftrightarrow> map pathUnescape (segmentsOf (EscapedPath r)) = [''v1'', ''chat'', ''completions'']"

lemma llmMux_routes: "fst (mux_ServeHTTP (llmMux cfg h) s r w) = s \<or> chatPath r"
proof (rule mux_ServeHTTP_cases [of "llmMux cfg h" s r w])
  fix p f assume f: "(p, f) \<in> set (llmMux cfg h)" "patternMatches (EscapedPath r) p" "mux_ServeHTTP (llmMux cfg h) s r w = f s r w"
  show ?thesis
  proof (cases "p = ''/v1/models''")
    case True
    then have "f = (\<lambda>s. ListModels h (gatewayNow s) s)" using f(1) by (auto simp: llmMux_def)
    then show ?thesis using f(3) by simp
  next
    case False
    then have p: "p = ''/v1/chat/completions''" using f(1) by (auto simp: llmMux_def)
    have segs: "segmentsOf ''/v1/chat/completions'' = [''v1'', ''chat'', ''completions'']" by (simp add: segmentsOf_def)
    show ?thesis using f(2) unfolding p by (simp add: patternMatches_def isSubtree_def segs chatPath_def)
  qed
qed blast

text \<open>The models behind the authenticator.\<close>

lemma guarded_route:
  assumes "NewAPIKeyAuthenticator cfg' = Inr a" and "fst (authMiddleware (Some a) (mux_ServeHTTP (llmMux cfg h)) s r w) \<noteq> s"
  shows "\<exists>key k. extractAPIKey a r = Some key \<and> k \<in> set (auth_Keys cfg') \<and> parseAPIKeyHash (key_KeyHash k) = Some (sha256 key) \<and> chatPath r"
proof -
  from assms(2) obtain key identity where key: "extractAPIKey a r = Some key" "authenticate a key = Some identity"
    by (auto split: option.splits)
  with assms(2) have "fst (mux_ServeHTTP (llmMux cfg h) s (WithIdentity r identity) w) \<noteq> s" by simp
  then have "chatPath (WithIdentity r identity)" using llmMux_routes by blast
  moreover have "EscapedPath (WithIdentity r identity) = EscapedPath r" by (simp add: WithIdentity_def EscapedPath_def)
  ultimately have "chatPath r" by (simp add: chatPath_def)
  with key authenticate_sound [OF assms(1) key(2)] show ?thesis by blast
qed

lemma llmRoutes_auth:
  assumes "llmRoutes cfg h [] = Inr m" "auth_Enabled (cfg_Auth cfg)"
  obtains a where "NewAPIKeyAuthenticator (cfg_Auth cfg) = Inr a" "m = [(''/v1/'', authMiddleware (Some a) (mux_ServeHTTP (llmMux cfg h)))]"
  using assms by (auto simp: llmRoutes_def llm_Register_empty mux_Handle_def llmMux_def split: sum.splits)

text \<open>C4. With authentication enabled only an authenticated chat request spends anything: if a request to any path, with
  any method and any headers, changes a limiter, the circuit breaker, the metrics or sends a request to a backend,
  then it carries an API key whose SHA-256 digest is a configured one and its path is the one of the chat
  completions.\<close>

theorem only_authenticated_chats_count:
  assumes "New lib otelhttp en wd cfg rt0 g = (g', Inr app)" and "otelTransparent otelhttp" and "auth_Enabled (cfg_Auth cfg)"
  shows "core (fst (app_handler app s r w)) = core s \<or>
    (\<exists>a key k. NewAPIKeyAuthenticator (cfg_Auth cfg) = Inr a \<and> extractAPIKey a r = Some key \<and>
       k \<in> set (auth_Keys (cfg_Auth cfg)) \<and> parseAPIKeyHash (key_KeyHash k) = Some (sha256 key) \<and> chatPath r)"
proof -
  obtain rt h m1 m where llm: "llmRoutes cfg h [] = Inr m1" and svc: "serviceRoutes lib cfg (wd_now wd) m1 = Some m"
    and app: "app_handler app = rootHandler otelhttp cfg rt m"
    using New_Inr [OF assms(1)] by metis
  obtain t t' r' w' where run: "fst (app_handler app s r w) = putTrace t' (fst (mux_ServeHTTP m (putTrace t s) r' w'))"
    and r': "rq_Path r' = rq_Path r" "rq_RawPath r' = rq_RawPath r" "rq_Header r' = rq_Header r"
    using rootHandler_calls_mux [OF assms(2), of cfg rt m s r w] app by metis
  obtain a where a: "NewAPIKeyAuthenticator (cfg_Auth cfg) = Inr a" "m1 = [(''/v1/'', authMiddleware (Some a) (mux_ServeHTTP (llmMux cfg h)))]"
    by (rule llmRoutes_auth [OF llm assms(3)])
  show ?thesis
  proof (cases "fst (mux_ServeHTTP m (putTrace t s) r' w') = putTrace t s")
    case False
    then obtain pat k where k: "(pat, k) \<in> set m" "fst (k (putTrace t s) r' w') \<noteq> putTrace t s"
      by (rule_tac mux_ServeHTTP_cases [of m "putTrace t s" r' w']) auto
    then have "k = authMiddleware (Some a) (mux_ServeHTTP (llmMux cfg h))"
      using serviceRoutes_still [OF svc] a(2) by (fastforce simp: addsStill_def still_def)
    with k(2) guarded_route [OF a(1)] obtain key c where "extractAPIKey a r' = Some key" "c \<in> set (auth_Keys (cfg_Auth cfg))"
      "parseAPIKeyHash (key_KeyHash c) = Some (sha256 key)" "chatPath r'"
      by metis
    moreover have "extractAPIKey a r' = extractAPIKey a r" "chatPath r' = chatPath r"
      by (simp_all add: extractAPIKey_def chatPath_def EscapedPath_def r')
    ultimately show ?thesis using a(1) by auto
  qed (simp add: run)
qed

definition guardedConfig :: Config where
  "guardedConfig = Default\<lparr>cfg_Auth := demoAuth\<rparr>"

lemma guarded_valid: "Validate guardedConfig = None"
  by code_simp

lemma guarded_no_key:
  assumes "NewAPIKeyAuthenticator demoAuth = Inr a"
  shows "extractAPIKey a tinyRequest = None"
proof -
  have "authn_header a = CanonicalHeaderKey (TrimSpace (auth_Header demoAuth))"
    using assms by (auto simp: NewAPIKeyAuthenticator_def Let_def split: if_splits sum.splits)
  moreover have "hGet (rq_Header tinyRequest) (CanonicalHeaderKey (TrimSpace (auth_Header demoAuth))) = []" by code_simp
  ultimately show ?thesis by (simp add: extractAPIKey_def)
qed

theorem only_authenticated_chats_count_witness:
  "\<exists>g' app. New demoLib (\<lambda>_ h. h) demoEntropy demoWorld guardedConfig None demoGlobals = (g', Inr app) \<and>
     core (fst (app_handler app (app_state app) tinyRequest (Server (newServerWriter [])))) = core (app_state app)"
proof -
  obtain g' app where app: "New demoLib (\<lambda>_ h. h) demoEntropy demoWorld guardedConfig None demoGlobals = (g', Inr app)"
    using New_starts [OF guarded_valid disjI2 [OF demo_sdk] demo_prom] by blast
  have "auth_Enabled (cfg_Auth guardedConfig)" "cfg_Auth guardedConfig = demoAuth" by (simp_all add: guardedConfig_def demoAuth_def)
  with only_authenticated_chats_count [OF app otel_identity, of "app_state app" tinyRequest "Server (newServerWriter [])"] guarded_no_key app
  show ?thesis by auto
qed

end
