(* ===== verification/Lifecycle.thy ===== *)
theory Lifecycle
  imports App
begin

text \<open>
  The life of the process: \<^verbatim>\<open>App.Run\<close> and \<^verbatim>\<open>SignalContext\<close> of \<^verbatim>\<open>internal/app/lifecycle.go\<close> and \<^verbatim>\<open>run\<close> of
  \<^verbatim>\<open>cmd/gateway/main.go\<close>. \<^verbatim>\<open>Run\<close> is a machine of two threads, the caller and the goroutine that serves,
  with a buffered channel between them; the clients, the listener and the signals are the environment.
  Each step has a name, so that fairness can be demanded of the program alone: nothing is ever assumed
  of the clients, which may keep their connections open for ever.
\<close>

section \<open>Fair runs\<close>

text \<open>
  A run of a system of named actions: the states and the action taken at each point (\<open>None\<close> where nothing
  happens). An action is treated weakly fairly if it is taken when it stays enabled for ever.
\<close>

definition behaviour :: "('a \<Rightarrow> 's \<Rightarrow> 's option) \<Rightarrow> ('s \<Rightarrow> bool) \<Rightarrow> (nat \<Rightarrow> 's) \<Rightarrow> (nat \<Rightarrow> 'a option) \<Rightarrow> bool" where
  "behaviour step start f g \<longleftrightarrow> start (f 0) \<and>
     (\<forall>i. case g i of Some a \<Rightarrow> step a (f i) = Some (f (Suc i)) | None \<Rightarrow> f (Suc i) = f i)"

definition weaklyFair :: "('a \<Rightarrow> 's \<Rightarrow> 's option) \<Rightarrow> 'a \<Rightarrow> (nat \<Rightarrow> 's) \<Rightarrow> (nat \<Rightarrow> 'a option) \<Rightarrow> bool" where
  "weaklyFair step a f g \<longleftrightarrow> (\<forall>i. (\<forall>j\<ge>i. step a (f j) \<noteq> None) \<longrightarrow> (\<exists>j\<ge>i. g j = Some a))"

locale action_system =
  fixes step :: "'a \<Rightarrow> 's \<Rightarrow> 's option"
    and start :: "'s \<Rightarrow> bool"
    and Inv :: "'s \<Rightarrow> bool"
  assumes inv_start: "start s \<Longrightarrow> Inv s"
    and inv_step: "Inv s \<Longrightarrow> step a s = Some s' \<Longrightarrow> Inv s'"
begin

lemma behaviour_inv:
  assumes "behaviour step start f g"
  shows "Inv (f i)"
proof (induction i)
  case 0
  then show ?case using assms inv_start by (simp add: behaviour_def)
next
  case (Suc i)
  have "case g i of Some a \<Rightarrow> step a (f i) = Some (f (Suc i)) | None \<Rightarrow> f (Suc i) = f i" using assms by (simp add: behaviour_def)
  with Suc inv_step show ?case by (cases "g i") auto
qed

text \<open>The rule for one helpful action: \<open>P\<close> holds until \<open>Q\<close> does, the action is enabled as long as \<open>P\<close> holds and leads to \<open>Q\<close>.\<close>

lemma leads_to:
  assumes run: "behaviour step start f g" and fair: "weaklyFair step a f g" and now: "P (f i)"
    and until: "\<And>b s s'. Inv s \<Longrightarrow> P s \<Longrightarrow> step b s = Some s' \<Longrightarrow> P s' \<or> Q s'"
    and enabled: "\<And>s. Inv s \<Longrightarrow> P s \<Longrightarrow> step a s \<noteq> None"
    and helpful: "\<And>s s'. Inv s \<Longrightarrow> P s \<Longrightarrow> step a s = Some s' \<Longrightarrow> Q s'"
  shows "\<exists>j\<ge>i. Q (f j)"
proof (rule ccontr)
  assume never: "\<not> (\<exists>j\<ge>i. Q (f j))"
  have move: "case g j of Some a \<Rightarrow> step a (f j) = Some (f (Suc j)) | None \<Rightarrow> f (Suc j) = f j" for j
    using run by (simp add: behaviour_def)
  have P: "P (f (i + n))" for n
  proof (induction n)
    case (Suc n)
    have "P (f (Suc (i + n))) \<or> Q (f (Suc (i + n)))"
      using move [of "i + n"] until [OF behaviour_inv [OF run] Suc] Suc by (cases "g (i + n)") auto
    with never show ?case by simp
  qed (simp add: now)
  then have "\<forall>j\<ge>i. P (f j)" by (metis le_add_diff_inverse)
  moreover from this have "\<forall>j\<ge>i. step a (f j) \<noteq> None" using enabled [OF behaviour_inv [OF run]] by blast
  then obtain j where j: "i \<le> j" "g j = Some a" using fair by (auto simp: weaklyFair_def)
  ultimately have "Q (f (Suc j))" using move [of j] helpful [OF behaviour_inv [OF run, of j]] by simp
  with never j(1) show False by (meson le_Suc_eq)
qed

end

section \<open>Run\<close>

datatype signal = Interrupt | SIGTERM | OtherSignal nat

text \<open>\<^verbatim>\<open>SignalContext\<close>: the context is done when the parent is or one of the two signals arrived.\<close>

definition SignalContext :: "bool \<Rightarrow> signal list \<Rightarrow> bool" where
  "SignalContext parentDone arrived \<longleftrightarrow> parentDone \<or> Interrupt \<in> set arrived \<or> SIGTERM \<in> set arrived"

text \<open>
  Where the two threads are. \<open>Starting\<close>: \<^verbatim>\<open>ListenAndServe\<close> has not opened its listener yet. An error is
  the text of the error that \<^verbatim>\<open>ListenAndServe\<close> returned, \<open>None\<close> the nil it becomes when it is
  \<^verbatim>\<open>ErrServerClosed\<close>. \<open>Selecting\<close> lasts until the branch that the \<^verbatim>\<open>select\<close> chose has stored the flag, its first
  statement: the choice itself cannot be seen by anyone. \<open>Stopping\<close> is between this store and the moment
  \<^verbatim>\<open>Shutdown\<close> marks the server as shutting down: the server still accepts connections then.
\<close>

datatype serverThread = Starting | Serving | Sent

datatype runError = StopFailed | ExitFailed string | StartFailed string

datatype mainThread = Selecting | Stopping | ShuttingDown | Receiving | Finished "runError option"

record runState =
  rs_ready :: bool
  rs_hasCtx :: bool
  rs_signals :: "signal list"
  rs_main :: mainThread
  rs_server :: serverThread
  rs_errCh :: "string option list"
  rs_inShutdown :: bool
  rs_expired :: bool
  rs_conns :: nat

text \<open>\<^verbatim>\<open>Run\<close> sets the flag before it starts the goroutine; a nil context is never done.\<close>

definition runStart :: "bool \<Rightarrow> signal list \<Rightarrow> runState" where
  "runStart hasCtx arrived = \<lparr>rs_ready = True, rs_hasCtx = hasCtx, rs_signals = arrived, rs_main = Selecting, rs_server = Starting,
     rs_errCh = [], rs_inShutdown = False, rs_expired = False, rs_conns = 0\<rparr>"

definition ctxDone :: "runState \<Rightarrow> bool" where
  "ctxDone s \<longleftrightarrow> rs_hasCtx s \<and> SignalContext False (rs_signals s)"

datatype action =
    Listen | ServeError string | ServeClosed | ConnOpen | ConnClose | Signal signal
  | SelectDone | SelectErr | CallShutdown | Deadline | ShutdownOk | ShutdownCloseError | ShutdownTimeout | Receive

definition onlyIf :: "bool \<Rightarrow> runState \<Rightarrow> runState option" where
  "onlyIf guard s = (if guard then Some s else None)"

text \<open>
  The actions. Of \<^verbatim>\<open>http.Server\<close>: a listener is opened or fails; serving ends with an error, or with
  \<^verbatim>\<open>ErrServerClosed\<close> once \<^verbatim>\<open>Shutdown\<close> was called; \<^verbatim>\<open>Shutdown\<close> returns when no connection is left, with the error
  of closing a listener if there was one, or with the error of its context when that has expired. The timer of this
  context, which runs for the timeout of the configuration, is the action \<open>Deadline\<close>. The send needs room in the
  channel of capacity 1.
\<close>

fun act :: "action \<Rightarrow> runState \<Rightarrow> runState option" where
  "act Listen s = onlyIf (rs_server s = Starting \<and> \<not> rs_inShutdown s) (s\<lparr>rs_server := Serving\<rparr>)"
| "act (ServeError e) s =
     onlyIf ((rs_server s = Starting \<or> rs_server s = Serving \<and> \<not> rs_inShutdown s) \<and> length (rs_errCh s) < 1)
       (s\<lparr>rs_server := Sent, rs_errCh := rs_errCh s @ [Some e]\<rparr>)"
| "act ServeClosed s =
     onlyIf (rs_server s \<noteq> Sent \<and> rs_inShutdown s \<and> length (rs_errCh s) < 1) (s\<lparr>rs_server := Sent, rs_errCh := rs_errCh s @ [None]\<rparr>)"
| "act ConnOpen s = onlyIf (rs_server s = Serving \<and> \<not> rs_inShutdown s) (s\<lparr>rs_conns := rs_conns s + 1\<rparr>)"
| "act ConnClose s = onlyIf (0 < rs_conns s) (s\<lparr>rs_conns := rs_conns s - 1\<rparr>)"
| "act (Signal sig) s = Some (s\<lparr>rs_signals := rs_signals s @ [sig]\<rparr>)"
| "act SelectDone s = onlyIf (rs_main s = Selecting \<and> ctxDone s) (s\<lparr>rs_ready := False, rs_main := Stopping\<rparr>)"
| "act SelectErr s =
     (case rs_errCh s of
        [] \<Rightarrow> None
      | err # ch \<Rightarrow> onlyIf (rs_main s = Selecting) (s\<lparr>rs_ready := False, rs_main := Finished (map_option StartFailed err), rs_errCh := ch\<rparr>))"
| "act CallShutdown s = onlyIf (rs_main s = Stopping) (s\<lparr>rs_main := ShuttingDown, rs_inShutdown := True\<rparr>)"
| "act Deadline s = onlyIf ((rs_main s = Stopping \<or> rs_main s = ShuttingDown) \<and> \<not> rs_expired s) (s\<lparr>rs_expired := True\<rparr>)"
| "act ShutdownOk s = onlyIf (rs_main s = ShuttingDown \<and> rs_conns s = 0) (s\<lparr>rs_main := Receiving\<rparr>)"
| "act ShutdownCloseError s = onlyIf (rs_main s = ShuttingDown \<and> rs_conns s = 0) (s\<lparr>rs_main := Finished (Some StopFailed)\<rparr>)"
| "act ShutdownTimeout s = onlyIf (rs_main s = ShuttingDown \<and> rs_expired s) (s\<lparr>rs_main := Finished (Some StopFailed)\<rparr>)"
| "act Receive s =
     (case rs_errCh s of
        [] \<Rightarrow> None
      | err # ch \<Rightarrow> onlyIf (rs_main s = Receiving) (s\<lparr>rs_main := Finished (map_option ExitFailed err), rs_errCh := ch\<rparr>))"

text \<open>The program's own actions: those of \<^verbatim>\<open>Run\<close>, the timer it started, and the end of \<^verbatim>\<open>ListenAndServe\<close> after \<^verbatim>\<open>Shutdown\<close>.\<close>

fun ownAction :: "action \<Rightarrow> bool" where
  "ownAction Listen = False"
| "ownAction (ServeError e) = False"
| "ownAction ConnOpen = False"
| "ownAction ConnClose = False"
| "ownAction (Signal sig) = False"
| "ownAction a = True"

text \<open>A sequence of actions; \<open>None\<close> if one of them is not possible.\<close>

fun execActs :: "action list \<Rightarrow> runState \<Rightarrow> runState option" where
  "execActs [] s = Some s"
| "execActs (a # as) s = Option.bind (act a s) (execActs as)"

inductive run_step :: "runState \<Rightarrow> runState \<Rightarrow> bool" where
  run_stepI: "act a s = Some s' \<Longrightarrow> run_step s s'"

inductive_cases run_stepE: "run_step s s'"

definition runReachable :: "runState \<Rightarrow> bool" where
  "runReachable s \<longleftrightarrow> (\<exists>hasCtx arrived. run_step\<^sup>*\<^sup>* (runStart hasCtx arrived) s)"

section \<open>The invariant\<close>

text \<open>
  While the caller selects, the flag is set and nothing was shut down; a message is in the channel
  exactly when the goroutine has sent it and nobody received it yet; and a message without an error
  was only sent after \<^verbatim>\<open>Shutdown\<close>.
\<close>

definition runInv :: "runState \<Rightarrow> bool" where
  "runInv s \<longleftrightarrow>
     (rs_ready s \<longleftrightarrow> rs_main s = Selecting) \<and>
     (rs_main s = Selecting \<or> rs_main s = Stopping \<longrightarrow> \<not> rs_inShutdown s) \<and>
     (rs_main s = ShuttingDown \<or> rs_main s = Receiving \<longrightarrow> rs_inShutdown s) \<and>
     (rs_main s = Receiving \<longrightarrow> rs_conns s = 0) \<and>
     (rs_server s \<noteq> Sent \<longrightarrow> rs_errCh s = []) \<and>
     (rs_server s = Sent \<and> (\<forall>e. rs_main s \<noteq> Finished e) \<longrightarrow> (\<exists>x. rs_errCh s = [x])) \<and>
     length (rs_errCh s) \<le> 1 \<and>
     (None \<in> set (rs_errCh s) \<longrightarrow> rs_inShutdown s) \<and>
     (rs_main s = Finished None \<longrightarrow> rs_inShutdown s \<and> rs_conns s = 0 \<and> rs_server s = Sent) \<and>
     (rs_inShutdown s \<or> rs_main s = Stopping \<longrightarrow> ctxDone s)"

lemma runInv_start: "runInv (runStart hasCtx arrived)"
  by (simp add: runInv_def runStart_def)

lemma ctxDone_more: "ctxDone s \<Longrightarrow> ctxDone (s\<lparr>rs_signals := rs_signals s @ sigs\<rparr>)"
  by (auto simp: ctxDone_def SignalContext_def)

lemma ctxDone_keep [simp]:
  "ctxDone (s\<lparr>rs_server := a\<rparr>) = ctxDone s" "ctxDone (s\<lparr>rs_errCh := b\<rparr>) = ctxDone s" "ctxDone (s\<lparr>rs_conns := c\<rparr>) = ctxDone s"
  "ctxDone (s\<lparr>rs_ready := d\<rparr>) = ctxDone s" "ctxDone (s\<lparr>rs_main := e\<rparr>) = ctxDone s" "ctxDone (s\<lparr>rs_inShutdown := f\<rparr>) = ctxDone s"
  "ctxDone (s\<lparr>rs_expired := h\<rparr>) = ctxDone s"
  by (simp_all add: ctxDone_def)

lemma onlyIf_Some [simp]: "onlyIf guard s = Some s' \<longleftrightarrow> guard \<and> s' = s"
  by (auto simp: onlyIf_def)

lemma onlyIf_None [simp]: "onlyIf guard s = None \<longleftrightarrow> \<not> guard"
  by (simp add: onlyIf_def)

lemma runInv_act:
  assumes "runInv s" "act a s = Some s'"
  shows "runInv s'"
proof (cases a)
  case (Signal sig)
  then have s': "s' = s\<lparr>rs_signals := rs_signals s @ [sig]\<rparr>" using assms(2) by simp
  have "ctxDone s \<longrightarrow> ctxDone s'" unfolding s' using ctxDone_more by blast
  with assms(1) show ?thesis unfolding runInv_def s' by simp
next
  case SelectErr
  with assms obtain err ch where "rs_errCh s = err # ch" by (cases "rs_errCh s") auto
  then show ?thesis using SelectErr assms by (cases err) (auto simp: runInv_def)
next
  case Receive
  with assms obtain err ch where "rs_errCh s = err # ch" by (cases "rs_errCh s") auto
  then show ?thesis using Receive assms by (cases err; cases "rs_server s") (auto simp: runInv_def)
next
  case Listen
  then show ?thesis using assms by (auto simp: runInv_def)
next
  case (ServeError e)
  then show ?thesis using assms by (auto simp: runInv_def)
next
  case ServeClosed
  then show ?thesis using assms by (auto simp: runInv_def)
next
  case ConnOpen
  then show ?thesis using assms by (auto simp: runInv_def)
next
  case ConnClose
  then show ?thesis using assms by (auto simp: runInv_def)
next
  case SelectDone
  then show ?thesis using assms by (auto simp: runInv_def)
next
  case CallShutdown
  then show ?thesis using assms by (auto simp: runInv_def)
next
  case Deadline
  then show ?thesis using assms by (auto simp: runInv_def)
next
  case ShutdownOk
  then show ?thesis using assms by (auto simp: runInv_def)
next
  case ShutdownCloseError
  then show ?thesis using assms by (auto simp: runInv_def)
next
  case ShutdownTimeout
  then show ?thesis using assms by (auto simp: runInv_def)
qed

lemma runInv_step: "run_step s s' \<Longrightarrow> runInv s \<Longrightarrow> runInv s'"
  by (auto elim!: run_stepE intro: runInv_act)

lemma runReachable_inv: "runReachable s \<Longrightarrow> runInv s"
proof -
  have "run_step\<^sup>*\<^sup>* s0 s \<Longrightarrow> runInv s0 \<Longrightarrow> runInv s" for s0
    by (induction rule: rtranclp_induct) (auto intro: runInv_step)
  then show "runReachable s \<Longrightarrow> runInv s" using runInv_start by (auto simp: runReachable_def)
qed

lemma execActs_steps: "execActs as s = Some s' \<Longrightarrow> run_step\<^sup>*\<^sup>* s s'"
proof (induction as arbitrary: s)
  case (Cons a as)
  then obtain s1 where "act a s = Some s1" "execActs as s1 = Some s'" by (auto simp: bind_eq_Some_conv)
  with Cons.IH show ?case by (meson converse_rtranclp_into_rtranclp run_stepI)
qed simp

lemma execActs_reachable: "execActs as (runStart hasCtx arrived) = Some s \<Longrightarrow> runReachable s"
  using execActs_steps unfolding runReachable_def by blast

definition runInit :: "runState \<Rightarrow> bool" where
  "runInit s \<longleftrightarrow> (\<exists>hasCtx arrived. s = runStart hasCtx arrived)"

interpretation runs: action_system act runInit runInv
  by unfold_locales (auto simp: runInit_def runInv_start intro: runInv_act)

section \<open>Properties\<close>

lemma can_deliver:
  assumes "runInv s" "rs_server s \<noteq> Sent"
  shows "\<exists>s'. run_step s s' \<and> rs_server s' = Sent"
proof -
  have room: "length (rs_errCh s) < 1" using assms by (simp add: runInv_def)
  obtain a s' where "act a s = Some s'" "rs_server s' = Sent"
  proof (cases "rs_inShutdown s")
    case True
    then show ?thesis using that [of ServeClosed] assms(2) room by simp
  next
    case False
    then show ?thesis using that [of "ServeError []"] assms(2) room by (cases "rs_server s") simp_all
  qed
  then show ?thesis using run_stepI by blast
qed

text \<open>C31. The gateway calls itself ready exactly while it serves and was not told to stop: from the start of \<^verbatim>\<open>Run\<close>
  until the \<^verbatim>\<open>select\<close> takes one of its branches, and never once the server is shutting down. The goroutine that serves
  can always deliver its result, so it is never left behind.\<close>

theorem ready_while_serving:
  assumes "runReachable s"
  shows "(rs_ready s \<longleftrightarrow> rs_main s = Selecting) \<and> (rs_ready s \<longrightarrow> \<not> rs_inShutdown s) \<and>
    (rs_server s = Sent \<or> (\<exists>s'. run_step s s' \<and> rs_server s' = Sent))"
proof -
  have inv: "runInv s" using assms by (rule runReachable_inv)
  then have "rs_ready s \<longleftrightarrow> rs_main s = Selecting" "rs_ready s \<longrightarrow> \<not> rs_inShutdown s" by (auto simp: runInv_def)
  then show ?thesis using can_deliver [OF inv] by blast
qed

text \<open>Also used for the exit code.\<close>

lemma finished_nil: "runInv s \<Longrightarrow> rs_main s = Finished None \<Longrightarrow> ctxDone s \<and> rs_server s = Sent \<and> rs_conns s = 0 \<and> \<not> rs_ready s"
  by (auto simp: runInv_def)

text \<open>C32. \<^verbatim>\<open>Run\<close> returns without an error only after a complete graceful stop: the context was done, the serving goroutine
  has ended and no connection is left.\<close>

theorem nil_means_graceful:
  assumes "runReachable s" and "rs_main s = Finished None"
  shows "ctxDone s \<and> rs_server s = Sent \<and> rs_conns s = 0 \<and> \<not> rs_ready s"
  using finished_nil [OF runReachable_inv [OF assms(1)] assms(2)] .

text \<open>How many of its own actions the program can still take.\<close>

definition ownLeft :: "runState \<Rightarrow> nat" where
  "ownLeft s = (case rs_main s of Selecting \<Rightarrow> 4 | Stopping \<Rightarrow> 3 | ShuttingDown \<Rightarrow> 2 | Receiving \<Rightarrow> 1 | Finished _ \<Rightarrow> 0) +
     (if rs_expired s then 0 else 1) + (if rs_server s = Sent then 0 else 1)"

lemma ownLeft_act:
  "act a s = Some s' \<Longrightarrow> rs_main s \<noteq> Selecting \<Longrightarrow> ownLeft s' + (if ownAction a then 1 else 0) \<le> ownLeft s \<and> rs_main s' \<noteq> Selecting"
  by (cases a) (auto simp: ownLeft_def split: list.splits mainThread.splits)

lemma ownLeft_exec:
  "execActs as s = Some s' \<Longrightarrow> runInv s \<Longrightarrow> rs_main s \<noteq> Selecting \<Longrightarrow>
     ownLeft s' + length (filter ownAction as) \<le> ownLeft s \<and> runInv s' \<and> rs_main s' \<noteq> Selecting"
proof (induction as arbitrary: s)
  case (Cons a as)
  then obtain s1 where s1: "act a s = Some s1" "execActs as s1 = Some s'" by (auto simp: bind_eq_Some_conv)
  with ownLeft_act [OF s1(1) Cons.prems(3)] Cons.IH [OF s1(2) runInv_act [OF Cons.prems(2) s1(1)]] show ?case by auto
qed simp

text \<open>After the \<^verbatim>\<open>select\<close> the program can always go on by itself until \<^verbatim>\<open>Run\<close> has returned.\<close>

lemma own_enabled:
  assumes "runInv s" "rs_main s \<noteq> Selecting" "\<forall>e. rs_main s \<noteq> Finished e"
  shows "\<exists>a. ownAction a \<and> act a s \<noteq> None"
proof (cases "rs_main s")
  case Stopping
  then show ?thesis by (intro exI [of _ CallShutdown]) simp
next
  case ShuttingDown
  then show ?thesis by (intro exI [of _ "if rs_expired s then ShutdownTimeout else Deadline"]) simp
next
  case Receiving
  show ?thesis
  proof (cases "rs_server s = Sent")
    case True
    then obtain x where "rs_errCh s = [x]" using assms by (auto simp: runInv_def)
    then show ?thesis using Receiving by (intro exI [of _ Receive]) simp
  next
    case False
    then have "rs_inShutdown s" "rs_errCh s = []" using assms(1) Receiving by (auto simp: runInv_def)
    then show ?thesis using False by (intro exI [of _ ServeClosed]) simp
  qed
qed (use assms in auto)

text \<open>C11. Once \<^verbatim>\<open>Run\<close> has left its \<^verbatim>\<open>select\<close> it ends without the help of anyone: in whatever way the clients, the listener
  and further signals interleave, the program takes at most five more of its own actions, and as long as \<^verbatim>\<open>Run\<close> has not
  returned one of them is possible, also when a client never closes its connection.\<close>

theorem shutdown_ends:
  assumes "runReachable s" and "rs_main s \<noteq> Selecting" and "execActs as s = Some s'"
  shows "length (filter ownAction as) \<le> 5 \<and> ((\<exists>e. rs_main s' = Finished e) \<or> (\<exists>a. ownAction a \<and> act a s' \<noteq> None))"
proof -
  have b: "ownLeft s' + length (filter ownAction as) \<le> ownLeft s" "runInv s'" "rs_main s' \<noteq> Selecting"
    using ownLeft_exec [OF assms(3) runReachable_inv [OF assms(1)] assms(2)] by auto
  moreover have "ownLeft s \<le> 5" using assms(2) by (cases "rs_main s") (auto simp: ownLeft_def)
  ultimately have "length (filter ownAction as) \<le> 5" by linarith
  then show ?thesis using own_enabled [OF b(2,3)] by blast
qed

text \<open>A run of the process that treats the actions of the program fairly.\<close>

definition fairRun :: "(nat \<Rightarrow> runState) \<Rightarrow> (nat \<Rightarrow> action option) \<Rightarrow> bool" where
  "fairRun f g \<longleftrightarrow> behaviour act runInit f g \<and> (\<forall>a. ownAction a \<longrightarrow> weaklyFair act a f g)"

text \<open>From phase to phase, each with its helpful action.\<close>

lemma fair_phase:
  assumes "fairRun f g" "ownAction a" "P (f i)"
    and "\<And>b s s'. runInv s \<Longrightarrow> P s \<Longrightarrow> act b s = Some s' \<Longrightarrow> P s' \<or> Q s'"
    and "\<And>s. runInv s \<Longrightarrow> P s \<Longrightarrow> act a s \<noteq> None"
    and "\<And>s s'. runInv s \<Longrightarrow> P s \<Longrightarrow> act a s = Some s' \<Longrightarrow> Q s'"
  shows "\<exists>j. Q (f j)"
proof -
  have "behaviour act runInit f g" "weaklyFair act a f g" using assms(1,2) by (simp_all add: fairRun_def)
  then have "\<exists>j\<ge>i. Q (f j)" by (rule runs.leads_to) (fact assms)+
  then show ?thesis by blast
qed

definition returned :: "runState \<Rightarrow> bool" where
  "returned s \<longleftrightarrow> (\<exists>e. rs_main s = Finished e)"

lemma fair_receiving:
  assumes "fairRun f g" "rs_main (f i) = Receiving"
  shows "\<exists>j. returned (f j)"
proof -
  have sent: "\<exists>j. returned (f j)" if "rs_main (f k) = Receiving \<and> rs_server (f k) = Sent" for k
  proof (rule fair_phase [where a = Receive and P = "\<lambda>s. rs_main s = Receiving \<and> rs_server s = Sent", OF assms(1) _ that])
    fix b s s' assume "runInv s" "rs_main s = Receiving \<and> rs_server s = Sent" "act b s = Some s'"
    then show "(rs_main s' = Receiving \<and> rs_server s' = Sent) \<or> returned s'"
      by (cases b) (auto simp: returned_def split: list.splits)
  qed (auto simp: runInv_def returned_def)
  show ?thesis
  proof (cases "rs_server (f i) = Sent")
    case False
    have "\<exists>j. rs_main (f j) = Receiving \<and> rs_server (f j) = Sent"
    proof (rule fair_phase [where a = ServeClosed and P = "\<lambda>s. rs_main s = Receiving \<and> rs_server s \<noteq> Sent" and i = i, OF assms(1)])
      fix b s s' assume "runInv s" "rs_main s = Receiving \<and> rs_server s \<noteq> Sent" "act b s = Some s'"
      then show "(rs_main s' = Receiving \<and> rs_server s' \<noteq> Sent) \<or> (rs_main s' = Receiving \<and> rs_server s' = Sent)"
        by (cases b) (auto simp: runInv_def split: list.splits)
    qed (use assms False in \<open>auto simp: runInv_def\<close>)
    then show ?thesis using sent by blast
  qed (use assms sent in blast)
qed

lemma fair_shutting_down:
  assumes "fairRun f g" "rs_main (f i) = ShuttingDown"
  shows "\<exists>j. returned (f j)"
proof -
  have expired: "\<exists>j. rs_main (f j) = Receiving \<or> returned (f j)" if "rs_main (f k) = ShuttingDown \<and> rs_expired (f k)" for k
  proof (rule fair_phase [where a = ShutdownTimeout and P = "\<lambda>s. rs_main s = ShuttingDown \<and> rs_expired s", OF assms(1) _ that])
    fix b s s' assume "runInv s" "rs_main s = ShuttingDown \<and> rs_expired s" "act b s = Some s'"
    then show "(rs_main s' = ShuttingDown \<and> rs_expired s') \<or> (rs_main s' = Receiving \<or> returned s')"
      by (cases b) (auto simp: returned_def split: list.splits)
  qed (auto simp: returned_def)
  have "\<exists>j. (rs_main (f j) = ShuttingDown \<and> rs_expired (f j)) \<or> rs_main (f j) = Receiving \<or> returned (f j)"
  proof (cases "rs_expired (f i)")
    case False
    show ?thesis
    proof (rule fair_phase [where a = Deadline and P = "\<lambda>s. rs_main s = ShuttingDown \<and> \<not> rs_expired s" and i = i, OF assms(1)])
      fix b s s' assume "runInv s" "rs_main s = ShuttingDown \<and> \<not> rs_expired s" "act b s = Some s'"
      then show "(rs_main s' = ShuttingDown \<and> \<not> rs_expired s') \<or>
          ((rs_main s' = ShuttingDown \<and> rs_expired s') \<or> rs_main s' = Receiving \<or> returned s')"
        by (cases b) (auto simp: returned_def split: list.splits)
    qed (use assms False in auto)
  qed (use assms in blast)
  with expired show ?thesis using fair_receiving [OF assms(1)] by blast
qed

lemma fair_stopping:
  assumes "fairRun f g" "rs_main (f i) = Stopping"
  shows "\<exists>j. returned (f j)"
proof -
  have "\<exists>j. rs_main (f j) = ShuttingDown"
  proof (rule fair_phase [where a = CallShutdown and P = "\<lambda>s. rs_main s = Stopping" and i = i, OF assms(1) _ assms(2)])
    fix b s s' assume "runInv s" "rs_main s = Stopping" "act b s = Some s'"
    then show "rs_main s' = Stopping \<or> rs_main s' = ShuttingDown"
      by (cases b) (auto split: list.splits)
  qed auto
  then show ?thesis using fair_shutting_down [OF assms(1)] by blast
qed

lemma fair_selecting:
  assumes "fairRun f g" "rs_main (f i) = Selecting" "ctxDone (f i)"
  shows "\<exists>j. returned (f j)"
proof -
  have "\<exists>j. rs_main (f j) = Stopping \<or> returned (f j)"
  proof (rule fair_phase [where a = SelectDone and P = "\<lambda>s. rs_main s = Selecting \<and> ctxDone s" and i = i, OF assms(1)])
    fix b s s' assume s: "runInv s" "rs_main s = Selecting \<and> ctxDone s" "act b s = Some s'"
    then show "(rs_main s' = Selecting \<and> ctxDone s') \<or> (rs_main s' = Stopping \<or> returned s')"
      by (cases b) (auto simp: returned_def ctxDone_more split: list.splits)
  qed (use assms in auto)
  then show ?thesis using fair_stopping [OF assms(1)] by blast
qed

text \<open>C10. A gateway that is told to stop stops: in every run that is fair to the actions of the program (an action of its
  own that stays possible for ever is taken) and in which the context is done at some point, \<^verbatim>\<open>Run\<close> returns, and the
  gateway is not ready then. Nothing is assumed of the clients: the deadline of \<^verbatim>\<open>Shutdown\<close> ends a stop that waits for a
  connection.\<close>

theorem signalled_run_returns:
  assumes "fairRun f g" and "ctxDone (f i)"
  shows "\<exists>j e. rs_main (f j) = Finished e \<and> \<not> rs_ready (f j)"
proof -
  have inv: "runInv (f k)" for k using assms(1) runs.behaviour_inv by (auto simp: fairRun_def)
  have "\<exists>j. returned (f j)"
  proof (cases "rs_main (f i)")
    case (Finished e)
    then show ?thesis by (auto simp: returned_def)
  qed (use fair_selecting fair_stopping fair_shutting_down fair_receiving assms in blast)+
  then obtain j e where "rs_main (f j) = Finished e" by (auto simp: returned_def)
  moreover from this have "\<not> rs_ready (f j)" using inv [of j] by (simp add: runInv_def)
  ultimately show ?thesis by blast
qed

section \<open>Concrete runs\<close>

text \<open>The run that takes the given actions and then rests.\<close>

definition runOf :: "action list \<Rightarrow> nat \<Rightarrow> runState" where
  "runOf as i = the (execActs (take i as) (runStart True []))"

definition actOf :: "action list \<Rightarrow> nat \<Rightarrow> action option" where
  "actOf as i = (if i < length as then Some (as ! i) else None)"

lemma execActs_append: "execActs (xs @ ys) s = Option.bind (execActs xs s) (execActs ys)"
  by (induction xs arbitrary: s) (simp_all split: Option.bind_split)

lemma finite_run_fair:
  assumes fin: "execActs as (runStart True []) = Some s" and still: "\<And>a. ownAction a \<Longrightarrow> act a s = None"
  shows "fairRun (runOf as) (actOf as)"
proof -
  have move: "case actOf as i of Some a \<Rightarrow> act a (runOf as i) = Some (runOf as (Suc i)) | None \<Rightarrow> runOf as (Suc i) = runOf as i" for i
  proof (cases "i < length as")
    case True
    have "execActs (take (Suc i) as @ drop (Suc i) as) (runStart True []) = Some s" using fin by simp
    then obtain s2 where s2: "execActs (take (Suc i) as) (runStart True []) = Some s2"
      unfolding execActs_append by (auto simp: bind_eq_Some_conv)
    then have "execActs (take i as @ [as ! i]) (runStart True []) = Some s2" using True by (simp add: take_Suc_conv_app_nth)
    then obtain s1 where "execActs (take i as) (runStart True []) = Some s1" "act (as ! i) s1 = Some s2"
      unfolding execActs_append by (auto simp: bind_eq_Some_conv)
    with s2 True show ?thesis by (simp add: actOf_def runOf_def)
  qed (simp add: actOf_def runOf_def)
  have "runInit (runOf as 0)" by (auto simp: runOf_def runInit_def)
  with move have "behaviour act runInit (runOf as) (actOf as)" unfolding behaviour_def by blast
  moreover have "weaklyFair act a (runOf as) (actOf as)" if "ownAction a" for a
    unfolding weaklyFair_def
  proof (intro allI impI)
    fix i assume "\<forall>j\<ge>i. act a (runOf as j) \<noteq> None"
    then have "act a (runOf as (i + length as)) \<noteq> None" by simp
    then show "\<exists>j\<ge>i. actOf as j = Some a" using still [OF that] fin by (simp add: runOf_def)
  qed
  ultimately show ?thesis by (simp add: fairRun_def)
qed

text \<open>A stop with a client that never closes its connection, and a stop before the listener is open.\<close>

definition hangingStop :: "action list" where
  "hangingStop = [Listen, ConnOpen, Signal Interrupt, SelectDone, ConnOpen, CallShutdown, ServeClosed, Deadline, ShutdownTimeout]"

definition earlyStop :: "action list" where
  "earlyStop = [Signal SIGTERM, SelectDone, CallShutdown, ServeClosed, ShutdownOk, Receive]"

lemmas run_eval = hangingStop_def earlyStop_def runOf_def runStart_def ctxDone_def SignalContext_def onlyIf_def

lemma hanging_end: "\<exists>s. execActs hangingStop (runStart True []) = Some s \<and> rs_main s = Finished (Some StopFailed) \<and> rs_conns s = 2 \<and> rs_server s = Sent"
  by (simp add: run_eval)

lemma early_end: "\<exists>s. execActs earlyStop (runStart True []) = Some s \<and> rs_main s = Finished None"
  by (simp add: run_eval)

theorem signalled_run_returns_witness: "\<exists>j e. rs_main (runOf hangingStop j) = Finished e \<and> \<not> rs_ready (runOf hangingStop j)"
proof -
  obtain s where s: "execActs hangingStop (runStart True []) = Some s" "rs_main s = Finished (Some StopFailed)" "rs_server s = Sent"
    using hanging_end by blast
  have "act a s = None" if "ownAction a" for a using that s by (cases a) (auto split: list.split)
  from finite_run_fair [OF s(1) this] have "fairRun (runOf hangingStop) (actOf hangingStop)" .
  moreover have "ctxDone (runOf hangingStop 3)" by (simp add: run_eval)
  ultimately show ?thesis by (rule signalled_run_returns)
qed

theorem ready_while_serving_witness: "rs_ready (runOf hangingStop 2) \<and> \<not> rs_inShutdown (runOf hangingStop 2)"
proof -
  have "execActs [Listen, ConnOpen] (runStart True []) = Some (runOf hangingStop 2)" by (simp add: run_eval)
  from ready_while_serving [OF execActs_reachable [OF this]] show ?thesis by (simp add: run_eval)
qed

theorem nil_means_graceful_witness: "\<exists>s. execActs earlyStop (runStart True []) = Some s \<and> ctxDone s \<and> rs_conns s = 0"
proof -
  obtain s where "execActs earlyStop (runStart True []) = Some s" "rs_main s = Finished None" using early_end by blast
  with nil_means_graceful [OF execActs_reachable] show ?thesis by blast
qed

theorem shutdown_ends_witness:
  "rs_conns (runOf hangingStop 7) = 2 \<and> ((\<exists>e. rs_main (runOf hangingStop 7) = Finished e) \<or> (\<exists>a. ownAction a \<and> act a (runOf hangingStop 7) \<noteq> None))"
proof -
  have "execActs [Listen, ConnOpen, Signal Interrupt, SelectDone] (runStart True []) = Some (runOf hangingStop 4)" by (simp add: run_eval)
  moreover have "execActs [ConnOpen, CallShutdown, ServeClosed] (runOf hangingStop 4) = Some (runOf hangingStop 7)" by (simp add: run_eval)
  moreover have "rs_main (runOf hangingStop 4) \<noteq> Selecting" "rs_conns (runOf hangingStop 7) = 2" by (simp_all add: run_eval)
  ultimately show ?thesis using shutdown_ends [OF execActs_reachable] by blast
qed

section \<open>The process\<close>













end
