(* ===== verification/Probes.thy ===== *)
theory Probes
  imports App
begin

text \<open>
  The circuit breaker behind the whole application: a request, whatever its path, its attempts at backends and
  its end, gives back every probe of a half-open circuit it took.
\<close>

section \<open>One attempt\<close>













section \<open>The application\<close>










end
