(* ===== verification/Config_Load.thy ===== *)
theory Config_Load
  imports Config_Validate Go_Json Go_Float "HOL-Library.AList"
begin

text \<open>
  Reading the configuration file: \<^verbatim>\<open>Duration.UnmarshalJSON\<close> (\<^verbatim>\<open>internal/config/duration.go\<close>) with
  \<^verbatim>\<open>time.ParseDuration\<close>, and the decoding of the file over the defaults as \<^verbatim>\<open>internal/config/loader.go\<close>
  does it, with the JSON names of the fields in \<^verbatim>\<open>config.go\<close> and \<^verbatim>\<open>auth.go\<close>.
\<close>

section \<open>Durations\<close>

text \<open>\<^verbatim>\<open>leadingInt\<close> and \<^verbatim>\<open>leadingFraction\<close> of the package \<^verbatim>\<open>time\<close>, part of the standard library. The first fails
  above \<open>2 ^ 63\<close>, the second stops counting there; a fraction is its digits and the power of ten, a \<^verbatim>\<open>float64\<close>, they
  are divided by.\<close>

fun leadingInt :: "nat \<Rightarrow> string \<Rightarrow> (nat \<times> string) option" where
  "leadingInt x [] = Some (x, [])"
| "leadingInt x (c # s) =
     (case dec_value c of
        None \<Rightarrow> Some (x, c # s)
      | Some d \<Rightarrow> if x > 2 ^ 63 div 10 \<or> 10 * x + d > 2 ^ 63 then None else leadingInt (10 * x + d) s)"

fun leadingFraction :: "nat \<Rightarrow> rat \<Rightarrow> bool \<Rightarrow> string \<Rightarrow> nat \<times> rat \<times> string" where
  "leadingFraction x scale overflow [] = (x, scale, [])"
| "leadingFraction x scale overflow (c # s) =
     (case dec_value c of
        None \<Rightarrow> (x, scale, c # s)
      | Some d \<Rightarrow>
          if overflow then leadingFraction x scale True s
          else if x > (2 ^ 63 - 1) div 10 \<or> 10 * x + d > 2 ^ 63 then leadingFraction x scale True s
          else leadingFraction (10 * x + d) (rnd (scale * 10)) False s)"

definition durationUnit :: "string \<Rightarrow> nat option" where
  "durationUnit u = map_of [(''ns'', 1), (''us'', 1000), ([CHR 0xC2, CHR 0xB5, CHR ''s''], 1000), ([CHR 0xCE, CHR 0xBC, CHR ''s''], 1000),
     (''ms'', 10 ^ 6), (''s'', 10 ^ 9), (''m'', 60 * 10 ^ 9), (''h'', 3600 * 10 ^ 9)] u"

definition numeralByte :: "char \<Rightarrow> bool" where
  "numeralByte c \<longleftrightarrow> c = CHR ''.'' \<or> dec_value c \<noteq> None"

text \<open>One term of a duration: the nanoseconds and the rest. The fraction of a unit is computed as a \<^verbatim>\<open>float64\<close> and
  truncated.\<close>

definition durationTerm :: "string \<Rightarrow> (nat \<times> string) option" where
  "durationTerm s =
     (if s = [] \<or> \<not> numeralByte (hd s) then None
      else case leadingInt 0 s of
          None \<Rightarrow> None
        | Some (v, s1) \<Rightarrow>
            (let pre = (length s1 \<noteq> length s);
                 (f, scale, s2) = (if HasPrefix s1 ''.'' then leadingFraction 0 1 False (tl s1) else (0, 1, s1));
                 post = (HasPrefix s1 ''.'' \<and> length s2 \<noteq> length (tl s1));
                 u = takeWhile (\<lambda>c. \<not> numeralByte c) s2;
                 rest = dropWhile (\<lambda>c. \<not> numeralByte c) s2
             in if \<not> pre \<and> \<not> post then None
                else if u = [] then None
                else case durationUnit u of
                    None \<Rightarrow> None
                  | Some unit \<Rightarrow>
                      if v > 2 ^ 63 div unit then None
                      else let v' = v * unit + (if f > 0 then nat \<lfloor>rnd (rnd (of_nat f) * rnd (rnd (of_nat unit) / scale))\<rfloor> else 0)
                           in if v' > 2 ^ 63 then None else Some (v', rest)))"

lemma leadingInt_length: "leadingInt x s = Some (v, s') \<Longrightarrow> length s' \<le> length s"
  by (induction x s rule: leadingInt.induct) (auto split: option.splits if_splits)

lemma leadingFraction_length: "length (snd (snd (leadingFraction x scale ov s))) \<le> length s"
  by (induction x scale ov s rule: leadingFraction.induct) (auto split: option.split intro: le_SucI)

lemma durationTerm_shorter: "durationTerm s = Some (v, rest) \<Longrightarrow> length rest < length s"
proof -
  assume t: "durationTerm s = Some (v, rest)"
  then obtain x s1 where s1: "leadingInt 0 s = Some (x, s1)" by (auto simp: durationTerm_def split: if_splits option.splits)
  define q where "q = (if HasPrefix s1 ''.'' then leadingFraction 0 1 False (tl s1) else (0, 1, s1))"
  obtain f scale s2 where q: "q = (f, scale, s2)" by (cases q)
  have s2: "length s2 \<le> length s1"
    using leadingFraction_length [of 0 1 False "tl s1"] q unfolding q_def by (auto split: if_splits)
  have "takeWhile (\<lambda>c. \<not> numeralByte c) s2 \<noteq> []" "rest = dropWhile (\<lambda>c. \<not> numeralByte c) s2"
    using t s1 q unfolding q_def by (auto simp: durationTerm_def Let_def split: if_splits option.splits)
  moreover have "length (takeWhile (\<lambda>c. \<not> numeralByte c) s2) + length (dropWhile (\<lambda>c. \<not> numeralByte c) s2) = length s2"
    by (metis length_append takeWhile_dropWhile_id)
  ultimately have "length rest < length s2" by (cases "takeWhile (\<lambda>c. \<not> numeralByte c) s2") auto
  with s2 leadingInt_length [OF s1] show ?thesis by linarith
qed

text \<open>The loop adds up the terms in an unsigned 64-bit integer.\<close>

function durationSum :: "nat \<Rightarrow> string \<Rightarrow> nat option" where
  "durationSum d s =
     (if s = [] then Some d
      else case durationTerm s of
          None \<Rightarrow> None
        | Some (v, rest) \<Rightarrow>
            (let d' = (d + v) mod 2 ^ 64 in if d' > 2 ^ 63 then None else durationSum d' rest))"
  by pat_completeness auto
termination
  by (relation "measure (\<lambda>(d, s). length s)") (auto dest: durationTerm_shorter)

declare durationSum.simps [simp del]

definition ParseDuration :: "string \<Rightarrow> int option" where
  "ParseDuration orig =
     (let neg = HasPrefix orig ''-'';
          s = (if HasPrefix orig ''-'' \<or> HasPrefix orig ''+'' then tl orig else orig)
      in if s = ''0'' then Some 0
         else if s = [] then None
         else case durationSum 0 s of
             None \<Rightarrow> None
           | Some d \<Rightarrow>
               if neg then Some (wrap64 (- wrap64 (int d)))
               else if int d > 2 ^ 63 - 1 then None
               else Some (int d))"

text \<open>\<^verbatim>\<open>Duration.UnmarshalJSON\<close>: a string, else a number of nanoseconds. The JSON null reads as the empty
  string, which is no duration.\<close>

definition UnmarshalDuration :: "int \<Rightarrow> json \<Rightarrow> int option" where
  "UnmarshalDuration old data =
     (case decString [] data of
        Some raw \<Rightarrow> ParseDuration raw
      | None \<Rightarrow> decInt 0 data)"

section \<open>The configuration file\<close>

text \<open>With \<^verbatim>\<open>DisallowUnknownFields\<close> a key that names no field is an error.\<close>

fun decStrict :: "string list \<Rightarrow> (string \<Rightarrow> json \<Rightarrow> 'a \<Rightarrow> 'a option) \<Rightarrow> 'a \<Rightarrow> json \<Rightarrow> 'a option" where
  "decStrict names set_field x (JObj ms) =
     fold (\<lambda>(key, raw, v) acc. Option.bind acc (\<lambda>x. case fieldOf names key of None \<Rightarrow> None | Some f \<Rightarrow> set_field f v x)) ms (Some x)"
| "decStrict names set_field x JNull = Some x"
| "decStrict names set_field x _ = None"

text \<open>Into a slice that is as long as its backing array, as those of the defaults are: an element is decoded
  over the one at the same place.\<close>

definition decList :: "'a \<Rightarrow> ('a \<Rightarrow> json \<Rightarrow> 'a option) \<Rightarrow> 'a list \<Rightarrow> json \<Rightarrow> 'a list option" where
  "decList zero dec old v = map_option items (decSlice zero (\<lambda>x _. dec x) \<lparr>backing = old, slen = length old\<rparr> v)"

text \<open>Into a map: the keys are added to those that are there, each with a fresh value.\<close>

fun decMap :: "'a \<Rightarrow> ('a \<Rightarrow> json \<Rightarrow> 'a option) \<Rightarrow> (string \<times> 'a) list \<Rightarrow> json \<Rightarrow> (string \<times> 'a) list option" where
  "decMap zero dec old JNull = Some []"
| "decMap zero dec old (JObj ms) =
     fold (\<lambda>(key, raw, v) acc. Option.bind acc (\<lambda>m. map_option (\<lambda>x. AList.update key x m) (dec zero v))) ms (Some old)"
| "decMap zero dec old _ = None"

text \<open>\<^verbatim>\<open>float64\<close>: the value of the literal, rounded; an error outside the range of the type.\<close>

definition expValue :: "string \<Rightarrow> int" where
  "expValue s =
     (case s of [] \<Rightarrow> 0
      | _ # e \<Rightarrow> (let n = (case parse_digits 0 (if HasPrefix e ''+'' \<or> HasPrefix e ''-'' then tl e else e) of Some k \<Rightarrow> int k | None \<Rightarrow> 0)
                 in if HasPrefix e ''-'' then - n else n))"

definition numValue :: "string \<Rightarrow> rat" where
  "numValue n =
     (let body = TrimPrefix n ''-'';
          mant = takeWhile (\<lambda>c. c \<notin> set ''eE'') body;
          ex = expValue (dropWhile (\<lambda>c. c \<notin> set ''eE'') body);
          digits = (case parse_digits 0 (filter (\<lambda>c. c \<noteq> CHR ''.'') mant) of Some k \<Rightarrow> k | None \<Rightarrow> 0);
          places = length (drop 1 (dropWhile (\<lambda>c. c \<noteq> CHR ''.'') mant));
          p = ex - int places;
          v = (if p \<ge> 0 then of_nat digits * 10 ^ nat p else of_nat digits / 10 ^ nat (- p))
      in if HasPrefix n ''-'' then - v else v)"

fun decFloat :: "rat \<Rightarrow> json \<Rightarrow> rat option" where
  "decFloat old (JNum n) = (if \<bar>numValue n\<bar> < 2 ^ 1024 - 2 ^ 970 then Some (rnd (numValue n)) else None)"
| "decFloat old JNull = Some old"
| "decFloat old _ = None"

definition decServer :: "ServerConfig \<Rightarrow> json \<Rightarrow> ServerConfig option" where
  "decServer = decStrict [''address'', ''read_header_timeout'', ''shutdown_timeout''] (\<lambda>f v x.
     if f = ''address'' then map_option (\<lambda>y. x\<lparr>srv_Address := y\<rparr>) (decString (srv_Address x) v)
     else if f = ''read_header_timeout'' then map_option (\<lambda>y. x\<lparr>srv_ReadHeaderTimeout := y\<rparr>) (UnmarshalDuration (srv_ReadHeaderTimeout x) v)
     else map_option (\<lambda>y. x\<lparr>srv_ShutdownTimeout := y\<rparr>) (UnmarshalDuration (srv_ShutdownTimeout x) v))"

definition decSignal :: "OpenTelemetrySignalConfig \<Rightarrow> json \<Rightarrow> OpenTelemetrySignalConfig option" where
  "decSignal = decStrict [''enabled'', ''endpoint''] (\<lambda>f v x.
     if f = ''enabled'' then map_option (\<lambda>y. x\<lparr>sig_Enabled := y\<rparr>) (decBool (sig_Enabled x) v)
     else map_option (\<lambda>y. x\<lparr>sig_Endpoint := y\<rparr>) (decString (sig_Endpoint x) v))"

definition decOpenTelemetry :: "OpenTelemetryConfig \<Rightarrow> json \<Rightarrow> OpenTelemetryConfig option" where
  "decOpenTelemetry = decStrict [''enabled'', ''service_name'', ''service_version'', ''environment'', ''endpoint'', ''insecure'', ''headers'',
       ''export_timeout'', ''traces'', ''logs''] (\<lambda>f v x.
     if f = ''enabled'' then map_option (\<lambda>y. x\<lparr>otel_Enabled := y\<rparr>) (decBool (otel_Enabled x) v)
     else if f = ''service_name'' then map_option (\<lambda>y. x\<lparr>otel_ServiceName := y\<rparr>) (decString (otel_ServiceName x) v)
     else if f = ''service_version'' then map_option (\<lambda>y. x\<lparr>otel_ServiceVersion := y\<rparr>) (decString (otel_ServiceVersion x) v)
     else if f = ''environment'' then map_option (\<lambda>y. x\<lparr>otel_Environment := y\<rparr>) (decString (otel_Environment x) v)
     else if f = ''endpoint'' then map_option (\<lambda>y. x\<lparr>otel_Endpoint := y\<rparr>) (decString (otel_Endpoint x) v)
     else if f = ''insecure'' then map_option (\<lambda>y. x\<lparr>otel_Insecure := y\<rparr>) (decBool (otel_Insecure x) v)
     else if f = ''headers'' then map_option (\<lambda>y. x\<lparr>otel_Headers := y\<rparr>) (decMap [] decString (otel_Headers x) v)
     else if f = ''export_timeout'' then map_option (\<lambda>y. x\<lparr>otel_ExportTimeout := y\<rparr>) (UnmarshalDuration (otel_ExportTimeout x) v)
     else if f = ''traces'' then map_option (\<lambda>y. x\<lparr>otel_Traces := y\<rparr>) (decSignal (otel_Traces x) v)
     else map_option (\<lambda>y. x\<lparr>otel_Logs := y\<rparr>) (decSignal (otel_Logs x) v))"

definition decService :: "ObservabilityServiceConfig \<Rightarrow> json \<Rightarrow> ObservabilityServiceConfig option" where
  "decService = decStrict [''name'', ''kind'', ''public_url'', ''health_url''] (\<lambda>f v x.
     if f = ''name'' then map_option (\<lambda>y. x\<lparr>svc_Name := y\<rparr>) (decString (svc_Name x) v)
     else if f = ''kind'' then map_option (\<lambda>y. x\<lparr>svc_Kind := y\<rparr>) (decString (svc_Kind x) v)
     else if f = ''public_url'' then map_option (\<lambda>y. x\<lparr>svc_PublicURL := y\<rparr>) (decString (svc_PublicURL x) v)
     else map_option (\<lambda>y. x\<lparr>svc_HealthURL := y\<rparr>) (decString (svc_HealthURL x) v))"

definition decDashboard :: "ObservabilityDashboardConfig \<Rightarrow> json \<Rightarrow> ObservabilityDashboardConfig option" where
  "decDashboard = decStrict [''name'', ''url'', ''embed_url''] (\<lambda>f v x.
     if f = ''name'' then map_option (\<lambda>y. x\<lparr>dash_Name := y\<rparr>) (decString (dash_Name x) v)
     else if f = ''url'' then map_option (\<lambda>y. x\<lparr>dash_URL := y\<rparr>) (decString (dash_URL x) v)
     else map_option (\<lambda>y. x\<lparr>dash_EmbedURL := y\<rparr>) (decString (dash_EmbedURL x) v))"

definition decStack :: "ObservabilityStack \<Rightarrow> json \<Rightarrow> ObservabilityStack option" where
  "decStack = decStrict [''enabled'', ''services'', ''dashboards''] (\<lambda>f v x.
     if f = ''enabled'' then map_option (\<lambda>y. x\<lparr>stack_Enabled := y\<rparr>) (decBool (stack_Enabled x) v)
     else if f = ''services'' then map_option (\<lambda>y. x\<lparr>stack_Services := y\<rparr>)
       (decList \<lparr>svc_Name = [], svc_Kind = [], svc_PublicURL = [], svc_HealthURL = []\<rparr> decService (stack_Services x) v)
     else map_option (\<lambda>y. x\<lparr>stack_Dashboards := y\<rparr>)
       (decList \<lparr>dash_Name = [], dash_URL = [], dash_EmbedURL = []\<rparr> decDashboard (stack_Dashboards x) v))"

text \<open>\<^verbatim>\<open>TracingConfig\<close> and \<^verbatim>\<open>AuthConfig\<close> have one field each.\<close>

definition decTracing :: "bool \<Rightarrow> json \<Rightarrow> bool option" where
  "decTracing = decStrict [''enabled''] (\<lambda>f v x. decBool x v)"

definition decObservability :: "ObservabilityConfig \<Rightarrow> json \<Rightarrow> ObservabilityConfig option" where
  "decObservability = decStrict [''metrics_namespace'', ''tracing'', ''opentelemetry'', ''stack''] (\<lambda>f v x.
     if f = ''metrics_namespace'' then map_option (\<lambda>y. x\<lparr>obs_MetricsNamespace := y\<rparr>) (decString (obs_MetricsNamespace x) v)
     else if f = ''tracing'' then map_option (\<lambda>y. x\<lparr>obs_TracingEnabled := y\<rparr>) (decTracing (obs_TracingEnabled x) v)
     else if f = ''opentelemetry'' then map_option (\<lambda>y. x\<lparr>obs_OpenTelemetry := y\<rparr>) (decOpenTelemetry (obs_OpenTelemetry x) v)
     else map_option (\<lambda>y. x\<lparr>obs_Stack := y\<rparr>) (decStack (obs_Stack x) v))"

definition decCredential :: "APIKeyCredentialConfig \<Rightarrow> json \<Rightarrow> APIKeyCredentialConfig option" where
  "decCredential = decStrict [''id'', ''key_hash'', ''user_id'', ''tenant_id'', ''scopes''] (\<lambda>f v x.
     if f = ''id'' then map_option (\<lambda>y. x\<lparr>key_ID := y\<rparr>) (decString (key_ID x) v)
     else if f = ''key_hash'' then map_option (\<lambda>y. x\<lparr>key_KeyHash := y\<rparr>) (decString (key_KeyHash x) v)
     else if f = ''user_id'' then map_option (\<lambda>y. x\<lparr>key_UserID := y\<rparr>) (decString (key_UserID x) v)
     else if f = ''tenant_id'' then map_option (\<lambda>y. x\<lparr>key_TenantID := y\<rparr>) (decString (key_TenantID x) v)
     else map_option (\<lambda>y. x\<lparr>key_Scopes := y\<rparr>) (decList [] decString (key_Scopes x) v))"

definition decAPIKeyAuth :: "APIKeyAuthConfig \<Rightarrow> json \<Rightarrow> APIKeyAuthConfig option" where
  "decAPIKeyAuth = decStrict [''enabled'', ''header'', ''keys''] (\<lambda>f v x.
     if f = ''enabled'' then map_option (\<lambda>y. x\<lparr>auth_Enabled := y\<rparr>) (decBool (auth_Enabled x) v)
     else if f = ''header'' then map_option (\<lambda>y. x\<lparr>auth_Header := y\<rparr>) (decString (auth_Header x) v)
     else map_option (\<lambda>y. x\<lparr>auth_Keys := y\<rparr>)
       (decList \<lparr>key_ID = [], key_KeyHash = [], key_UserID = [], key_TenantID = [], key_Scopes = []\<rparr> decCredential (auth_Keys x) v))"

definition decAuth :: "APIKeyAuthConfig \<Rightarrow> json \<Rightarrow> APIKeyAuthConfig option" where
  "decAuth = decStrict [''api_key''] (\<lambda>f v x. decAPIKeyAuth x v)"

definition decUserRateLimit :: "UserRateLimitConfig \<Rightarrow> json \<Rightarrow> UserRateLimitConfig option" where
  "decUserRateLimit = decStrict [''enabled'', ''identity_header'', ''requests_per_second'', ''burst''] (\<lambda>f v x.
     if f = ''enabled'' then map_option (\<lambda>y. x\<lparr>rl_Enabled := y\<rparr>) (decBool (rl_Enabled x) v)
     else if f = ''identity_header'' then map_option (\<lambda>y. x\<lparr>rl_IdentityHeader := y\<rparr>) (decString (rl_IdentityHeader x) v)
     else if f = ''requests_per_second'' then map_option (\<lambda>y. x\<lparr>rl_RequestsPerSecond := y\<rparr>) (decFloat (rl_RequestsPerSecond x) v)
     else map_option (\<lambda>y. x\<lparr>rl_Burst := y\<rparr>) (decInt (rl_Burst x) v))"

definition decConcurrency :: "ConcurrencyLimitConfig \<Rightarrow> json \<Rightarrow> ConcurrencyLimitConfig option" where
  "decConcurrency = decStrict [''enabled'', ''max_in_flight''] (\<lambda>f v x.
     if f = ''enabled'' then map_option (\<lambda>y. x\<lparr>cc_Enabled := y\<rparr>) (decBool (cc_Enabled x) v)
     else map_option (\<lambda>y. x\<lparr>cc_MaxInFlight := y\<rparr>) (decInt (cc_MaxInFlight x) v))"

definition decRateLimit :: "RateLimitConfig \<Rightarrow> json \<Rightarrow> RateLimitConfig option" where
  "decRateLimit = decStrict [''user'', ''concurrency''] (\<lambda>f v x.
     if f = ''user'' then map_option (\<lambda>y. x\<lparr>rate_User := y\<rparr>) (decUserRateLimit (rate_User x) v)
     else map_option (\<lambda>y. x\<lparr>rate_Concurrency := y\<rparr>) (decConcurrency (rate_Concurrency x) v))"

definition decTokenUsage :: "TokenUsageConfig \<Rightarrow> json \<Rightarrow> TokenUsageConfig option" where
  "decTokenUsage = decStrict [''enabled'', ''identity_header'', ''window'', ''default_budget_tokens'', ''default_max_completion_tokens'', ''user_budgets''] (\<lambda>f v x.
     if f = ''enabled'' then map_option (\<lambda>y. x\<lparr>tu_Enabled := y\<rparr>) (decBool (tu_Enabled x) v)
     else if f = ''identity_header'' then map_option (\<lambda>y. x\<lparr>tu_IdentityHeader := y\<rparr>) (decString (tu_IdentityHeader x) v)
     else if f = ''window'' then map_option (\<lambda>y. x\<lparr>tu_Window := y\<rparr>) (UnmarshalDuration (tu_Window x) v)
     else if f = ''default_budget_tokens'' then map_option (\<lambda>y. x\<lparr>tu_DefaultBudgetTokens := y\<rparr>) (decInt (tu_DefaultBudgetTokens x) v)
     else if f = ''default_max_completion_tokens'' then map_option (\<lambda>y. x\<lparr>tu_DefaultMaxCompletionTokens := y\<rparr>) (decInt (tu_DefaultMaxCompletionTokens x) v)
     else map_option (\<lambda>y. x\<lparr>tu_UserBudgets := y\<rparr>) (decMap 0 decInt (tu_UserBudgets x) v))"

definition decCircuitBreaker :: "CircuitBreakerConfig \<Rightarrow> json \<Rightarrow> CircuitBreakerConfig option" where
  "decCircuitBreaker = decStrict [''enabled'', ''failure_threshold'', ''open_timeout'', ''half_open_max_requests''] (\<lambda>f v x.
     if f = ''enabled'' then map_option (\<lambda>y. x\<lparr>cb_Enabled := y\<rparr>) (decBool (cb_Enabled x) v)
     else if f = ''failure_threshold'' then map_option (\<lambda>y. x\<lparr>cb_FailureThreshold := y\<rparr>) (decInt (cb_FailureThreshold x) v)
     else if f = ''open_timeout'' then map_option (\<lambda>y. x\<lparr>cb_OpenTimeout := y\<rparr>) (UnmarshalDuration (cb_OpenTimeout x) v)
     else map_option (\<lambda>y. x\<lparr>cb_HalfOpenMaxRequests := y\<rparr>) (decInt (cb_HalfOpenMaxRequests x) v))"

definition zeroBackend :: ModelBackendConfig where
  "zeroBackend = \<lparr>be_Name = [], be_Type = [], be_BaseURL = [], be_APIKey = [], be_APIKeyEnv = [], be_Models = []\<rparr>"

definition decBackend :: "ModelBackendConfig \<Rightarrow> json \<Rightarrow> ModelBackendConfig option" where
  "decBackend = decStrict [''name'', ''type'', ''base_url'', ''api_key'', ''api_key_env'', ''models''] (\<lambda>f v x.
     if f = ''name'' then map_option (\<lambda>y. x\<lparr>be_Name := y\<rparr>) (decString (be_Name x) v)
     else if f = ''type'' then map_option (\<lambda>y. x\<lparr>be_Type := y\<rparr>) (decString (be_Type x) v)
     else if f = ''base_url'' then map_option (\<lambda>y. x\<lparr>be_BaseURL := y\<rparr>) (decString (be_BaseURL x) v)
     else if f = ''api_key'' then map_option (\<lambda>y. x\<lparr>be_APIKey := y\<rparr>) (decString (be_APIKey x) v)
     else if f = ''api_key_env'' then map_option (\<lambda>y. x\<lparr>be_APIKeyEnv := y\<rparr>) (decString (be_APIKeyEnv x) v)
     else map_option (\<lambda>y. x\<lparr>be_Models := y\<rparr>) (decList [] decString (be_Models x) v))"

definition decAI :: "AIConfig \<Rightarrow> json \<Rightarrow> AIConfig option" where
  "decAI = decStrict [''request_timeout'', ''first_token_timeout'', ''circuit_breaker'', ''fallbacks'', ''backends''] (\<lambda>f v x.
     if f = ''request_timeout'' then map_option (\<lambda>y. x\<lparr>ai_RequestTimeout := y\<rparr>) (UnmarshalDuration (ai_RequestTimeout x) v)
     else if f = ''first_token_timeout'' then map_option (\<lambda>y. x\<lparr>ai_FirstTokenTimeout := y\<rparr>) (UnmarshalDuration (ai_FirstTokenTimeout x) v)
     else if f = ''circuit_breaker'' then map_option (\<lambda>y. x\<lparr>ai_CircuitBreaker := y\<rparr>) (decCircuitBreaker (ai_CircuitBreaker x) v)
     else if f = ''fallbacks'' then map_option (\<lambda>y. x\<lparr>ai_Fallbacks := y\<rparr>) (decMap [] (decList [] decString) (ai_Fallbacks x) v)
     else map_option (\<lambda>y. x\<lparr>ai_Backends := y\<rparr>) (decList zeroBackend decBackend (ai_Backends x) v))"

definition decConfig :: "Config \<Rightarrow> json \<Rightarrow> Config option" where
  "decConfig = decStrict [''server'', ''observability'', ''auth'', ''rate_limit'', ''token_usage'', ''ai''] (\<lambda>f v x.
     if f = ''server'' then map_option (\<lambda>y. x\<lparr>cfg_Server := y\<rparr>) (decServer (cfg_Server x) v)
     else if f = ''observability'' then map_option (\<lambda>y. x\<lparr>cfg_Observability := y\<rparr>) (decObservability (cfg_Observability x) v)
     else if f = ''auth'' then map_option (\<lambda>y. x\<lparr>cfg_Auth := y\<rparr>) (decAuth (cfg_Auth x) v)
     else if f = ''rate_limit'' then map_option (\<lambda>y. x\<lparr>cfg_RateLimit := y\<rparr>) (decRateLimit (cfg_RateLimit x) v)
     else if f = ''token_usage'' then map_option (\<lambda>y. x\<lparr>cfg_TokenUsage := y\<rparr>) (decTokenUsage (cfg_TokenUsage x) v)
     else map_option (\<lambda>y. x\<lparr>cfg_AI := y\<rparr>) (decAI (cfg_AI x) v))"

text \<open>\<^verbatim>\<open>decoder.Decode\<close> reads one JSON value and leaves the rest of the file unread: \<open>nextTok\<close> reads a token,
  \<open>firstFrom\<close> feeds the tokens to the machine of the parser until it has a complete value.\<close>

definition nextTok :: "string \<Rightarrow> ((string \<times> tok) \<times> string) option" where
  "nextTok s0 =
     (let ws = takeWhile json_ws s0; s = dropWhile json_ws s0
      in case s of
           [] \<Rightarrow> None
         | c # r \<Rightarrow>
             if c \<in> set ''{}[],:'' then Some ((ws, TPunct c), r)
             else if c = CHR 0x22 then (case scanString r of None \<Rightarrow> None | Some (b, r') \<Rightarrow> Some ((ws, TStr b), r'))
             else if num_char c then
               (if validNumber (takeWhile num_char s) then Some ((ws, TNum (takeWhile num_char s)), dropWhile num_char s) else None)
             else if HasPrefix s ''null'' then Some ((ws, TLit ''null''), drop 4 s)
             else if HasPrefix s ''true'' then Some ((ws, TLit ''true''), drop 4 s)
             else if HasPrefix s ''false'' then Some ((ws, TLit ''false''), drop 5 s)
             else None)"

lemma nextTok_shorter: "nextTok s = Some (t, rest) \<Longrightarrow> length rest < length s"
proof -
  assume t: "nextTok s = Some (t, rest)"
  have le: "length (dropWhile json_ws s) \<le> length s" by (rule length_dropWhile_le)
  obtain c r where c: "dropWhile json_ws s = c # r" using t by (cases "dropWhile json_ws s") (auto simp: nextTok_def)
  have "length rest < length (c # r)"
    using t length_dropWhile_le [of num_char r]
    by (auto simp: nextTok_def c Let_def split: if_splits option.splits dest!: scanString_shorter)
  with le c show ?thesis by simp
qed

function firstFrom :: "frame list \<times> expect \<Rightarrow> string \<Rightarrow> json option" where
  "firstFrom st s =
     (case st of
        ([], XEnd v) \<Rightarrow> Some v
      | _ \<Rightarrow>
          (case nextTok s of
             None \<Rightarrow> None
           | Some (t, rest) \<Rightarrow> (case stepToken st t of None \<Rightarrow> None | Some st' \<Rightarrow> firstFrom st' rest)))"
  by pat_completeness auto
termination
  by (relation "measure (\<lambda>(st, s). length s)") (auto dest: nextTok_shorter)

declare firstFrom.simps [simp del]

definition firstValue :: "string \<Rightarrow> json option" where
  "firstValue data = firstFrom ([], XValue) data"

definition decodeFile :: "string \<Rightarrow> Config \<Rightarrow> Config option" where
  "decodeFile data cfg = Option.bind (firstValue data) (decConfig cfg)"

definition LoadFile :: "(string \<Rightarrow> string) \<Rightarrow> (string \<Rightarrow> string option) \<Rightarrow> string \<Rightarrow> loadError + Config" where
  "LoadFile env readFile path = Load env readFile decodeFile path"

section \<open>Properties\<close>

lemma parse_digits_le: "parse_digits x ds = Some n \<Longrightarrow> x \<le> n"
proof (induction x ds rule: parse_digits.induct)
  case (2 acc c s)
  then show ?case by (auto split: option.splits)
qed simp

lemma leadingInt_digits:
  assumes "parse_digits x ds = Some n" "n \<le> 2 ^ 63" "s = [] \<or> dec_value (hd s) = None"
  shows "leadingInt x (ds @ s) = Some (n, s)"
  using assms(1)
proof (induction x ds rule: parse_digits.induct)
  case (1 acc)
  with assms(3) show ?case by (cases s) auto
next
  case (2 acc c ds)
  then obtain d where d: "dec_value c = Some d" "parse_digits (10 * acc + d) ds = Some n" by (auto split: option.splits)
  have "10 * acc + d \<le> 2 ^ 63" using parse_digits_le [OF d(2)] assms(2) by linarith
  then have "\<not> (acc > 2 ^ 63 div 10 \<or> 10 * acc + d > 2 ^ 63)" by linarith
  with 2(1) [OF d] d(1) show ?case by simp
qed

lemma durationTerm_ns:
  assumes "n \<le> 2 ^ 63"
  shows "durationTerm (dec_digits n @ ''ns'') = Some (n, [])"
proof -
  have digit: "dec_value c \<noteq> None" if "c \<in> set (dec_digits n)" for c
    using dec_digits_chars [OF that] by (simp add: dec_value_def)
  have "dec_value CHR ''n'' = None" "dec_value CHR ''s'' = None" by (simp_all add: dec_value_def)
  then have int: "leadingInt 0 (dec_digits n @ ''ns'') = Some (n, ''ns'')"
    using leadingInt_digits [OF parse_dec_digits assms, of "''ns''"] by simp
  have "hd (dec_digits n @ ''ns'') \<in> set (dec_digits n)" by simp
  then have "numeralByte (hd (dec_digits n @ ''ns''))" using digit by (simp add: numeralByte_def)
  moreover have "\<not> HasPrefix ''ns'' ''.''" "\<not> numeralByte CHR ''n''" "\<not> numeralByte CHR ''s''" by (simp_all add: HasPrefix_def numeralByte_def dec_value_def)
  ultimately show ?thesis using int assms by (simp add: durationTerm_def durationUnit_def)
qed

lemma durationSum_ns: "n \<le> 2 ^ 63 \<Longrightarrow> durationSum 0 (dec_digits n @ ''ns'') = Some n"
  by (subst durationSum.simps, simp add: durationTerm_ns, subst durationSum.simps, simp)

lemma durationSum_le: "durationSum d s = Some n \<Longrightarrow> d \<le> 2 ^ 63 \<Longrightarrow> n \<le> 2 ^ 63"
proof (induction d s rule: durationSum.induct)
  case (1 d s)
  show ?case
  proof (cases "s = []")
    case True
    with 1(2,3) show ?thesis by (subst (asm) durationSum.simps) simp
  next
    case False
    with 1(2) obtain v rest where t: "durationTerm s = Some (v, rest)" "\<not> (d + v) mod 2 ^ 64 > 2 ^ 63"
      "durationSum ((d + v) mod 2 ^ 64) rest = Some n"
      by (subst (asm) durationSum.simps) (auto simp: Let_def split: option.splits if_splits)
    with 1(1) [OF False t(1) refl refl t(2)] show ?thesis by simp
  qed
qed

text \<open>C33. Durations of the configuration: a string is accepted only with a value that fits into 64 bits, and every
  64-bit number of nanoseconds is read back from its text, as a string with the unit ns or as a bare number.\<close>

theorem duration_roundtrip:
  assumes "int64 n"
  shows "UnmarshalDuration old (JStr (Itoa n @ ''ns'')) = Some n \<and> UnmarshalDuration old (JNum (Itoa n)) = Some n \<and>
    (UnmarshalDuration old v = Some d \<longrightarrow> int64 d)"
proof (intro conjI impI)
  have no_sign: "\<not> HasPrefix (dec_digits k @ ''ns'') ''-''" "\<not> HasPrefix (dec_digits k @ ''ns'') ''+''" for k
    using dec_digits_no_sign [of k] by (cases "dec_digits k"; simp add: HasPrefix_def)+
  have not0: "dec_digits k @ ''ns'' \<noteq> ''0''" for k by (cases "dec_digits k") auto
  show "UnmarshalDuration old (JStr (Itoa n @ ''ns'')) = Some n"
  proof (cases "n < 0")
    case True
    then have "nat (- n) \<le> 2 ^ 63" using assms by (auto simp: int64_def)
    moreover have "wrap64 (- wrap64 (int (nat (- n)))) = n"
      using True assms by (cases "n = - (2 ^ 63)") (auto simp: int64_def wrap64_def)
    ultimately show ?thesis using True durationSum_ns [of "nat (- n)"] not0
      by (simp add: UnmarshalDuration_def ParseDuration_def Itoa_def HasPrefix_def Let_def)
  next
    case False
    then have "nat n \<le> 2 ^ 63" "\<not> int (nat n) > 2 ^ 63 - 1" using assms by (auto simp: int64_def)
    then show ?thesis using False durationSum_ns [of "nat n"] not0 no_sign
      by (simp add: UnmarshalDuration_def ParseDuration_def Itoa_def Let_def)
  qed
  show "UnmarshalDuration old (JNum (Itoa n)) = Some n" using assms by (simp add: UnmarshalDuration_def Atoi_Itoa)
  assume d: "UnmarshalDuration old v = Some d"
  show "int64 d"
  proof (cases "decString [] v")
    case None
    then have "decInt 0 v = Some d" using d by (simp add: UnmarshalDuration_def)
    then show ?thesis by (cases v) (auto simp: Atoi_def int64_def Let_def split: if_splits option.splits)
  next
    case (Some raw)
    then have p: "ParseDuration raw = Some d" using d by (simp add: UnmarshalDuration_def)
    then show ?thesis
      by (auto simp: ParseDuration_def Let_def int64_def split: if_splits option.splits) (auto simp: wrap64_def)
  qed
qed

theorem duration_roundtrip_witness: "UnmarshalDuration 0 (JStr ''-5ns'') = Some (- 5)"
proof -
  have "Itoa (- 5) = ''-5''" by code_simp
  then show ?thesis using duration_roundtrip [of "- 5" 0 JNull 0] by (simp add: int64_def)
qed

text \<open>Null is not a duration, although it leaves every other field as it is.\<close>

lemma null_duration_rejected: "UnmarshalDuration old JNull = None"
  by (simp add: UnmarshalDuration_def ParseDuration_def HasPrefix_def)

text \<open>Two backends of which the file says nothing, and something that is not JSON after the value.\<close>

definition partialFile :: string where
  \<open>partialFile = ''{"ai":{"backends":[{},{}]}} # end''\<close>

definition partialValue :: json where
  \<open>partialValue = JObj [(''ai'', ''{"backends":[{},{}]}'', JObj [(''backends'', ''[{},{}]'', JArr [(''{}'', JObj []), (''{}'', JObj [])])])]\<close>

lemma partial_value: "firstValue partialFile = Some partialValue"
  by code_simp

lemma partial_decoded: "decConfig Default partialValue = Some Default"
  by code_simp

text \<open>The first two backends of a configuration file are decoded over the two mock backends of the defaults: a file
  that says nothing about its two backends loads as if it named the mock backends, although validation demands a
  name, a type and models of every backend, and so does a file with trailing text that is not JSON.\<close>

theorem partial_backends_become_mocks:
  "LoadFile (\<lambda>_. []) (\<lambda>_. Some partialFile) ''gateway.json'' = Inr Default \<and> validateModels ((cfg_AI Default)\<lparr>ai_Backends := [zeroBackend, zeroBackend]\<rparr>) \<noteq> None"
proof -
  have "Validate Default = None" by code_simp
  moreover have "decodeFile partialFile Default = Some Default" by (simp add: decodeFile_def partial_value partial_decoded)
  ultimately have "LoadFile (\<lambda>_. []) (\<lambda>_. Some partialFile) ''gateway.json'' = Inr Default"
    by (simp add: LoadFile_def Load_def applyEnvOverrides_def Let_def)
  moreover have "validateModels ((cfg_AI Default)\<lparr>ai_Backends := [zeroBackend, zeroBackend]\<rparr>) \<noteq> None" by code_simp
  ultimately show ?thesis ..
qed

end
