(* ===== verification/Json_Laws.thy ===== *)
theory Json_Laws
  imports Http_Model
begin

text \<open>
  Round trips of the JSON texts the gateway writes: a string literal is read back as the string, and
  the error responses of all packages are JSON objects with exactly the message, whatever bytes it has.
\<close>

section \<open>Runes\<close>

text \<open>Invalid UTF-8 replaced, as the encoder does.\<close>

definition validText :: "string \<Rightarrow> string" where
  "validText s = concat (map fixRune (runes s))"

lemma rune_len_range: "rune_len s = 1 \<or> (rune_len s = 2 \<and> 2 \<le> length s) \<or> (rune_len s = 3 \<and> 3 \<le> length s) \<or> (rune_len s = 4 \<and> 4 \<le> length s)"
  by (simp add: rune_len_def Let_def)

lemma rune_len_two_iff:
  "rune_len (a # b # t) = 2 \<longleftrightarrow> \<not> (of_char a :: nat) < 0xC2 \<and> (of_char a :: nat) \<le> 0xDF \<and> cont_byte 0x80 0xBF b"
proof -
  define n :: nat where "n = of_char a"
  consider "n < 0xC2" | "\<not> n < 0xC2" "n \<le> 0xDF" | "\<not> n < 0xC2" "\<not> n \<le> 0xDF" by blast
  then show ?thesis by cases (simp_all add: rune_len_def Let_def n_def [symmetric])
qed

definition secondByte :: "nat \<Rightarrow> char \<Rightarrow> bool" where
  "secondByte n b =
     (if n = 0xE0 then cont_byte 0xA0 0xBF b else if n = 0xED then cont_byte 0x80 0x9F b
      else if n = 0xF0 then cont_byte 0x90 0xBF b else if n = 0xF4 then cont_byte 0x80 0x8F b else cont_byte 0x80 0xBF b)"

lemma secondByte_high: "secondByte n b \<Longrightarrow> 128 \<le> (of_char b :: nat)"
  by (simp add: secondByte_def cont_byte_def split: if_split_asm)

lemma rune_len_three_iff:
  "rune_len (a # b # c # t) = 3 \<longleftrightarrow> \<not> (of_char a :: nat) \<le> 0xDF \<and> (of_char a :: nat) \<le> 0xEF \<and> secondByte (of_char a) b \<and> cont_byte 0x80 0xBF c"
proof -
  define n :: nat where "n = of_char a"
  consider "n < 0xC2" | "\<not> n < 0xC2" "n \<le> 0xDF" | "n = 0xE0" | "n = 0xED" | "\<not> n \<le> 0xDF" "n \<noteq> 0xE0" "n \<noteq> 0xED" "n \<le> 0xEF" | "\<not> n \<le> 0xEF" by linarith
  then show ?thesis by cases (simp_all add: rune_len_def secondByte_def Let_def n_def [symmetric])
qed

lemma rune_len_four_iff:
  "rune_len (a # b # c # d # t) = 4 \<longleftrightarrow>
     \<not> (of_char a :: nat) \<le> 0xEF \<and> (of_char a :: nat) \<le> 0xF4 \<and> secondByte (of_char a) b \<and> cont_byte 0x80 0xBF c \<and> cont_byte 0x80 0xBF d"
proof -
  define n :: nat where "n = of_char a"
  consider "n < 0xC2" | "\<not> n < 0xC2" "n \<le> 0xDF" | "n = 0xE0" | "n = 0xED" | "\<not> n \<le> 0xDF" "n \<noteq> 0xE0" "n \<noteq> 0xED" "n \<le> 0xEF"
    | "n = 0xF0" | "\<not> n \<le> 0xF0" "n \<le> 0xF3" | "n = 0xF4" | "\<not> n \<le> 0xF4" by linarith
  then show ?thesis by cases (simp_all add: rune_len_def secondByte_def Let_def n_def [symmetric])
qed

lemma cont_byte_high: "cont_byte 0x80 hi c \<Longrightarrow> 128 \<le> (of_char c :: nat)"
  by (simp add: cont_byte_def)

text \<open>A rune of more than one byte: all its bytes are outside ASCII, and they determine its length.\<close>

lemma rune_len_cases:
  assumes "s \<noteq> []" "rune_len s \<noteq> 1"
  obtains (two) a b t where "s = a # b # t" "rune_len s = 2" "128 \<le> (of_char a :: nat)" "128 \<le> (of_char b :: nat)"
      "\<And>u. rune_len (a # b # u) = 2"
    | (three) a b c t where "s = a # b # c # t" "rune_len s = 3" "128 \<le> (of_char a :: nat)" "128 \<le> (of_char b :: nat)" "128 \<le> (of_char c :: nat)"
      "\<And>u. rune_len (a # b # c # u) = 3"
    | (four) a b c d t where "s = a # b # c # d # t" "rune_len s = 4" "128 \<le> (of_char a :: nat)" "128 \<le> (of_char b :: nat)"
      "128 \<le> (of_char c :: nat)" "128 \<le> (of_char d :: nat)" "\<And>u. rune_len (a # b # c # d # u) = 4"
proof -
  obtain a s1 where s: "s = a # s1" using assms(1) by (cases s) auto
  have lead: "\<not> (of_char a :: nat) < 0xC2" using assms(2) by (auto simp: s rune_len_def Let_def)
  consider "rune_len s = 2" "2 \<le> length s" | "rune_len s = 3" "3 \<le> length s" | "rune_len s = 4" "4 \<le> length s"
    using assms(2) rune_len_range [of s] by blast
  then show ?thesis
  proof cases
    case 1
    then obtain b t where t: "s = a # b # t" using s by (cases s1) auto
    have k: "cont_byte 0x80 0xBF b" "rune_len (a # b # u) = 2" for u using 1(1) unfolding t rune_len_two_iff by simp_all
    show ?thesis by (rule two [OF t 1(1) _ cont_byte_high [OF k(1)] k(2)]) (use lead in simp)
  next
    case 2
    then obtain b c t where t: "s = a # b # c # t" using s by (cases s1; cases "tl s1") auto
    have k: "secondByte (of_char a) b" "cont_byte 0x80 0xBF c" "rune_len (a # b # c # u) = 3" for u
      using 2(1) unfolding t rune_len_three_iff by simp_all
    show ?thesis by (rule three [OF t 2(1) _ secondByte_high [OF k(1)] cont_byte_high [OF k(2)] k(3)]) (use lead in simp)
  next
    case 3
    then obtain b c d t where t: "s = a # b # c # d # t" using s by (cases s1; cases "tl s1"; cases "tl (tl s1)") auto
    have k: "secondByte (of_char a) b" "cont_byte 0x80 0xBF c" "cont_byte 0x80 0xBF d" "rune_len (a # b # c # d # u) = 4" for u
      using 3(1) unfolding t rune_len_four_iff by simp_all
    show ?thesis by (rule four [OF t 3(1) _ secondByte_high [OF k(1)] cont_byte_high [OF k(2)] cont_byte_high [OF k(3)] k(4)]) (use lead in simp)
  qed
qed

text \<open>What \<open>runes\<close> returns: single bytes, and such runes.\<close>

definition isRune :: "string \<Rightarrow> bool" where
  "isRune r \<longleftrightarrow> length r = 1 \<or> (2 \<le> length r \<and> (\<forall>c \<in> set r. 128 \<le> (of_char c :: nat)) \<and> (\<forall>u. rune_len (r @ u) = length r))"

lemma isRune_front: "s \<noteq> [] \<Longrightarrow> isRune (take (rune_len s) s)"
proof (cases "rune_len s = 1")
  case False
  assume "s \<noteq> []"
  then show ?thesis using False by (rule rune_len_cases) (auto simp: isRune_def)
qed (cases s; auto simp: isRune_def)

lemma runes_isRune: "r \<in> set (runes s) \<Longrightarrow> isRune r"
proof (induction s rule: runes.induct)
  case (1 s)
  then show ?case using isRune_front [of s] by (subst (asm) (2) runes.simps) (auto split: if_splits)
qed

section \<open>String literals\<close>

text \<open>\<open>q\<close> is a way to write \<open>t\<close> inside a literal: the scanner takes it as it is, and \<open>unquote\<close> reads \<open>t\<close>.\<close>

definition writes :: "string \<Rightarrow> string \<Rightarrow> bool" where
  "writes q t \<longleftrightarrow> (\<forall>u. scanString (q @ u) = map_option (\<lambda>(b, r). (q @ b, r)) (scanString u) \<and> unquote (q @ u) = t @ unquote u)"

lemma writes_Nil: "writes [] []"
  by (simp add: writes_def option.map_id)

lemma writes_append: "writes q t \<Longrightarrow> writes q' t' \<Longrightarrow> writes (q @ q') (t @ t')"
  by (simp add: writes_def option.map_comp comp_def case_prod_unfold)

lemma writes_concat: "(\<And>r. r \<in> set rs \<Longrightarrow> writes (f r) (g r)) \<Longrightarrow> writes (concat (map f rs)) (concat (map g rs))"
  by (induction rs) (simp_all add: writes_Nil writes_append)

definition plainByte :: "char \<Rightarrow> bool" where
  "plainByte c \<longleftrightarrow> c \<noteq> CHR 0x22 \<and> c \<noteq> CHR 0x5C \<and> \<not> (of_char c :: nat) < 32"

lemma high_plain: "128 \<le> (of_char c :: nat) \<Longrightarrow> plainByte c"
  by (auto simp: plainByte_def)

lemma scanString_plain: "list_all plainByte q \<Longrightarrow> scanString (q @ u) = map_option (\<lambda>(b, r). (q @ b, r)) (scanString u)"
proof (induction q)
  case (Cons c q)
  then have "scanString (c # q @ u) = map_option (\<lambda>(b, r). (c # b, r)) (scanString (q @ u))"
    by (subst scanString.simps) (simp add: plainByte_def)
  then show ?case using Cons by (simp add: option.map_comp comp_def case_prod_unfold)
qed (simp add: option.map_id)

lemma writes_plain:
  assumes "r \<noteq> []" "list_all plainByte r" "\<And>u. rune_len (r @ u) = length r"
  shows "writes r (fixRune r)"
proof -
  have "hd r \<noteq> CHR 0x5C" using assms(1,2) by (cases r) (auto simp: plainByte_def)
  then have "unquote (r @ u) = fixRune r @ unquote u" for u
    using assms(1,3) by (subst unquote.simps) simp
  then show ?thesis using scanString_plain [OF assms(2)] by (simp add: writes_def)
qed

lemma writes_escape:
  assumes "e = CHR 0x22 \<or> e = CHR 0x5C \<or> e \<in> set ''bfnrt''"
  shows "writes [CHR 0x5C, e] [escapeByte e]"
proof -
  have e: "e \<noteq> CHR ''u''" using assms by auto
  have "escLen (CHR 0x5C # e # u) = 2" for u using assms e by (auto simp: escLen_def)
  then have "scanString (CHR 0x5C # e # u) = map_option (\<lambda>(b, r). (CHR 0x5C # e # b, r)) (scanString u)" for u
    by (subst scanString.simps) simp
  moreover have "unquote (CHR 0x5C # e # u) = escapeByte e # unquote u" for u
    using e by (subst unquote.simps) simp
  ultimately show ?thesis by (simp add: writes_def)
qed

lemma hex4_four: "hex4 (a # b # c # d # u) = hex4 [a, b, c, d]"
  by (simp add: hex4_def)

lemma hex4_digits: "hex4 [a, b, c, d] = Some n \<Longrightarrow> list_all (\<lambda>h. hex_value h \<noteq> None) [a, b, c, d]"
  by (auto simp: hex4_def split: option.splits)

lemma writes_hex:
  assumes "hex4 [a, b, c, d] = Some n" "\<not> isSurrogate n"
  shows "writes [CHR 0x5C, CHR ''u'', a, b, c, d] (utf8_encode n)"
proof -
  have "escLen (CHR 0x5C # CHR ''u'' # a # b # c # d # u) = 6" for u
    using hex4_digits [OF assms(1)] by (simp add: escLen_def)
  then have "scanString (CHR 0x5C # CHR ''u'' # a # b # c # d # u) =
      map_option (\<lambda>(s, r). (CHR 0x5C # CHR ''u'' # a # b # c # d # s, r)) (scanString u)" for u
    by (subst scanString.simps) simp
  moreover have "hex4 (a # b # c # d # u) = Some n" for u using hex4_four [of a b c d u] assms(1) by (rule trans)
  then have "unquote (CHR 0x5C # CHR ''u'' # a # b # c # d # u) = utf8_encode n @ unquote u" for u
    using assms(2) by (subst unquote.simps) simp
  ultimately show ?thesis by (simp add: writes_def)
qed

lemma writes_multibyte: "isRune r \<Longrightarrow> length r \<noteq> 1 \<Longrightarrow> writes r r"
  using writes_plain [of r] high_plain by (cases "r = []") (auto simp: isRune_def list_all_iff fixRune_def)

lemma writes_separator:
  "writes ([CHR 0x5C] @ ''u2028'') [CHR 0xE2, CHR 0x80, CHR 0xA8]" "writes ([CHR 0x5C] @ ''u2029'') [CHR 0xE2, CHR 0x80, CHR 0xA9]"
  "writes ([CHR 0x5C] @ ''ufffd'') replacement"
proof -
  have h: "hex4 ''2028'' = Some 0x2028" "hex4 ''2029'' = Some 0x2029" "hex4 ''fffd'' = Some 0xFFFD"
    by (simp_all add: hex4_def hex_value_def)
  have e: "utf8_encode 0x2028 = [CHR 0xE2, CHR 0x80, CHR 0xA8]" "utf8_encode 0x2029 = [CHR 0xE2, CHR 0x80, CHR 0xA9]"
    "utf8_encode 0xFFFD = [CHR 0xEF, CHR 0xBF, CHR 0xBD]" by (simp_all add: utf8_encode_def char_of_def bit_Suc_0_iff)
  show "writes ([CHR 0x5C] @ ''u2028'') [CHR 0xE2, CHR 0x80, CHR 0xA8]" "writes ([CHR 0x5C] @ ''u2029'') [CHR 0xE2, CHR 0x80, CHR 0xA9]"
    "writes ([CHR 0x5C] @ ''ufffd'') replacement"
    using writes_hex [OF h(1)] writes_hex [OF h(2)] writes_hex [OF h(3)]
    by (simp_all add: isSurrogate_def e replacement_def)
qed

lemma writes_hexByte:
  assumes "(of_char c :: nat) < 128"
  shows "writes ([CHR 0x5C, CHR ''u'', CHR ''0'', CHR ''0''] @ hexByte c) [c]"
proof -
  define b where "b = (of_char c :: nat)"
  have c: "c = char_of b" and b: "b < 128" using assms by (simp_all add: b_def)
  have "hex_value (hex_digit (b div 16)) = Some (b div 16)" "hex_value (hex_digit (b mod 16)) = Some (b mod 16)"
    using b by (auto intro!: hex_value_digit)
  then have "hex4 [CHR ''0'', CHR ''0'', hex_digit (b div 16), hex_digit (b mod 16)] = Some b"
    by (simp add: hex4_def hex_value_def)
  from writes_hex [OF this] b show ?thesis by (simp add: isSurrogate_def utf8_encode_def hexByte_def c)
qed

lemma writes_byte: "writes (quoteRune [c]) (fixRune [c])"
proof -
  define b where "b = (of_char c :: nat)"
  have c: "c = char_of b" by (simp add: b_def)
  let ?esc = "c = CHR 0x22 \<or> c = CHR 0x5C" and ?ctl = "b = 8 \<or> b = 12 \<or> b = 10 \<or> b = 13 \<or> b = 9" and ?uni = "b < 32 \<or> c \<in> set ''<>&''"
  consider (esc) ?esc | (ctl) ?ctl | (uni) "\<not> ?esc" "\<not> ?ctl" ?uni | (bad) "\<not> ?esc" "\<not> ?ctl" "\<not> ?uni" "128 \<le> b" | (plain) "\<not> ?esc" "\<not> ?ctl" "\<not> ?uni" "b < 128"
    by linarith
  then show ?thesis
  proof cases
    case esc
    then show ?thesis using writes_escape [of c] by (auto simp: quoteRune_def fixRune_def escapeByte_def)
  next
    case ctl
    have "char_of (8 :: nat) = CHR 0x08" "char_of (12 :: nat) = CHR 0x0C" "char_of (10 :: nat) = CHR 0x0A"
      "char_of (13 :: nat) = CHR 0x0D" "char_of (9 :: nat) = CHR 0x09" by code_simp+
    then consider "c = CHR 0x08" | "c = CHR 0x0C" | "c = CHR 0x0A" | "c = CHR 0x0D" | "c = CHR 0x09" using ctl c by metis
    then show ?thesis
      using writes_escape [of "CHR ''b''"] writes_escape [of "CHR ''f''"] writes_escape [of "CHR ''n''"] writes_escape [of "CHR ''r''"] writes_escape [of "CHR ''t''"]
      by cases (simp_all add: quoteRune_def fixRune_def escapeByte_def)
  next
    case uni
    then have "(of_char c :: nat) < 128" by (auto simp: b_def)
    moreover from uni have "quoteRune [c] = [CHR 0x5C, CHR ''u'', CHR ''0'', CHR ''0''] @ hexByte c" by (simp add: quoteRune_def b_def)
    ultimately show ?thesis using writes_hexByte [of c] by (simp add: fixRune_def)
  next
    case bad
    then show ?thesis using writes_separator(3) by (simp add: quoteRune_def fixRune_def b_def)
  next
    case plain
    then have "rune_len ([c] @ u) = length [c]" for u by (simp add: rune_len_def b_def)
    with plain show ?thesis using writes_plain [of "[c]"] by (simp add: quoteRune_def plainByte_def b_def)
  qed
qed

lemma writes_quoteRune: "isRune r \<Longrightarrow> writes (quoteRune r) (fixRune r)"
proof (cases "length r = 1")
  case True
  then obtain c where "r = [c]" by (cases r) auto
  then show ?thesis using writes_byte by simp
next
  case False
  assume "isRune r"
  then have "writes r r" using False by (rule writes_multibyte)
  then show ?thesis using False writes_separator(1,2) by (simp add: quoteRune_def fixRune_def)
qed

text \<open>A quoted string is one token, and it is read as the string.\<close>

definition quoteBody :: "string \<Rightarrow> string" where
  "quoteBody s = concat (map quoteRune (runes s))"

lemma writes_quoteBody: "writes (quoteBody s) (validText s)"
  unfolding quoteBody_def validText_def by (rule writes_concat) (rule writes_quoteRune [OF runes_isRune])

lemma unquote_quoteBody: "unquote (quoteBody s) = validText s"
  using writes_quoteBody [of s] unfolding writes_def by (metis append_Nil2 unquote.simps)

lemma scanString_quoteBody: "scanString (quoteBody s @ CHR 0x22 # u) = Some (quoteBody s, u)"
proof -
  have "scanString (CHR 0x22 # u) = Some ([], u)" by (subst scanString.simps) simp
  then show ?thesis using writes_quoteBody [of s] by (simp add: writes_def)
qed

lemma lex_quote: "lex_from w (quote s @ u) = map_option ((#) (w, TStr (quoteBody s))) (lex_from [] u)"
  unfolding quote_def quoteBody_def [symmetric]
  by (simp add: lex_from.simps(2) json_ws_def scanString_quoteBody)

lemma tok_raw_quoteBody: "CHR 0x22 # quoteBody s @ [CHR 0x22] = quote s"
  by (simp add: quote_def quoteBody_def)

section \<open>Values and objects\<close>

text \<open>
  \<open>reads d q v\<close>: wherever the text \<open>q\<close> stands in front of a byte that cannot continue a number, it is
  read as the value \<open>v\<close>, provided \<open>d\<close> more levels of nesting are allowed there.
\<close>

definition lexes :: "string \<Rightarrow> (string \<times> tok) list \<Rightarrow> bool" where
  "lexes q ts \<longleftrightarrow> (\<forall>u. (u \<noteq> [] \<longrightarrow> \<not> num_char (hd u)) \<longrightarrow> lex_from [] (q @ u) = map_option ((@) ts) (lex_from [] u))"

definition reads :: "nat \<Rightarrow> string \<Rightarrow> json \<Rightarrow> bool" where
  "reads d q v \<longleftrightarrow> (\<exists>ts. lexes q ts \<and> (\<forall>fs. length fs + d \<le> maxNestingDepth \<longrightarrow> runTokens (fs, XValue) ts = Some (finishValue v q fs)))"

lemma append_partial: "(@) (x # xs) = (\<lambda>zs. x # xs @ zs)" "(@) (ys @ xs) = (\<lambda>zs. ys @ xs @ zs)"
  by (rule ext, simp)+

lemma addRaw_Nil [simp]: "addRaw [] fs = fs"
  by (induction "[] :: string" fs rule: addRaw.induct) simp_all

lemma runTokens_append: "runTokens st (ts @ us) = Option.bind (runTokens st ts) (\<lambda>st'. runTokens st' us)"
proof (induction ts arbitrary: st)
  case (Cons t ts)
  then show ?case by (cases "stepToken st t") simp_all
qed simp

lemma punct_no_number: "c \<in> set ''{}[],:'' \<Longrightarrow> \<not> num_char c"
proof -
  have "list_all (\<lambda>c. \<not> num_char c) ''{}[],:''" by code_simp
  then show "c \<in> set ''{}[],:'' \<Longrightarrow> \<not> num_char c" by auto
qed

lemma lex_punct: "c \<in> set ''{}[],:'' \<Longrightarrow> lex_from w (c # u) = map_option ((#) (w, TPunct c)) (lex_from [] u)"
  by (auto simp: lex_from.simps(2) json_ws_def)

lemma lex_null: "lex_from w (''null'' @ u) = map_option ((#) (w, TLit ''null'')) (lex_from [] u)"
proof -
  have "\<not> num_char (CHR ''n'')" by code_simp
  then show ?thesis by (simp add: lex_from.simps(2) json_ws_def HasPrefix_def)
qed


lemma reads_quote: "reads d (quote s) (JStr (validText s))"
  unfolding reads_def lexes_def
  by (rule exI [of _ "[([], TStr (quoteBody s))]"])
    (auto simp: lex_quote append_partial unquote_quoteBody tok_raw_quoteBody)

lemma reads_null: "reads d ''null'' JNull"
  unfolding reads_def lexes_def
  by (rule exI [of _ "[([], TLit ''null'')]"]) (use lex_null [of "[]"] in \<open>auto simp: append_partial\<close>)

text \<open>A member of an object is given by the body of its key literal, the text of its value and the value.\<close>

definition literal :: "string \<Rightarrow> bool" where
  "literal b \<longleftrightarrow> (\<forall>u. scanString (b @ CHR 0x22 # u) = Some (b, u))"

lemma literal_quoteBody: "literal (quoteBody s)"
  by (simp add: literal_def scanString_quoteBody)

lemma lex_literal: "literal b \<Longrightarrow> lex_from w (CHR 0x22 # b @ CHR 0x22 # u) = map_option ((#) (w, TStr b)) (lex_from [] u)"
  by (simp add: lex_from.simps(2) json_ws_def literal_def)

definition memberText :: "string \<times> string \<times> json \<Rightarrow> string" where
  "memberText m = (case m of (b, q, v) \<Rightarrow> CHR 0x22 # b @ CHR 0x22 # CHR '':'' # q)"

definition memberValue :: "string \<times> string \<times> json \<Rightarrow> string \<times> string \<times> json" where
  "memberValue m = (case m of (b, q, v) \<Rightarrow> (unquote b, q, v))"

definition readsMember :: "nat \<Rightarrow> string \<times> string \<times> json \<Rightarrow> bool" where
  "readsMember d m = (case m of (b, q, v) \<Rightarrow> literal b \<and> reads d q v)"

lemma lexes_member:
  assumes "literal b" "lexes q ts" "c \<in> set ''{}[],:''"
  shows "lex_from [] (CHR 0x22 # b @ CHR 0x22 # CHR '':'' # q @ c # u) =
    map_option ((@) (([], TStr b) # ([], TPunct (CHR '':'')) # ts @ [([], TPunct c)])) (lex_from [] u)"
proof -
  have "lex_from [] (q @ c # u) = map_option ((@) (ts @ [([], TPunct c)])) (lex_from [] u)"
    using assms(2) punct_no_number [OF assms(3)] by (simp add: lexes_def lex_punct [OF assms(3)] option.map_comp comp_def append_partial)
  then show ?thesis by (simp add: lex_literal [OF assms(1)] lex_punct option.map_comp comp_def append_partial)
qed

lemma runTokens_member:
  assumes "\<And>fs. length fs + d \<le> maxNestingDepth \<Longrightarrow> runTokens (fs, XValue) ts = Some (finishValue v q fs)" "length fs + Suc d \<le> maxNestingDepth"
  shows "runTokens (FObj acc k0 r # fs, XKey) (([], TStr b) # ([], TPunct (CHR '':'')) # ts @ us) =
    runTokens (FObj (memberValue (b, q, v) # acc) (unquote b) (r @ memberText (b, q, v)) # fs, XSep) us"
  using assms by (simp add: runTokens_append memberValue_def memberText_def)

definition readsMembers :: "nat \<Rightarrow> string \<Rightarrow> (string \<times> string \<times> json) list \<Rightarrow> bool" where
  "readsMembers d q ms \<longleftrightarrow>
     (\<exists>b ts. (\<forall>u. lex_from [] (q @ u) = map_option ((@) (([], TStr b) # ts)) (lex_from [] u)) \<and>
        (\<forall>acc k r fs. length fs + Suc d \<le> maxNestingDepth \<longrightarrow>
           runTokens (FObj acc k r # fs, XKey) (([], TStr b) # ts) = Some (finishValue (JObj (rev acc @ ms)) (r @ q) fs)))"

lemma readsMemberE:
  assumes "readsMember d m"
  obtains b q v ts where "m = (b, q, v)" "literal b" "lexes q ts"
    "\<And>fs. length fs + d \<le> maxNestingDepth \<Longrightarrow> runTokens (fs, XValue) ts = Some (finishValue v q fs)"
  using assms by (cases m) (auto simp: readsMember_def reads_def)

lemma reads_last_member: "readsMember d m \<Longrightarrow> readsMembers d (memberText m @ ''}'') [memberValue m]"
proof (erule readsMemberE)
  fix b q v ts
  assume m: "m = (b, q, v)" "literal b" and ts: "lexes q ts"
    "\<And>fs. length fs + d \<le> maxNestingDepth \<Longrightarrow> runTokens (fs, XValue) ts = Some (finishValue v q fs)"
  show ?thesis unfolding readsMembers_def
    by (rule exI [of _ b], rule exI [of _ "([], TPunct (CHR '':'')) # ts @ [([], TPunct (CHR ''}''))]"])
      (simp add: m(1) memberText_def memberValue_def lexes_member [OF m(2) ts(1)] runTokens_member [OF ts(2)] del: runTokens.simps, simp)
qed

lemma reads_member: "readsMember d m \<Longrightarrow> readsMembers d p ms \<Longrightarrow> readsMembers d (memberText m @ '','' @ p) (memberValue m # ms)"
proof (erule readsMemberE)
  fix b q v ts
  assume m: "m = (b, q, v)" "literal b" and ts: "lexes q ts"
    "\<And>fs. length fs + d \<le> maxNestingDepth \<Longrightarrow> runTokens (fs, XValue) ts = Some (finishValue v q fs)"
  assume "readsMembers d p ms"
  then obtain b' us where us: "\<And>u. lex_from [] (p @ u) = map_option ((@) (([], TStr b') # us)) (lex_from [] u)"
    "\<And>acc k r fs. length fs + Suc d \<le> maxNestingDepth \<Longrightarrow>
       runTokens (FObj acc k r # fs, XKey) (([], TStr b') # us) = Some (finishValue (JObj (rev acc @ ms)) (r @ p) fs)"
    unfolding readsMembers_def by blast
  let ?ts = "([], TPunct (CHR '':'')) # ts @ ([], TPunct (CHR '','')) # ([], TStr b') # us"
  have "lex_from [] ((memberText m @ '','' @ p) @ u) = map_option ((@) (([], TStr b) # ?ts)) (lex_from [] u)" for u
    by (simp add: m(1) memberText_def lexes_member [OF m(2) ts(1)] us(1) option.map_comp comp_def append_partial)
  moreover have "runTokens (FObj acc k r # fs, XKey) (([], TStr b) # ?ts) =
      Some (finishValue (JObj (rev acc @ memberValue m # ms)) (r @ memberText m @ '','' @ p) fs)"
    if "length fs + Suc d \<le> maxNestingDepth" for acc k r fs
  proof -
    have "runTokens (FObj acc k r # fs, XKey) (([], TStr b) # ?ts) =
        runTokens (FObj (memberValue m # acc) (unquote b) (r @ memberText m @ '','') # fs, XKey) (([], TStr b') # us)"
      by (subst runTokens_member [OF ts(2) that], simp, subst runTokens.simps(2)) (simp add: m(1))
    then show ?thesis unfolding us(2) [OF that] by simp
  qed
  ultimately show ?thesis unfolding readsMembers_def by blast
qed

lemma reads_members: "ms \<noteq> [] \<Longrightarrow> \<forall>m \<in> set ms. readsMember d m \<Longrightarrow> readsMembers d (Join (map memberText ms) '','' @ ''}'') (map memberValue ms)"
proof (induction ms rule: induct_list012)
  case (2 m)
  then show ?case using reads_last_member by simp
next
  case (3 m m' ms)
  then have "readsMembers d (Join (map memberText (m' # ms)) '','' @ ''}'') (map memberValue (m' # ms))" by simp
  then show ?case using 3(4) reads_member [of d m "Join (map memberText (m' # ms)) '','' @ ''}''" "map memberValue (m' # ms)"] by simp
qed simp

lemma reads_object:
  assumes "ms \<noteq> []" "\<forall>m \<in> set ms. readsMember d m"
  shows "reads (Suc d) (''{'' @ Join (map memberText ms) '','' @ ''}'') (JObj (map memberValue ms))"
proof -
  obtain b ts where ts: "\<And>u. lex_from [] (Join (map memberText ms) '','' @ ''}'' @ u) = map_option ((@) (([], TStr b) # ts)) (lex_from [] u)"
    "\<And>acc k r fs. length fs + Suc d \<le> maxNestingDepth \<Longrightarrow> runTokens (FObj acc k r # fs, XKey) (([], TStr b) # ts) =
       Some (finishValue (JObj (rev acc @ map memberValue ms)) (r @ Join (map memberText ms) '','' @ ''}'') fs)"
    using reads_members [OF assms] unfolding readsMembers_def append_assoc by blast
  have "lexes (''{'' @ Join (map memberText ms) '','' @ ''}'') (([], TPunct (CHR ''{'')) # ([], TStr b) # ts)"
    unfolding lexes_def using ts(1) by (simp add: lex_punct option.map_comp comp_def append_partial)
  moreover have "runTokens (fs, XValue) (([], TPunct (CHR ''{'')) # ([], TStr b) # ts) =
      Some (finishValue (JObj (map memberValue ms)) (''{'' @ Join (map memberText ms) '','' @ ''}'') fs)" if "length fs + Suc d \<le> maxNestingDepth" for fs
    using ts(2) [of fs "[]" "[]" "''{''"] that by simp
  ultimately show ?thesis unfolding reads_def by blast
qed

text \<open>The objects the encoder writes, with every key quoted.\<close>

lemma reads_enc_obj:
  assumes "ms \<noteq> []" "\<forall>(k, q, v) \<in> set ms. reads d q v"
  shows "reads (Suc d) (enc_obj (map (\<lambda>(k, q, v). (k, q)) ms)) (JObj (map (\<lambda>(k, q, v). (validText k, q, v)) ms))"
proof -
  let ?cs = "map (\<lambda>(k, q, v). (quoteBody k, q, v)) ms"
  have "map (\<lambda>x. quote (fst x) @ CHR '':'' # fst (snd x)) ms = map (\<lambda>x. memberText (quoteBody (fst x), snd x)) ms"
    by (rule map_cong) (simp_all add: memberText_def quote_def quoteBody_def [symmetric] case_prod_unfold)
  then have "enc_obj (map (\<lambda>(k, q, v). (k, q)) ms) = ''{'' @ Join (map memberText ?cs) '','' @ ''}''"
    unfolding enc_obj_def by (simp add: comp_def case_prod_unfold del: map_eq_conv)
  moreover have "map memberValue ?cs = map (\<lambda>(k, q, v). (validText k, q, v)) ms"
    by (simp add: memberValue_def unquote_quoteBody case_prod_unfold)
  moreover have "reads (Suc d) (''{'' @ Join (map memberText ?cs) '','' @ ''}'') (JObj (map memberValue ?cs))"
    using assms by (intro reads_object) (auto simp: readsMember_def literal_quoteBody)
  ultimately show ?thesis by (simp only:)
qed

lemma parse_json_reads: "reads d q v \<Longrightarrow> d \<le> maxNestingDepth \<Longrightarrow> parse_json q = Some v"
proof -
  assume "reads d q v" "d \<le> maxNestingDepth"
  then obtain ts where "lexes q ts" "runTokens ([], XValue) ts = Some (finishValue v q [])" unfolding reads_def by force
  then show ?thesis by (auto simp: lexes_def parse_json_def lex_def dest!: spec [of _ "[]"])
qed

section \<open>Error responses\<close>

lemma reads_ptr: "reads d (enc_ptr p) (case p of None \<Rightarrow> JNull | Some s \<Rightarrow> JStr (validText s))"
  by (cases p) (simp_all add: enc_ptr_def reads_null reads_quote)

lemma ascii_runes: "list_all (\<lambda>c. (of_char c :: nat) < 128) s \<Longrightarrow> runes s = map (\<lambda>c. [c]) s"
proof (induction s)
  case (Cons c s)
  then have "rune_len (c # s) = 1" by (simp add: rune_len_def)
  then show ?case using Cons by (subst runes.simps) simp
qed (simp add: runes.simps)

lemma validText_ascii: "list_all (\<lambda>c. (of_char c :: nat) < 128) s \<Longrightarrow> validText s = s"
  by (simp add: validText_def ascii_runes, induction s) (simp_all add: fixRune_def)

text \<open>C34. Whatever bytes the message has, the error response of the gateway is a JSON text of exactly one object with
  the member \<open>error\<close>, in it the message, the type, the parameter (null without one) and a null code, in this order;
  strings are read back with invalid UTF-8 replaced by U+FFFD.\<close>

theorem error_response_readable:
  "parse_json (errorResponse message errorType param) =
     Some (JObj [(''error'', enc_obj [(''message'', quote message), (''type'', quote errorType), (''param'', enc_ptr param), (''code'', ''null'')],
       JObj [(''message'', quote message, JStr (validText message)), (''type'', quote errorType, JStr (validText errorType)),
         (''param'', enc_ptr param, case param of None \<Rightarrow> JNull | Some s \<Rightarrow> JStr (validText s)), (''code'', ''null'', JNull)])])"
proof -
  let ?ms = "[(''message'', quote message, JStr (validText message)), (''type'', quote errorType, JStr (validText errorType)),
     (''param'', enc_ptr param, case param of None \<Rightarrow> JNull | Some s \<Rightarrow> JStr (validText s)), (''code'', ''null'', JNull)]"
  have names: "validText ''error'' = ''error''" "validText ''message'' = ''message''" "validText ''type'' = ''type''"
    "validText ''param'' = ''param''" "validText ''code'' = ''code''"
    by (rule validText_ascii, simp)+
  have "reads 1 (enc_obj (map (\<lambda>(k, q, v). (k, q)) ?ms)) (JObj ?ms)"
    using reads_enc_obj [of ?ms 0] by (simp add: reads_quote reads_ptr reads_null names)
  then have "reads 2 (errorResponse message errorType param) (JObj [(''error'', enc_obj (map (\<lambda>(k, q, v). (k, q)) ?ms), JObj ?ms)])"
    using reads_enc_obj [of "[(''error'', enc_obj (map (\<lambda>(k, q, v). (k, q)) ?ms), JObj ?ms)]" 1]
    by (simp add: names errorResponse_def numeral_2_eq_2)
  from parse_json_reads [OF this] show ?thesis by (simp add: maxNestingDepth_def)
qed

end
