(* ===== verification/Json_Compact.thy ===== *)
theory Json_Compact
  imports Json_Laws
begin

text \<open>
  \<^verbatim>\<open>json.Compact\<close> keeps values: the bytes a parsed member was read from, written without white space and with the
  HTML characters escaped, are read as the same value again. First string literals, then tokens, then
  an invariant of the parser that remembers the compacted text of everything read so far.
\<close>

section \<open>Bodies of string literals\<close>

inductive lit :: "string \<Rightarrow> bool" where
  lit_Nil: "lit []"
| lit_plain: "plainByte c \<Longrightarrow> lit b \<Longrightarrow> lit (c # b)"
| lit_short: "e = CHR 0x22 \<or> e = CHR 0x5C \<or> e \<in> set ''/bfnrt'' \<Longrightarrow> lit b \<Longrightarrow> lit (CHR 0x5C # e # b)"
| lit_hex: "hex4 [x1, x2, x3, x4] = Some n \<Longrightarrow> lit b \<Longrightarrow> lit (CHR 0x5C # CHR ''u'' # x1 # x2 # x3 # x4 # b)"

lemma lit_plain_tail: "lit (c # b) \<Longrightarrow> plainByte c \<Longrightarrow> lit b"
  by (erule lit.cases) (auto simp: plainByte_def)

lemma lit_plain_drop: "lit (p @ b) \<Longrightarrow> list_all plainByte p \<Longrightarrow> lit b"
  by (induction p) (auto dest: lit_plain_tail)

lemma lit_plain_append: "list_all plainByte p \<Longrightarrow> lit b \<Longrightarrow> lit (p @ b)"
  by (induction p) (auto intro: lit_plain)

lemma hex4_Some: "(\<exists>n. hex4 [a, b, c, d] = Some n) \<longleftrightarrow> list_all (\<lambda>h. hex_value h \<noteq> None) [a, b, c, d]"
  using hex4_digits [of a b c d] by (auto simp: hex4_def)

lemma escLen_cases:
  assumes "escLen s \<noteq> 0" "hd s = CHR 0x5C" "s \<noteq> []"
  obtains (short) e t where "s = CHR 0x5C # e # t" "escLen s = 2" "e = CHR 0x22 \<or> e = CHR 0x5C \<or> e \<in> set ''/bfnrt''"
    | (hex) a b c d t n where "s = CHR 0x5C # CHR ''u'' # a # b # c # d # t" "escLen s = 6" "hex4 [a, b, c, d] = Some n"
proof (cases "take 1 (tl s) = ''u''")
  case True
  then have "6 \<le> length s" and l: "escLen s = 6" and h: "list_all (\<lambda>h. hex_value h \<noteq> None) (take 4 (drop 2 s))"
    using assms(1) by (auto simp: escLen_def split: if_splits)
  then obtain x y a b c d t where s: "s = x # y # a # b # c # d # t"
    by (auto simp: eval_nat_numeral Suc_le_length_iff)
  obtain n where "hex4 [a, b, c, d] = Some n" using h hex4_Some [of a b c d] by (auto simp: s)
  then show ?thesis using hex True assms(2) l by (simp add: s)
next
  case False
  then have "2 \<le> length s" and l: "escLen s = 2" and e: "s ! 1 = CHR 0x22 \<or> s ! 1 = CHR 0x5C \<or> s ! 1 \<in> set ''/bfnrt''"
    using assms(1) by (auto simp: escLen_def split: if_splits)
  then obtain x e t where s: "s = x # e # t" by (auto simp: eval_nat_numeral Suc_le_length_iff)
  show ?thesis using short [of e t] assms(2) e l by (simp add: s)
qed

lemma scanString_lit: "scanString s = Some (b, r) \<Longrightarrow> lit b \<and> s = b @ CHR 0x22 # r"
proof (induction s arbitrary: b rule: scanString.induct)
  case (1 s)
  have s: "s \<noteq> []" using 1(3) by (auto simp: scanString.simps [of "[]"])
  consider (quo) "hd s = CHR 0x22" | (esc) "hd s = CHR 0x5C" | (plain) "hd s \<noteq> CHR 0x22" "hd s \<noteq> CHR 0x5C" by blast
  then show ?case
  proof cases
    case quo
    then show ?thesis using 1(3) s by (subst (asm) scanString.simps) (cases s; auto simp: lit_Nil)
  next
    case esc
    then have e: "escLen s \<noteq> 0" and "\<exists>b'. b = take (escLen s) s @ b' \<and> scanString (drop (escLen s) s) = Some (b', r)"
      using 1(3) s by (subst (asm) scanString.simps; auto split: if_splits)+
    then obtain b' where b: "b = take (escLen s) s @ b'" "scanString (drop (escLen s) s) = Some (b', r)" by blast
    have "lit b' \<and> drop (escLen s) s = b' @ CHR 0x22 # r" using 1(1) [OF s _ esc e b(2)] esc by simp
    with e esc s show ?thesis
      by (rule_tac escLen_cases [OF e esc s]) (auto simp: b(1) intro: lit_short lit_hex)
  next
    case plain
    then have p: "\<not> (of_char (hd s) :: nat) < 32" and "\<exists>b'. b = hd s # b' \<and> scanString (tl s) = Some (b', r)"
      using 1(3) s by (subst (asm) scanString.simps; auto split: if_splits)+
    then obtain b' where b: "b = hd s # b'" "scanString (tl s) = Some (b', r)" by blast
    have "lit b' \<and> tl s = b' @ CHR 0x22 # r" by (rule 1(2) [OF s plain p b(2)])
    moreover have "plainByte (hd s)" using plain p by (simp add: plainByte_def)
    ultimately show ?thesis using b(1) s by (cases s) (auto intro: lit_plain)
  qed
qed

lemma scanString_hex:
  assumes "hex4 [x1, x2, x3, x4] = Some n"
  shows "scanString (CHR 0x5C # CHR ''u'' # x1 # x2 # x3 # x4 # u) =
    map_option (\<lambda>(b, r). (CHR 0x5C # CHR ''u'' # x1 # x2 # x3 # x4 # b, r)) (scanString u)"
proof -
  have "escLen (CHR 0x5C # CHR ''u'' # x1 # x2 # x3 # x4 # u) = 6" using hex4_digits [OF assms] by (simp add: escLen_def)
  then show ?thesis by (subst scanString.simps) simp
qed

lemma scanString_short:
  assumes "e = CHR 0x22 \<or> e = CHR 0x5C \<or> e \<in> set ''/bfnrt''"
  shows "scanString (CHR 0x5C # e # u) = map_option (\<lambda>(b, r). (CHR 0x5C # e # b, r)) (scanString u)"
proof -
  have "escLen (CHR 0x5C # e # u) = 2" using assms by (auto simp: escLen_def)
  then show ?thesis by (subst scanString.simps) simp
qed

lemma lit_literal: "lit b \<Longrightarrow> literal b"
proof (induction rule: lit.induct)
  case lit_Nil
  show ?case by (simp add: literal_def scanString.simps)
next
  case (lit_plain c b)
  then show ?case using scanString_plain [of "[c]"] by (simp add: literal_def)
qed (simp_all add: literal_def scanString_short scanString_hex)

section \<open>Escaping inside literals\<close>

definition escText :: "string \<Rightarrow> string" where
  "escText s = concat (map escRune (runes s))"

lemma escText_Nil [simp]: "escText [] = []"
  by (simp add: escText_def runes.simps)

lemma escText_front: "s \<noteq> [] \<Longrightarrow> escText s = escRune (take (rune_len s) s) @ escText (drop (rune_len s) s)"
  unfolding escText_def by (subst runes.simps) simp

definition ascii :: "char \<Rightarrow> bool" where
  "ascii c \<longleftrightarrow> (of_char c :: nat) < 128"

lemma rune_len_ascii: "ascii c \<Longrightarrow> rune_len (c # s) = 1"
  by (simp add: ascii_def rune_len_def)

lemma escText_ascii: "ascii c \<Longrightarrow> c \<notin> set ''<>&'' \<Longrightarrow> escText (c # s) = c # escText s"
  by (simp add: escText_front rune_len_ascii escRune_def)

lemma escText_ascii_append: "list_all (\<lambda>c. ascii c \<and> c \<notin> set ''<>&'') p \<Longrightarrow> escText (p @ s) = p @ escText s"
  by (induction p) (simp_all add: escText_ascii)

text \<open>A rune is kept, or written as a hexadecimal escape of itself.\<close>

lemma escRune_cases:
  obtains (keep) "escRune r = r"
    | (hex) x1 x2 x3 x4 n where "escRune r = [CHR 0x5C, CHR ''u'', x1, x2, x3, x4]" "hex4 [x1, x2, x3, x4] = Some n" "n < 0xD800"
        "utf8_encode n = r" "fixRune r = r"
proof -
  consider "escRune r = r" | "r = ''<''" | "r = ''>''" | "r = ''&''" | "r = [CHR 0xE2, CHR 0x80, CHR 0xA8]" | "r = [CHR 0xE2, CHR 0x80, CHR 0xA9]"
  proof (cases "length r = 3 \<and> take 2 r = [CHR 0xE2, CHR 0x80] \<and> (r ! 2 = CHR 0xA8 \<or> r ! 2 = CHR 0xA9)")
    case True
    then have "r = [CHR 0xE2, CHR 0x80, r ! 2]" by (auto simp: eval_nat_numeral length_Suc_conv)
    then show ?thesis using that True by metis
  next
    case False
    then have "escRune r = r" if "r \<notin> {''<'', ''>'', ''&''}" using that by (auto simp: escRune_def)
    then show ?thesis using that by blast
  qed
  then show ?thesis
  proof cases
    case 1 then show ?thesis by (rule keep)
  next
    case 2
    have "escRune ''<'' = CHR 0x5C # ''u003c''" "fixRune ''<'' = ''<''" by code_simp+
    then show ?thesis by (intro hex [of "CHR ''0''" "CHR ''0''" "CHR ''3''" "CHR ''c''" "0x3C"]) (simp_all add: 2 hex4_def hex_value_def utf8_encode_def char_of_def bit_Suc_0_iff)
  next
    case 3
    have "escRune ''>'' = CHR 0x5C # ''u003e''" "fixRune ''>'' = ''>''" by code_simp+
    then show ?thesis by (intro hex [of "CHR ''0''" "CHR ''0''" "CHR ''3''" "CHR ''e''" "0x3E"]) (simp_all add: 3 hex4_def hex_value_def utf8_encode_def char_of_def bit_Suc_0_iff)
  next
    case 4
    have "escRune ''&'' = CHR 0x5C # ''u0026''" "fixRune ''&'' = ''&''" by code_simp+
    then show ?thesis by (intro hex [of "CHR ''0''" "CHR ''0''" "CHR ''2''" "CHR ''6''" "0x26"]) (simp_all add: 4 hex4_def hex_value_def utf8_encode_def char_of_def bit_Suc_0_iff)
  next
    case 5
    have "escRune r = CHR 0x5C # ''u2028''" "fixRune r = r" by (simp_all add: 5 escRune_def quoteRune_def fixRune_def)
    then show ?thesis by (intro hex [of "CHR ''2''" "CHR ''0''" "CHR ''2''" "CHR ''8''" "0x2028"]) (simp_all add: 5 hex4_def hex_value_def utf8_encode_def char_of_def bit_Suc_0_iff)
  next
    case 6
    have "escRune r = CHR 0x5C # ''u2029''" "fixRune r = r" by (simp_all add: 6 escRune_def quoteRune_def fixRune_def)
    then show ?thesis by (intro hex [of "CHR ''2''" "CHR ''0''" "CHR ''2''" "CHR ''9''" "0x2029"]) (simp_all add: 6 hex4_def hex_value_def utf8_encode_def char_of_def bit_Suc_0_iff)
  qed
qed

text \<open>Text is split into runes in the same way when what follows is escaped or begins in ASCII.\<close>

lemma high_prefix:
  assumes "p @ y = q @ z" "\<forall>c \<in> set q. \<not> ascii c" "y = [] \<or> ascii (hd y)"
  obtains p' where "p = q @ p'"
proof -
  from assms(1) obtain us where us: "p = q @ us \<and> us @ y = z \<or> p @ us = q \<and> y = us @ z" by (auto simp: append_eq_append_conv2)
  have "us = []" if "p @ us = q" "y = us @ z" using assms(2,3) that by (cases us) auto
  then show ?thesis using us that by auto
qed

lemma rune_front:
  assumes "s \<noteq> []" "rune_len s \<noteq> 1"
  shows "\<forall>c \<in> set (take (rune_len s) s). \<not> ascii c" "rune_len (take (rune_len s) s @ u) = rune_len s"
    "length (take (rune_len s) s) = rune_len s"
proof -
  show l: "length (take (rune_len s) s) = rune_len s" using assms rune_len_range [of s] by auto
  show "\<forall>c \<in> set (take (rune_len s) s). \<not> ascii c" "rune_len (take (rune_len s) s @ u) = rune_len s"
    using isRune_front [OF assms(1)] l assms(2) unfolding isRune_def ascii_def by (auto simp: not_less)
qed

lemma rune_len_same:
  assumes "p \<noteq> []" "s = p @ x" "s' = p @ y" "rune_len s = 1" "y = [] \<or> ascii (hd y)"
  shows "rune_len s' = 1"
proof (rule ccontr)
  assume n: "rune_len s' \<noteq> 1"
  have ne: "s' \<noteq> []" using assms(1,3) by simp
  have "p @ y = take (rune_len s') s' @ drop (rune_len s') s'" unfolding append_take_drop_id by (rule assms(3) [symmetric])
  then obtain p' where "p = take (rune_len s') s' @ p'" using rune_front(1) [OF ne n] assms(5) by (rule high_prefix)
  then have "rune_len s = rune_len s'" using rune_front(2) [OF ne n, of "p' @ x"] assms(2) by simp
  then show False using n assms(4) by simp
qed

lemma rune_len_snoc: "s \<noteq> [] \<Longrightarrow> ascii c \<Longrightarrow> rune_len (s @ c # u) = rune_len s"
proof (cases "rune_len s = 1")
  case False
  assume ne: "s \<noteq> []"
  have e: "take (rune_len s) s @ drop (rune_len s) s @ c # u = s @ c # u" by (metis append.assoc append_take_drop_id)
  show ?thesis using rune_front(2) [OF ne False, of "drop (rune_len s) s @ c # u"] unfolding e .
qed (simp add: rune_len_same [of s s "[]"])

lemma runes_snoc: "ascii c \<Longrightarrow> runes (s @ [c]) = runes s @ [[c]]"
proof (induction s rule: runes.induct)
  case (1 s)
  show ?case
  proof (cases "s = []")
    case True
    then show ?thesis using 1(2) by (simp add: runes.simps rune_len_ascii)
  next
    case False
    have n: "rune_len (s @ [c]) = rune_len s" using rune_len_snoc [OF False 1(2), of "[]"] .
    have le: "rune_len s \<le> length s" using rune_len_range [of s] False by (cases s) auto
    show ?thesis using 1(1) [OF False 1(2)] False le by (subst (1 2) runes.simps) (simp add: n)
  qed
qed

lemma escText_snoc: "ascii c \<Longrightarrow> c \<notin> set ''<>&'' \<Longrightarrow> escText (s @ [c]) = escText s @ [c]"
  by (simp add: escText_def runes_snoc escRune_def)

lemma escText_prefix: "\<exists>p x y. t = p @ x \<and> escText t = p @ y \<and> (y = [] \<or> hd y = CHR 0x5C)"
proof (induction t rule: runes.induct)
  case (1 t)
  show ?case
  proof (cases "t = []")
    case False
    then obtain p x y where IH: "drop (rune_len t) t = p @ x" "escText (drop (rune_len t) t) = p @ y" "y = [] \<or> hd y = CHR 0x5C" using 1 by blast
    have t: "t = take (rune_len t) t @ p @ x" using IH(1) by (metis append_take_drop_id)
    show ?thesis
    proof (cases "take (rune_len t) t" rule: escRune_cases)
      case keep
      then have "escText t = (take (rune_len t) t @ p) @ y" using escText_front [OF False] IH(2) by simp
      then show ?thesis using t IH(3) by (metis append.assoc)
    next
      case hex
      then have "escText t = [] @ escText t \<and> hd (escText t) = CHR 0x5C" using escText_front [OF False] by simp
      then show ?thesis by (metis append_Nil)
    qed
  qed simp
qed

lemma rune_len_escText: "rune_len (a # t) = 1 \<Longrightarrow> rune_len (a # escText t) = 1"
proof -
  assume a: "rune_len (a # t) = 1"
  obtain p x y where "t = p @ x" "escText t = p @ y" "y = [] \<or> hd y = CHR 0x5C" using escText_prefix by blast
  then show ?thesis using rune_len_same [of "a # p" "a # t" x "a # escText t" y] a by (auto simp: ascii_def)
qed

text \<open>What follows a surrogate is still its second half, or still is not.\<close>

lemma hex_digit_ascii: "hex_value c \<noteq> None \<Longrightarrow> ascii c \<and> c \<notin> set ''<>&''"
  by (auto simp: hex_value_def ascii_def Let_def split: if_splits)

lemma escText_hex: "hex4 [x1, x2, x3, x4] = Some n \<Longrightarrow>
    escText (CHR 0x5C # CHR ''u'' # x1 # x2 # x3 # x4 # b) = CHR 0x5C # CHR ''u'' # x1 # x2 # x3 # x4 # escText b"
  using escText_ascii_append [of "[CHR 0x5C, CHR ''u'', x1, x2, x3, x4]" b] hex4_digits [of x1 x2 x3 x4 n] hex_digit_ascii
  by (simp add: ascii_def)

lemma escText_short: "e = CHR 0x22 \<or> e = CHR 0x5C \<or> e \<in> set ''/bfnrt'' \<Longrightarrow> escText (CHR 0x5C # e # b) = CHR 0x5C # e # escText b"
  using escText_ascii_append [of "[CHR 0x5C, e]" b] by (auto simp: ascii_def)

lemma lowHalf_other: "s \<noteq> [] \<Longrightarrow> hd s \<noteq> CHR 0x5C \<Longrightarrow> lowHalf s = None"
  by (cases s) (auto simp: lowHalf_def)

lemma lowHalf_hex: "hex4 [x1, x2, x3, x4] = Some n \<Longrightarrow>
    lowHalf (CHR 0x5C # CHR ''u'' # x1 # x2 # x3 # x4 # b) = (if 0xDC00 \<le> n \<and> n < 0xE000 then Some n else None)"
  using hex4_four [of x1 x2 x3 x4 b] by (simp add: lowHalf_def)

lemma lowHalf_escText:
  assumes "lit b"
  shows "lowHalf (escText b) = lowHalf b"
  using assms
proof (cases b rule: lit.cases)
  case (lit_plain c b')
  then have other: "lowHalf b = None" by (simp add: lowHalf_other plainByte_def)
  have ne: "b \<noteq> []" "hd b \<noteq> CHR 0x5C" "0 < rune_len b" using lit_plain rune_len_range [of b] by (auto simp: plainByte_def)
  show ?thesis
  proof (cases "take (rune_len b) b" rule: escRune_cases)
    case keep
    then have "escText b \<noteq> []" "hd (escText b) \<noteq> CHR 0x5C" using ne by (auto simp: escText_front [OF ne(1)])
    then show ?thesis using other by (simp add: lowHalf_other)
  next
    case hex
    then show ?thesis using other by (simp add: escText_front [OF ne(1)] lowHalf_hex)
  qed
next
  case (lit_short e b')
  have "e \<noteq> CHR ''u''" using lit_short(2) by auto
  then have "lowHalf (CHR 0x5C # e # u) = None" for u by (simp add: lowHalf_def)
  then show ?thesis by (simp only: lit_short(1) escText_short [OF lit_short(2)])
qed (simp_all add: lowHalf_hex escText_hex)

lemma unquote_Nil [simp]: "unquote [] = []"
  by (simp add: unquote.simps)

lemma unquote_short: "e \<noteq> CHR ''u'' \<Longrightarrow> unquote (CHR 0x5C # e # b) = escapeByte e # unquote b"
  by (subst unquote.simps) simp

lemma unquote_hex:
  assumes "hex4 [x1, x2, x3, x4] = Some n"
  shows "unquote (CHR 0x5C # CHR ''u'' # x1 # x2 # x3 # x4 # b) =
    (if isSurrogate n then
       (case (if n < 0xDC00 then lowHalf b else None) of
          Some m \<Rightarrow> utf8_encode (0x10000 + (n - 0xD800) * 1024 + (m - 0xDC00)) @ unquote (drop 6 b)
        | None \<Rightarrow> replacement @ unquote b)
     else utf8_encode n @ unquote b)"
  using hex4_four [of x1 x2 x3 x4 b] assms by (subst unquote.simps) (simp split: option.split)

lemma unquote_rune: "b \<noteq> [] \<Longrightarrow> hd b \<noteq> CHR 0x5C \<Longrightarrow> unquote b = fixRune (take (rune_len b) b) @ unquote (drop (rune_len b) b)"
  by (subst unquote.simps) simp

lemma lowHalfE:
  assumes "lowHalf b = Some m" "lit b"
  obtains x1 x2 x3 x4 b' where "b = CHR 0x5C # CHR ''u'' # x1 # x2 # x3 # x4 # b'" "hex4 [x1, x2, x3, x4] = Some m" "lit b'"
  using assms(2)
proof (cases b rule: lit.cases)
  case lit_Nil
  then show ?thesis using assms(1) by (simp add: lowHalf_def)
next
  case (lit_plain c b')
  then show ?thesis using assms(1) by (auto simp: lowHalf_def plainByte_def)
next
  case (lit_short e b')
  then show ?thesis using assms(1) by (auto simp: lowHalf_def)
next
  case (lit_hex x1 x2 x3 x4 n b')
  then show ?thesis using assms(1) that by (auto simp: lowHalf_hex split: if_splits)
qed

lemma rune_plain:
  assumes "lit (c # b)" "plainByte c"
  shows "list_all plainByte (take (rune_len (c # b)) (c # b))" "lit (drop (rune_len (c # b)) (c # b))"
proof -
  let ?s = "c # b"
  show p: "list_all plainByte (take (rune_len ?s) ?s)"
  proof (cases "rune_len ?s = 1")
    case False
    show ?thesis using rune_front(1) [OF _ False] high_plain by (auto simp: list_all_iff ascii_def not_less)
  qed (simp add: assms(2))
  show "lit (drop (rune_len ?s) ?s)"
    by (rule lit_plain_drop [OF _ p]) (simp only: append_take_drop_id assms(1))
qed

lemma rune_len_keep:
  assumes "s \<noteq> []"
  shows "rune_len (take (rune_len s) s @ escText (drop (rune_len s) s)) = rune_len s"
proof (cases "rune_len s = 1")
  case True
  then show ?thesis using assms rune_len_escText [of "hd s" "tl s"] by (cases s) simp_all
qed (use assms rune_front(2) in blast)

text \<open>Escaping the runes of a literal gives a literal with the same meaning.\<close>

lemma escText_lit: "lit b \<Longrightarrow> lit (escText b) \<and> unquote (escText b) = unquote b"
proof (induction b rule: measure_induct_rule [of length])
  case (less b)
  from less.prems show ?case
  proof (cases b rule: lit.cases)
    case lit_Nil
    then show ?thesis by (simp add: lit.lit_Nil)
  next
    case (lit_short e b')
    moreover have "e \<noteq> CHR ''u''" using lit_short(2) by auto
    ultimately show ?thesis using less.IH [of b'] by (simp add: escText_short unquote_short lit.lit_short del: set_simps)
  next
    case (lit_hex x1 x2 x3 x4 n b')
    have IH: "lit (escText b')" "unquote (escText b') = unquote b'" using less.IH [of b'] lit_hex by simp_all
    have "unquote (drop 6 (escText b')) = unquote (drop 6 b')" if "lowHalf b' = Some m" for m
      using that lit_hex(3) by (rule lowHalfE) (use less.IH lit_hex(1) in \<open>simp add: escText_hex\<close>)
    then show ?thesis using IH lit_hex
      by (auto simp: escText_hex unquote_hex lowHalf_escText intro: lit.lit_hex split: option.split)
  next
    case (lit_plain c b')
    let ?r = "take (rune_len b) b" and ?t = "drop (rune_len b) b"
    have ne: "b \<noteq> []" "hd b \<noteq> CHR 0x5C" "0 < rune_len b" using lit_plain rune_len_range [of b] by (auto simp: plainByte_def)
    have r: "list_all plainByte ?r" "lit ?t" using rune_plain [of c b'] less.prems lit_plain by simp_all
    have IH: "lit (escText ?t)" "unquote (escText ?t) = unquote ?t" using less.IH [of ?t] ne r(2) by auto
    show ?thesis
    proof (cases ?r rule: escRune_cases)
      case keep
      then have e: "escText b = ?r @ escText ?t" using escText_front [OF ne(1)] by simp
      have "length ?r = rune_len b" using ne rune_front(3) [of b] by (cases "rune_len b = 1") (cases b; auto)+
      moreover have "hd (?r @ escText ?t) \<noteq> CHR 0x5C" "?r @ escText ?t \<noteq> []" using ne by (cases b; auto simp: take_Cons')+
      ultimately have "unquote (escText b) = fixRune ?r @ unquote (escText ?t)"
        unfolding e by (subst unquote_rune) (simp_all add: rune_len_keep [OF ne(1)])
      then show ?thesis using unquote_rune [OF ne(1,2)] IH lit_plain_append [OF r(1) IH(1)] by (simp add: e)
    next
      case (hex x1 x2 x3 x4 n)
      then have e: "escText b = CHR 0x5C # CHR ''u'' # x1 # x2 # x3 # x4 # escText ?t" using escText_front [OF ne(1)] by simp
      then have "unquote (escText b) = ?r @ unquote ?t" using hex IH by (simp add: unquote_hex isSurrogate_def)
      then show ?thesis using unquote_rune [OF ne(1,2)] hex IH by (simp add: e lit.lit_hex)
    qed
  qed
qed

section \<open>Tokens\<close>

fun tokOk :: "tok \<Rightarrow> bool" where
  "tokOk (TLit l) = (l \<in> {''null'', ''true'', ''false''})"
| "tokOk (TNum n) = (n \<noteq> [] \<and> list_all num_char n \<and> validNumber n)"
| "tokOk (TStr b) = lit b"
| "tokOk (TPunct c) = (c \<in> set ''{}[],:'')"

definition tokensOk :: "(string \<times> tok) list \<Rightarrow> bool" where
  "tokensOk ts \<longleftrightarrow> (\<forall>(w, t) \<in> set ts. list_all json_ws w \<and> tokOk t)"

lemma tokensOk_simps [simp]: "tokensOk []" "tokensOk ((w, t) # ts) \<longleftrightarrow> list_all json_ws w \<and> tokOk t \<and> tokensOk ts"
  by (simp_all add: tokensOk_def)

lemma num_char_facts: "num_char c \<Longrightarrow> ascii c \<and> \<not> json_ws c \<and> c \<noteq> CHR 0x22 \<and> c \<notin> set ''{}[],:'' \<and> c \<notin> set ''<>&''"
  by (auto simp: num_char_def json_digit_def dec_value_def ascii_def json_ws_def Let_def split: if_splits)

lemma lex_token:
  assumes "lex_from w (c # s) = Some ts" "\<not> json_ws c"
  obtains (tok) t r us where "ts = (w, t) # us" "tokOk t" "length r \<le> length s" "lex_from [] r = Some us"
proof -
  have step: thesis if "map_option ((#) (w, t)) (lex_from [] r) = Some ts" "tokOk t" "length r \<le> length s" for t r
    using that tok by auto
  let ?n = "takeWhile num_char (c # s)"
  consider "c \<in> set ''{}[],:''" | "c \<notin> set ''{}[],:''" "c = CHR 0x22" | "c \<notin> set ''{}[],:''" "c \<noteq> CHR 0x22" "num_char c"
    | "c \<notin> set ''{}[],:''" "c \<noteq> CHR 0x22" "\<not> num_char c" by blast
  then show thesis
  proof cases
    case 1
    then have "lex_from w (c # s) = map_option ((#) (w, TPunct c)) (lex_from [] s)" by (rule lex_punct)
    then show thesis using assms(1) 1 by (intro step [of "TPunct c" s]) simp_all
  next
    case 2
    then obtain b r where b: "scanString s = Some (b, r)" "map_option ((#) (w, TStr b)) (lex_from [] r) = Some ts"
      using assms by (auto simp: lex_from.simps(2) split: option.splits)
    have "lit b" "length r < length s" using scanString_lit [OF b(1)] scanString_shorter [OF b(1)] by simp_all
    then show thesis by (intro step [OF b(2)]) simp_all
  next
    case 3
    then have "validNumber ?n" "map_option ((#) (w, TNum ?n)) (lex_from [] (dropWhile num_char s)) = Some ts"
      using assms by (auto simp: lex_from.simps(2) Let_def split: if_splits)
    then show thesis using 3 by (intro step) (auto simp: list_all_iff length_dropWhile_le dest: set_takeWhileD)
  next
    case 4
    then have "map_option ((#) (w, TLit ''null'')) (lex_from [] (drop 3 s)) = Some ts \<or> map_option ((#) (w, TLit ''true'')) (lex_from [] (drop 3 s)) = Some ts \<or>
        map_option ((#) (w, TLit ''false'')) (lex_from [] (drop 4 s)) = Some ts"
      using assms by (auto simp: lex_from.simps(2) split: if_splits)
    then show thesis by (auto intro: step)
  qed
qed

lemma lex_from_ok: "lex_from w s = Some ts \<Longrightarrow> list_all json_ws w \<Longrightarrow> tokensOk ts"
proof (induction s arbitrary: w ts rule: measure_induct_rule [of length])
  case (less s)
  show ?case
  proof (cases s)
    case Nil
    then show ?thesis using less.prems by simp
  next
    case (Cons c s')
    show ?thesis
    proof (cases "json_ws c")
      case True
      then have "lex_from (w @ [c]) s' = Some ts" using less.prems Cons by (simp add: lex_from.simps(2))
      then show ?thesis using less.IH [of s' "w @ [c]" ts] less.prems(2) True Cons by simp
    next
      case False
      from less.prems(1) [unfolded Cons] False show ?thesis
      proof (rule lex_token)
        fix t r us
        assume "ts = (w, t) # us" "tokOk t" "length r \<le> length s'" "lex_from [] r = Some us"
        then show "tokensOk ts" using less.IH [of r "[]" us] less.prems(2) Cons by simp
      qed
    qed
  qed
qed

text \<open>A token is read again from its text, a number only in front of something else.\<close>

definition endsNumber :: "string \<Rightarrow> bool" where
  "endsNumber u \<longleftrightarrow> (u \<noteq> [] \<longrightarrow> \<not> num_char (hd u))"

lemma lex_tok_raw:
  assumes "tokOk t" "endsNumber u \<or> (\<forall>n. t \<noteq> TNum n)"
  shows "lex_from w (tok_raw t @ u) = map_option ((#) (w, t)) (lex_from [] u)"
proof (cases t)
  case (TLit l)
  have "\<not> num_char CHR ''n''" "\<not> num_char CHR ''t''" "\<not> num_char CHR ''f''" by code_simp+
  then show ?thesis using assms(1) TLit by (auto simp: lex_from.simps(2) json_ws_def HasPrefix_def)
next
  case (TNum n)
  then obtain c n' where n: "n = c # n'" "num_char c" "list_all num_char n'" "validNumber n" using assms(1) by (cases n) auto
  have "takeWhile num_char (n' @ u) = n'" "dropWhile num_char (n' @ u) = u"
    using n(3) assms(2) TNum by (auto simp: list_all_iff endsNumber_def takeWhile_append dropWhile_append takeWhile_eq_Nil_iff dropWhile_eq_self_iff)
  then show ?thesis using n num_char_facts [OF n(2)] by (simp add: TNum lex_from.simps(2) del: set_simps)
next
  case (TStr b)
  then show ?thesis using assms(1) lex_literal [OF lit_literal] by simp
next
  case (TPunct c)
  then show ?thesis using assms(1) lex_punct by simp
qed


section \<open>Texts and their compacted tokens\<close>

definition compactToks :: "(string \<times> tok) list \<Rightarrow> string" where
  "compactToks ts = concat (map (\<lambda>(w, t). escText (tok_raw t)) ts)"

lemma compactToks_simps [simp]: "compactToks [] = []" "compactToks ((w, t) # ts) = escText (tok_raw t) @ compactToks ts"
  "compactToks (ts @ us) = compactToks ts @ compactToks us"
  by (simp_all add: compactToks_def)

lemma compact_eq: "compact raw = map_option compactToks (lex raw)"
  by (simp add: compact_def compactToks_def [abs_def] escText_def)

lemma escText_punct [simp]: "c \<in> set ''{}[],:'' \<Longrightarrow> escText [c] = [c]"
  by (auto simp: escText_ascii ascii_def)

text \<open>White space that was read moves into the next token.\<close>

fun prefixWs :: "string \<Rightarrow> (string \<times> tok) list \<Rightarrow> (string \<times> tok) list" where
  "prefixWs w [] = []"
| "prefixWs w ((w', t) # ts) = (w @ w', t) # ts"

lemma prefixWs_append: "us \<noteq> [] \<Longrightarrow> prefixWs w (us @ ts) = prefixWs w us @ ts"
  by (cases us rule: list.exhaust) auto

lemma compactToks_prefixWs [simp]: "compactToks (prefixWs w ts) = compactToks ts"
  by (cases "(w, ts)" rule: prefixWs.cases) auto

lemma lex_from_ws: "lex_from (w @ w') s = map_option (prefixWs w) (lex_from w' s)"
proof (induction w' s rule: lex_from.induct)
  case (2 w' c s)
  have tok: "map_option ((#) (w @ w', t)) x = map_option (prefixWs w) (map_option ((#) (w', t)) x)" for t x
    by (simp add: option.map_comp comp_def)
  show ?case
  proof (cases "json_ws c")
    case True
    then show ?thesis using 2(1) by (simp add: lex_from.simps(2))
  next
    case False
    then show ?thesis by (simp add: lex_from.simps(2) [of _ c s] tok Let_def del: set_simps split: option.split)
  qed
qed simp

lemma lex_from_space: "list_all json_ws w' \<Longrightarrow> lex_from w (w' @ u) = lex_from (w @ w') u"
  by (induction w' arbitrary: w) (simp_all add: lex_from.simps(2))

text \<open>\<open>lexPart q ts w\<close>: the text \<open>q\<close> has the tokens \<open>ts\<close> and then the white space \<open>w\<close>, whatever follows.\<close>

definition lexPart :: "string \<Rightarrow> (string \<times> tok) list \<Rightarrow> string \<Rightarrow> bool" where
  "lexPart q ts w \<longleftrightarrow> (\<forall>u. lex_from [] (q @ u) = map_option ((@) ts) (lex_from w u))"

lemma lexes_iff: "lexes q ts \<longleftrightarrow> (\<forall>u. endsNumber u \<longrightarrow> lex_from [] (q @ u) = map_option ((@) ts) (lex_from [] u))"
  by (simp add: lexes_def endsNumber_def)

lemma lexPart_Nil: "lexPart [] [] []"
  by (simp add: lexPart_def option.map_id0 append_Nil [abs_def] id_def [symmetric])

lemma lexPart_space: "lexPart q ts w \<Longrightarrow> list_all json_ws w' \<Longrightarrow> lexPart (q @ w') ts (w @ w')"
  by (simp add: lexPart_def lex_from_space)

lemma lexPart_token:
  "lexPart q ts w \<Longrightarrow> tokOk t \<Longrightarrow> (\<And>n. t \<noteq> TNum n) \<Longrightarrow> lexPart (q @ tok_raw t) (ts @ [(w, t)]) []"
  by (simp add: lexPart_def lex_tok_raw option.map_comp comp_def append_partial)

lemma lexes_value: "lexPart q ts w \<Longrightarrow> lexes r us \<Longrightarrow> us \<noteq> [] \<Longrightarrow> lexes (q @ r) (ts @ prefixWs w us)"
  using lex_from_ws [of w "[]"]
  by (auto simp: lexPart_def lexes_iff option.map_comp comp_def append_partial prefixWs_append)

lemma ws_no_number: "json_ws c \<Longrightarrow> \<not> num_char c"
  using num_char_facts by blast

lemma lexPart_punct:
  assumes "lexes q ts" "list_all json_ws w" "c \<in> set ''{}[],:''"
  shows "lexPart (q @ w @ [c]) (ts @ [(w, TPunct c)]) []"
proof -
  have "endsNumber (w @ c # u)" for u using assms(2) ws_no_number punct_no_number [OF assms(3)] by (cases w) (auto simp: endsNumber_def)
  then show ?thesis using assms(1,2)
    by (simp add: lexPart_def lexes_iff lex_from_space lex_punct [OF assms(3)] option.map_comp comp_def append_partial)
qed

lemma lexPart_lexes: "lexPart q ts [] \<Longrightarrow> lexes q ts"
  by (simp add: lexPart_def lexes_iff)

section \<open>Values up to their bytes\<close>

fun plain :: "json \<Rightarrow> json" where
  "plain (JArr es) = JArr (map (\<lambda>(_, v). ([], plain v)) es)"
| "plain (JObj ms) = JObj (map (\<lambda>(k, _, v). (k, [], plain v)) ms)"
| "plain v = v"

definition plainMember :: "string \<times> string \<times> json \<Rightarrow> string \<times> string \<times> json" where
  "plainMember m = (case m of (k, _, v) \<Rightarrow> (k, [], plain v))"

fun scalar :: "tok \<Rightarrow> json option" where
  "scalar (TLit l) = Some (if l = ''null'' then JNull else JBool (l = ''true''))"
| "scalar (TNum n) = Some (JNum n)"
| "scalar (TStr b) = Some (JStr (unquote b))"
| "scalar (TPunct c) = None"

lemma startValue_scalar: "scalar t = Some v \<Longrightarrow> startValue w t fs = Some (finishValue v (tok_raw t) (addRaw w fs))"
  by (cases t) auto

lemma lexes_token: "tokOk t \<Longrightarrow> lexes (tok_raw t) [([], t)]"
  by (simp add: lexes_iff lex_tok_raw append_partial)

lemma reads_scalar: "tokOk t \<Longrightarrow> scalar t = Some v \<Longrightarrow> reads d (tok_raw t) v"
  unfolding reads_def using lexes_token [of t] by (intro exI [of _ "[([], t)]"]) (simp add: startValue_scalar)

text \<open>\<open>good d r v\<close>: the text \<open>r\<close> is compacted to a text that is read as \<open>v\<close>, up to the bytes of its members.\<close>

definition good :: "nat \<Rightarrow> string \<Rightarrow> json \<Rightarrow> bool" where
  "good d r v \<longleftrightarrow> (\<exists>ts v'. lexes r ts \<and> ts \<noteq> [] \<and> reads d (compactToks ts) v' \<and> plain v' = plain v)"

lemma escText_number: "list_all num_char n \<Longrightarrow> escText n = n"
  using escText_ascii_append [of n "[]"] num_char_facts by (simp add: list_all_iff)

lemma escText_token:
  assumes "tokOk t" "scalar t = Some v"
  obtains t' where "escText (tok_raw t) = tok_raw t'" "tokOk t'" "scalar t' = Some v"
proof (cases t)
  case (TLit l)
  have "escText ''null'' = ''null''" "escText ''true'' = ''true''" "escText ''false'' = ''false''" by code_simp+
  then show ?thesis using that [of t] assms TLit by auto
next
  case (TNum n)
  then show ?thesis using that [of t] assms escText_number by simp
next
  case (TStr b)
  have "escText (CHR 0x22 # b @ [CHR 0x22]) = CHR 0x22 # escText b @ [CHR 0x22]" by (simp add: escText_ascii escText_snoc ascii_def)
  then show ?thesis using that [of "TStr (escText b)"] assms escText_lit [of b] TStr by simp
qed (use assms in simp)

lemma good_scalar: "tokOk t \<Longrightarrow> scalar t = Some v \<Longrightarrow> good d (tok_raw t) v"
proof -
  assume t: "tokOk t" "scalar t = Some v"
  then obtain t' where t': "escText (tok_raw t) = tok_raw t'" "tokOk t'" "scalar t' = Some v" by (rule escText_token)
  have "reads d (compactToks [([], t)]) v" using reads_scalar [OF t'(2,3)] t'(1) by simp
  then show ?thesis using lexes_token [OF t(1)] unfolding good_def by blast
qed

lemma good_compact: "good d r v \<Longrightarrow> \<exists>q v'. compact r = Some q \<and> reads d q v' \<and> plain v' = plain v"
proof -
  assume "good d r v"
  then obtain ts v' where g: "lexes r ts" "reads d (compactToks ts) v'" "plain v' = plain v" unfolding good_def by blast
  have "lex r = Some ts" using g(1) [unfolded lexes_iff, rule_format, of "[]"] by (simp add: lex_def endsNumber_def)
  then show ?thesis using g(2,3) by (auto simp: compact_eq)
qed

section \<open>Arrays, and empty arrays and objects\<close>

lemma reads_empty: "reads (Suc d) ''[]'' (JArr [])" "reads (Suc d) ''{}'' (JObj [])"
proof -
  have "lexes ''[]'' [([], TPunct CHR ''[''), ([], TPunct CHR '']'')]" "lexes ''{}'' [([], TPunct CHR ''{''), ([], TPunct CHR ''}'')]"
    by (simp_all add: lexes_iff lex_punct option.map_comp comp_def append_partial)
  then show "reads (Suc d) ''[]'' (JArr [])" "reads (Suc d) ''{}'' (JObj [])" by (auto simp: reads_def)
qed

definition readsElems :: "nat \<Rightarrow> string \<Rightarrow> (string \<times> json) list \<Rightarrow> bool" where
  "readsElems d q es \<longleftrightarrow>
     (\<exists>ts. (\<forall>u. lex_from [] (q @ u) = map_option ((@) ts) (lex_from [] u)) \<and>
        (\<forall>acc r fs. length fs + Suc d \<le> maxNestingDepth \<longrightarrow>
           runTokens (FArr acc r # fs, XValue) ts = Some (finishValue (JArr (rev acc @ es)) (r @ q) fs)))"

lemma lexes_elem: "lexes q ts \<Longrightarrow> c \<in> set ''{}[],:'' \<Longrightarrow> lex_from [] (q @ c # u) = map_option ((@) (ts @ [([], TPunct c)])) (lex_from [] u)"
  using lexPart_punct [of q ts "[]" c] by (simp add: lexPart_def)

lemma reads_last_elem: "reads d q v \<Longrightarrow> readsElems d (q @ '']'') [(q, v)]"
proof -
  assume "reads d q v"
  then obtain ts where ts: "lexes q ts" "\<And>fs. length fs + d \<le> maxNestingDepth \<Longrightarrow> runTokens (fs, XValue) ts = Some (finishValue v q fs)"
    unfolding reads_def by blast
  show ?thesis unfolding readsElems_def
    by (rule exI [of _ "ts @ [([], TPunct CHR '']'')]"]) (simp add: lexes_elem [OF ts(1)] runTokens_append ts(2))
qed

lemma reads_elem: "reads d q v \<Longrightarrow> readsElems d p es \<Longrightarrow> readsElems d (q @ '','' @ p) ((q, v) # es)"
proof -
  assume "reads d q v"
  then obtain ts where ts: "lexes q ts" "\<And>fs. length fs + d \<le> maxNestingDepth \<Longrightarrow> runTokens (fs, XValue) ts = Some (finishValue v q fs)"
    unfolding reads_def by blast
  assume "readsElems d p es"
  then obtain us where us: "\<And>u. lex_from [] (p @ u) = map_option ((@) us) (lex_from [] u)"
    "\<And>acc r fs. length fs + Suc d \<le> maxNestingDepth \<Longrightarrow> runTokens (FArr acc r # fs, XValue) us = Some (finishValue (JArr (rev acc @ es)) (r @ p) fs)"
    unfolding readsElems_def by blast
  show ?thesis unfolding readsElems_def
    by (rule exI [of _ "ts @ ([], TPunct CHR '','') # us"])
      (simp add: lexes_elem [OF ts(1)] runTokens_append ts(2) us option.map_comp comp_def append_partial)
qed

lemma reads_elems: "cs \<noteq> [] \<Longrightarrow> \<forall>(q, v) \<in> set cs. reads d q v \<Longrightarrow> readsElems d (Join (map fst cs) '','' @ '']'') cs"
proof (induction cs rule: induct_list012)
  case (2 c)
  then show ?case using reads_last_elem by (cases c) simp
next
  case (3 c c' cs)
  obtain q v where c: "c = (q, v)" by (cases c)
  have "readsElems d (Join (map fst (c' # cs)) '','' @ '']'') (c' # cs)" using 3(2,4) by simp
  then show ?case using 3(4) reads_elem [of d q v "Join (map fst (c' # cs)) '','' @ '']''" "c' # cs"] by (simp add: c)
qed simp

text \<open>Where a value was read, the first token did not close the array.\<close>

lemma runTokens_first: "runTokens (fs, XValue) ts = Some st \<Longrightarrow> ts \<noteq> [] \<Longrightarrow> runTokens (fs, XFirst) ts = Some st"
  by (cases ts) (auto split: Option.bind_splits if_splits)

lemma reads_array:
  assumes "cs \<noteq> []" "\<forall>(q, v) \<in> set cs. reads d q v"
  shows "reads (Suc d) (''['' @ Join (map fst cs) '','' @ '']'') (JArr cs)"
proof -
  obtain ts where ts: "\<And>u. lex_from [] (Join (map fst cs) '','' @ '']'' @ u) = map_option ((@) ts) (lex_from [] u)"
    "\<And>acc r fs. length fs + Suc d \<le> maxNestingDepth \<Longrightarrow>
       runTokens (FArr acc r # fs, XValue) ts = Some (finishValue (JArr (rev acc @ cs)) (r @ Join (map fst cs) '','' @ '']'') fs)"
    using reads_elems [OF assms] unfolding readsElems_def append_assoc by blast
  have "lexes (''['' @ Join (map fst cs) '','' @ '']'') (([], TPunct CHR ''['') # ts)"
    unfolding lexes_def using ts(1) by (simp add: lex_punct option.map_comp comp_def append_partial)
  moreover have "runTokens (fs, XValue) (([], TPunct CHR ''['') # ts) =
      Some (finishValue (JArr cs) (''['' @ Join (map fst cs) '','' @ '']'') fs)" if "length fs + Suc d \<le> maxNestingDepth" for fs
  proof -
    have r: "runTokens (FArr [] ''['' # fs, XValue) ts = Some (finishValue (JArr cs) (''['' @ Join (map fst cs) '','' @ '']'') fs)"
      using ts(2) [OF that, of "[]" "''[''"] by simp
    moreover have "ts \<noteq> []" using r by (cases fs; cases "hd fs") auto
    ultimately show ?thesis using runTokens_first that by simp
  qed
  ultimately show ?thesis unfolding reads_def by blast
qed

lemma Join_snoc: "Join (map f (cs @ [c])) '','' = concat (map (\<lambda>m. f m @ '','') cs) @ f c"
proof (induction cs)
  case (Cons c' cs)
  then show ?case by (cases cs) simp_all
qed simp


section \<open>Keys are valid text\<close>

definition validRune :: "string \<Rightarrow> bool" where
  "validRune r \<longleftrightarrow> r \<noteq> [] \<and> fixRune r = r \<and> (\<forall>u. rune_len (r @ u) = length r)"

lemma validText_rune: "validRune r \<Longrightarrow> validText (r @ s) = r @ validText s"
  unfolding validText_def validRune_def by (subst runes.simps) simp

lemma validRune_ascii: "ascii c \<Longrightarrow> validRune [c]"
  by (simp add: validRune_def fixRune_def rune_len_ascii) (simp add: ascii_def)

lemma validRune_long: "length r \<noteq> 1 \<Longrightarrow> r \<noteq> [] \<Longrightarrow> (\<And>u. rune_len (r @ u) = length r) \<Longrightarrow> validRune r"
  by (simp add: validRune_def fixRune_def)

lemma of_char_of_byte: "k < 256 \<Longrightarrow> (of_char (char_of k :: char) :: nat) = k"
  by simp

lemma div_between: "0 < d \<Longrightarrow> a * d \<le> n \<Longrightarrow> n < b * d \<Longrightarrow> a \<le> n div d \<and> n div d < (b :: nat)"
  by (simp add: less_eq_div_iff_mult_less_eq div_less_iff_less_mult)

lemma mod_64: "n mod 64 \<le> (63 :: nat)"
  using mod_less_divisor [of 64 n] by linarith

lemma utf8_two:
  assumes "0x80 \<le> n" "n < 0x800"
  shows "validRune (utf8_encode n)"
proof -
  have "rune_len (char_of (0xC0 + n div 64) # char_of (0x80 + n mod 64) # u) = 2" for u
  proof -
    have "2 \<le> n div 64" "n div 64 \<le> 31" "n mod 64 \<le> 63" using assms div_between [of 64 2 n 32] mod_64 [of n] by simp_all
    then show ?thesis unfolding rune_len_two_iff cont_byte_def by (simp add: of_char_of_byte)
  qed
  then show ?thesis using assms by (simp add: utf8_encode_def validRune_long)
qed

lemma secondByte_three:
  assumes "0x800 \<le> n" "n < 0x10000" "\<not> isSurrogate n"
  shows "secondByte (0xE0 + n div 4096) (char_of (0x80 + n div 64 mod 64))"
proof -
  define x y z where "x = n div 4096" and "y = n div 64 mod 64" and "z = n mod 64"
  have n: "n = 4096 * x + 64 * y + z" "z < 64" "y < 64" 
  proof -
    have "64 * (n div 64) + z = n" "64 * x + y = n div 64" unfolding x_def y_def z_def
      using div_mult2_eq [of n 64 64] by simp_all
    then show "n = 4096 * x + 64 * y + z" by linarith
    show "z < 64" "y < 64" by (simp_all add: y_def z_def)
  qed
  have "x = 0 \<Longrightarrow> 32 \<le> y" "x = 13 \<Longrightarrow> y < 32" "x < 16" using assms n by (auto simp: isSurrogate_def)
  then show ?thesis unfolding x_def [symmetric] y_def [symmetric] secondByte_def cont_byte_def using n(3) by (auto simp: of_char_of_byte)
qed

lemma utf8_three:
  assumes "0x800 \<le> n" "n < 0x10000" "\<not> isSurrogate n"
  shows "validRune (utf8_encode n)"
proof -
  have "rune_len (char_of (0xE0 + n div 4096) # char_of (0x80 + n div 64 mod 64) # char_of (0x80 + n mod 64) # u) = 3" for u
  proof -
    have "n div 4096 \<le> 15" "n mod 64 \<le> 63" using assms(2) div_between [of 4096 0 n 16] mod_64 [of n] by simp_all
    then show ?thesis unfolding rune_len_three_iff using secondByte_three [OF assms] by (simp add: of_char_of_byte cont_byte_def)
  qed
  then show ?thesis using assms by (simp add: utf8_encode_def validRune_long)
qed

lemma utf8_four:
  assumes "0x10000 \<le> n" "n < 0x110000"
  shows "validRune (utf8_encode n)"
proof -
  define x y where "x = n div 262144" and "y = n div 4096 mod 64"
  have n: "n div 4096 = 64 * x + y" "y < 64" unfolding x_def y_def by (simp_all add: div_mult2_eq [of n 4096 64, simplified])
  have b: "16 \<le> n div 4096" "n div 4096 < 272" using assms div_between [of 4096 16 n 272] by simp_all
  have x: "x \<le> 4" "x = 0 \<Longrightarrow> 16 \<le> y" "x = 4 \<Longrightarrow> y < 16" using n b by auto
  then have second: "secondByte (0xF0 + x) (char_of (0x80 + y))" unfolding secondByte_def cont_byte_def using n(2) by (auto simp: of_char_of_byte)
  have "rune_len (char_of (0xF0 + x) # char_of (0x80 + y) # char_of (0x80 + n div 64 mod 64) # char_of (0x80 + n mod 64) # u) = 4" for u
  proof -
    have "n mod 64 \<le> 63" "n div 64 mod 64 \<le> 63" by (rule mod_64)+
    then show ?thesis unfolding rune_len_four_iff using x(1) second by (simp add: of_char_of_byte cont_byte_def)
  qed
  then show ?thesis using assms by (simp add: utf8_encode_def validRune_long x_def y_def)
qed

lemma utf8_valid:
  assumes "\<not> isSurrogate n" "n < 0x110000"
  shows "validRune (utf8_encode n)"
proof -
  consider "n < 0x80" | "0x80 \<le> n" "n < 0x800" | "0x800 \<le> n" "n < 0x10000" | "0x10000 \<le> n" by linarith
  then show ?thesis
  proof cases
    case 1
    then show ?thesis by (simp add: utf8_encode_def validRune_ascii ascii_def)
  next
    case 2
    then show ?thesis by (rule utf8_two)
  next
    case 3
    then show ?thesis using assms(1) by (rule utf8_three)
  next
    case 4
    then show ?thesis using assms(2) by (rule utf8_four)
  qed
qed

lemma replacement_valid: "validRune replacement"
proof -
  have "utf8_encode 0xFFFD = replacement" by (simp add: utf8_encode_def replacement_def char_of_def bit_Suc_0_iff)
  then show ?thesis using utf8_valid [of "0xFFFD"] by (simp add: isSurrogate_def)
qed

lemma fixRune_valid:
  assumes "s \<noteq> []"
  shows "validRune (fixRune (take (rune_len s) s))"
proof (cases "rune_len s = 1")
  case True
  then show ?thesis using assms replacement_valid validRune_ascii [of "hd s"] by (cases s) (auto simp: fixRune_def ascii_def)
next
  case False
  then have "fixRune (take (rune_len s) s) = take (rune_len s) s" using rune_front(3) [OF assms False] by (simp add: fixRune_def)
  then show ?thesis using rune_front [OF assms False] False assms validRune_long [of "take (rune_len s) s"] by auto
qed

lemma hex4_bound: "hex4 [a, b, c, d] = Some n \<Longrightarrow> n < 0x10000"
proof -
  have h: "hex_value x = Some k \<Longrightarrow> k < 16" for x k by (auto simp: hex_value_def Let_def split: if_splits)
  assume "hex4 [a, b, c, d] = Some n"
  then obtain k1 k2 k3 k4 where "hex_value a = Some k1" "hex_value b = Some k2" "hex_value c = Some k3" "hex_value d = Some k4"
      and n: "n = 4096 * k1 + 256 * k2 + 16 * k3 + k4"
    by (auto simp: hex4_def split: option.splits)
  then have "k1 < 16" "k2 < 16" "k3 < 16" "k4 < 16" using h by blast+
  then show ?thesis using n by simp
qed

lemma validText_unquote: "lit b \<Longrightarrow> validText (unquote b) = unquote b"
proof (induction b rule: measure_induct_rule [of length])
  case (less b)
  from less.prems show ?case
  proof (cases b rule: lit.cases)
    case lit_Nil
    then show ?thesis by (simp add: validText_def runes.simps)
  next
    case (lit_short e b')
    have "list_all (\<lambda>e. e \<noteq> CHR ''u'' \<and> ascii (escapeByte e)) (CHR 0x22 # CHR 0x5C # ''/bfnrt'')" by code_simp
    then have "e \<noteq> CHR ''u''" "ascii (escapeByte e)" using lit_short(2) by auto
    then show ?thesis using less.IH [of b'] lit_short validText_rune [OF validRune_ascii, of "escapeByte e"] by (simp add: unquote_short del: set_simps)
  next
    case (lit_hex x1 x2 x3 x4 n b')
    have n: "n < 0x10000" using lit_hex(2) by (rule hex4_bound)
    have IH: "validText (unquote b') = unquote b'" using less.IH [of b'] lit_hex by simp
    have pair: "validText (unquote (drop 6 b')) = unquote (drop 6 b') \<and> m < 0xE000 \<and> 0xDC00 \<le> m" if "lowHalf b' = Some m" for m
      using that lit_hex(3)
    proof (rule lowHalfE)
      fix y1 y2 y3 y4 b2
      assume b': "b' = CHR 0x5C # CHR ''u'' # y1 # y2 # y3 # y4 # b2" "hex4 [y1, y2, y3, y4] = Some m" "lit b2"
      have "0xDC00 \<le> m \<and> m < 0xE000" using that unfolding b'(1) lowHalf_hex [OF b'(2)] by (simp split: if_splits)
      then show ?thesis using less.IH [of b2] b'(1,3) lit_hex(1) by simp
    qed
    have "validRune (utf8_encode (0x10000 + (n - 0xD800) * 1024 + (m - 0xDC00)))" if "lowHalf b' = Some m" "n < 0xDC00" for m
      using pair [OF that(1)] that(2) by (intro utf8_valid) (auto simp: isSurrogate_def)
    then show ?thesis using IH pair n
      by (auto simp: lit_hex unquote_hex validText_rune replacement_valid utf8_valid split: option.split)
  next
    case (lit_plain c b')
    let ?r = "take (rune_len b) b" and ?t = "drop (rune_len b) b"
    have ne: "b \<noteq> []" "hd b \<noteq> CHR 0x5C" "0 < rune_len b" using lit_plain rune_len_range [of b] by (auto simp: plainByte_def)
    have "lit ?t" using rune_plain [of c b'] less.prems lit_plain by simp
    then have "validText (unquote ?t) = unquote ?t" using less.IH [of ?t] ne by auto
    then show ?thesis using unquote_rune [OF ne(1,2)] validText_rune [OF fixRune_valid [OF ne(1)]] by simp
  qed
qed

section \<open>An invariant of the parser\<close>

text \<open>
  For an open array or object with \<open>n\<close> others below it: the elements read so far have compacted texts,
  and the tokens read since it was opened compact to the opening bracket and these texts.
\<close>

definition elemsGood :: "nat \<Rightarrow> (string \<times> json) list \<Rightarrow> (string \<times> json) list \<Rightarrow> bool" where
  "elemsGood n es cs \<longleftrightarrow> n < maxNestingDepth \<and> (\<forall>(q, v) \<in> set cs. reads (maxNestingDepth - Suc n) q v) \<and>
     map (\<lambda>(_, v). ([] :: string, plain v)) cs = map (\<lambda>(_, v). ([], plain v)) (rev es)"

definition membersGood :: "nat \<Rightarrow> (string \<times> string \<times> json) list \<Rightarrow> (string \<times> string \<times> json) list \<Rightarrow> bool" where
  "membersGood n ms cs \<longleftrightarrow> n < maxNestingDepth \<and> (\<forall>m \<in> set cs. readsMember (maxNestingDepth - Suc n) m) \<and>
     (\<forall>(k, r, v) \<in> set ms. validText k = k \<and> good (maxNestingDepth - Suc n) r v) \<and>
     map (\<lambda>m. plainMember (memberValue m)) cs = map plainMember (rev ms)"

definition arrOpen :: "nat \<Rightarrow> (string \<times> json) list \<Rightarrow> string \<Rightarrow> string \<Rightarrow> bool" where
  "arrOpen n es r w \<longleftrightarrow> (\<exists>ts cs. elemsGood n es cs \<and> lexPart r ts w \<and> compactToks ts = ''['' @ concat (map (\<lambda>c. fst c @ '','') cs))"

definition arrSep :: "nat \<Rightarrow> (string \<times> json) list \<Rightarrow> string \<Rightarrow> bool" where
  "arrSep n es r \<longleftrightarrow> (\<exists>ts cs. elemsGood n es cs \<and> cs \<noteq> [] \<and> lexes r ts \<and> compactToks ts = ''['' @ Join (map fst cs) '','')"

definition objOpen :: "nat \<Rightarrow> (string \<times> string \<times> json) list \<Rightarrow> string \<Rightarrow> bool" where
  "objOpen n ms r \<longleftrightarrow> (\<exists>ts cs. membersGood n ms cs \<and> lexPart r ts [] \<and> compactToks ts = ''{'' @ concat (map (\<lambda>c. memberText c @ '','') cs))"

definition objKey :: "string \<Rightarrow> nat \<Rightarrow> (string \<times> string \<times> json) list \<Rightarrow> string \<Rightarrow> string \<Rightarrow> string \<Rightarrow> bool" where
  "objKey sep n ms k r w \<longleftrightarrow> validText k = k \<and>
     (\<exists>ts cs b. membersGood n ms cs \<and> literal b \<and> unquote b = k \<and> lexPart r ts w \<and>
        compactToks ts = ''{'' @ concat (map (\<lambda>c. memberText c @ '','') cs) @ [CHR 0x22] @ b @ [CHR 0x22] @ sep)"

definition objSep :: "nat \<Rightarrow> (string \<times> string \<times> json) list \<Rightarrow> string \<Rightarrow> bool" where
  "objSep n ms r \<longleftrightarrow> (\<exists>ts cs. membersGood n ms cs \<and> cs \<noteq> [] \<and> lexes r ts \<and> compactToks ts = ''{'' @ Join (map memberText cs) '','')"

text \<open>A frame that waits for a value, after the white space \<open>w\<close>.\<close>

fun pending :: "nat \<Rightarrow> frame \<Rightarrow> string \<Rightarrow> bool" where
  "pending n (FArr es r) w = arrOpen n es r w"
| "pending n (FObj ms k r) w = objKey '':'' n ms k r w"

fun pendings :: "frame list \<Rightarrow> bool" where
  "pendings [] = True"
| "pendings (f # fs) = ((\<exists>w. pending (length fs) f w) \<and> pendings fs)"

fun awaiting :: "frame list \<Rightarrow> bool" where
  "awaiting [] = True"
| "awaiting (f # fs) = (pending (length fs) f [] \<and> pendings fs)"

definition topGood :: "json \<Rightarrow> bool" where
  "topGood v = (case v of JObj ms \<Rightarrow> \<forall>(k, r, v) \<in> set ms. validText k = k \<and> good (maxNestingDepth - 1) r v | _ \<Rightarrow> True)"

fun stateGood :: "frame list \<times> expect \<Rightarrow> bool" where
  "stateGood (fs, XValue) = awaiting fs"
| "stateGood (FArr es r # fs, XFirst) = (es = [] \<and> awaiting (FArr es r # fs))"
| "stateGood (FArr es r # fs, XSep) = (arrSep (length fs) es r \<and> pendings fs)"
| "stateGood (FObj ms k r # fs, XFirstKey) = (ms = [] \<and> objOpen (length fs) ms r \<and> pendings fs)"
| "stateGood (FObj ms k r # fs, XKey) = (objOpen (length fs) ms r \<and> pendings fs)"
| "stateGood (FObj ms k r # fs, XColon) = (objKey [] (length fs) ms k r [] \<and> pendings fs)"
| "stateGood (FObj ms k r # fs, XSep) = (objSep (length fs) ms r \<and> pendings fs)"
| "stateGood ([], XEnd v) = topGood v"
| "stateGood _ = False"

lemma length_addRaw [simp]: "length (addRaw w fs) = length fs"
  by (cases "(w, fs)" rule: addRaw.cases) auto

lemma pendings_addRaw:
  assumes "awaiting fs" "list_all json_ws w"
  shows "pendings (addRaw w fs)"
proof (cases fs)
  case (Cons f fs')
  show ?thesis
  proof (cases f)
    case (FArr es r)
    have "arrOpen (length fs') es (r @ w) w" using assms lexPart_space [of r _ "[]" w] by (auto simp: Cons FArr arrOpen_def)
    then show ?thesis using assms(1) by (auto simp: Cons FArr)
  next
    case (FObj ms k r)
    have "objKey '':'' (length fs') ms k (r @ w) w" using assms lexPart_space [of r _ "[]" w] by (fastforce simp: Cons FObj objKey_def)
    then show ?thesis using assms(1) by (auto simp: Cons FObj)
  qed
qed simp

text \<open>A value has been read.\<close>

lemma arr_value:
  assumes "arrOpen n es r w" "good (maxNestingDepth - Suc n) q v"
  shows "arrSep n ((q, v) # es) (r @ q)"
proof -
  obtain ts cs where a: "elemsGood n es cs" "lexPart r ts w" "compactToks ts = ''['' @ concat (map (\<lambda>c. fst c @ '','') cs)"
    using assms(1) unfolding arrOpen_def by blast
  obtain us v' where g: "lexes q us" "us \<noteq> []" "reads (maxNestingDepth - Suc n) (compactToks us) v'" "plain v' = plain v"
    using assms(2) unfolding good_def by blast
  have "elemsGood n ((q, v) # es) (cs @ [(compactToks us, v')])" using a(1) g by (simp add: elemsGood_def)
  moreover have "compactToks (ts @ prefixWs w us) = ''['' @ Join (map fst (cs @ [(compactToks us, v')])) '',''"
    unfolding Join_snoc using a(3) by simp
  ultimately show ?thesis using lexes_value [OF a(2) g(1,2)] unfolding arrSep_def by blast
qed

lemma obj_value:
  assumes "objKey '':'' n ms k r w" "good (maxNestingDepth - Suc n) q v"
  shows "objSep n ((k, q, v) # ms) (r @ q)"
proof -
  obtain ts cs b where a: "membersGood n ms cs" "literal b" "unquote b = k" "lexPart r ts w" "validText k = k"
    "compactToks ts = ''{'' @ concat (map (\<lambda>c. memberText c @ '','') cs) @ [CHR 0x22] @ b @ [CHR 0x22] @ '':''"
    using assms(1) unfolding objKey_def by blast
  obtain us v' where g: "lexes q us" "us \<noteq> []" "reads (maxNestingDepth - Suc n) (compactToks us) v'" "plain v' = plain v"
    using assms(2) unfolding good_def by blast
  have "membersGood n ((k, q, v) # ms) (cs @ [(b, compactToks us, v')])"
    using a g assms(2) by (simp add: membersGood_def readsMember_def plainMember_def memberValue_def)
  moreover have "compactToks (ts @ prefixWs w us) = ''{'' @ Join (map memberText (cs @ [(b, compactToks us, v')])) '',''"
    unfolding Join_snoc using a(6) by (simp add: memberText_def)
  ultimately show ?thesis using lexes_value [OF a(4) g(1,2)] unfolding objSep_def by blast
qed

lemma finishValue_good:
  assumes "pendings fs" "good (maxNestingDepth - length fs) q v" "fs = [] \<Longrightarrow> topGood v"
  shows "stateGood (finishValue v q fs)"
proof (cases fs)
  case (Cons f fs')
  then show ?thesis using assms(1,2) arr_value obj_value by (cases f) auto
qed (use assms(3) in simp)

text \<open>An array or object is closed.\<close>

lemma good_closed:
  assumes "lexes r ts" "list_all json_ws w" "c \<in> set ''{}[],:''" "reads d (compactToks ts @ [c]) v'" "plain v' = plain v"
  shows "good d (r @ w @ [c]) v"
proof -
  have "lexes (r @ w @ [c]) (ts @ [(w, TPunct c)])" using lexPart_punct [OF assms(1-3)] by (rule lexPart_lexes)
  moreover have "reads d (compactToks (ts @ [(w, TPunct c)])) v'" using assms(4) escText_punct [OF assms(3)] by simp
  ultimately show ?thesis using assms(5) unfolding good_def by blast
qed

lemma good_array:
  assumes "arrSep n es r \<or> es = [] \<and> arrOpen n es r []" "list_all json_ws w"
  shows "good (maxNestingDepth - n) (r @ w @ '']'') (JArr (rev es))"
proof -
  let ?d = "maxNestingDepth - Suc n"
  obtain ts cs where a: "elemsGood n es cs" "lexes r ts" "compactToks ts = ''['' @ Join (map fst cs) '',''"
    using assms(1) lexPart_lexes unfolding arrSep_def arrOpen_def by (fastforce simp: elemsGood_def)
  have d: "maxNestingDepth - n = Suc ?d" using a(1) by (simp add: elemsGood_def Suc_diff_Suc)
  have "reads (Suc ?d) (compactToks ts @ '']'') (JArr cs)"
    unfolding a(3) append_assoc using reads_array [of cs ?d] reads_empty(1) [of ?d] a(1) by (cases "cs = []") (auto simp: elemsGood_def)
  moreover have "plain (JArr cs) = plain (JArr (rev es))" using a(1) by (simp add: elemsGood_def)
  ultimately show ?thesis unfolding d using a(2) assms(2) by (intro good_closed [where v' = "JArr cs"]) simp_all
qed

lemma good_object:
  assumes "objSep n ms r \<or> ms = [] \<and> objOpen n ms r" "list_all json_ws w"
  shows "good (maxNestingDepth - n) (r @ w @ ''}'') (JObj (rev ms))" "n = 0 \<Longrightarrow> topGood (JObj (rev ms))"
proof -
  let ?d = "maxNestingDepth - Suc n"
  obtain ts cs where a: "membersGood n ms cs" "lexes r ts" "compactToks ts = ''{'' @ Join (map memberText cs) '',''"
    using assms(1) lexPart_lexes unfolding objSep_def objOpen_def by (fastforce simp: membersGood_def)
  have d: "maxNestingDepth - n = Suc ?d" using a(1) by (simp add: membersGood_def Suc_diff_Suc)
  have "reads (Suc ?d) (compactToks ts @ ''}'') (JObj (map memberValue cs))"
    unfolding a(3) append_assoc using reads_object [of cs ?d] reads_empty(2) [of ?d] a(1) by (cases "cs = []") (auto simp: membersGood_def)
  moreover have "plain (JObj (map memberValue cs)) = plain (JObj (rev ms))"
    using a(1) by (simp add: membersGood_def plainMember_def [abs_def] comp_def)
  ultimately show "good (maxNestingDepth - n) (r @ w @ ''}'') (JObj (rev ms))" 
    unfolding d using a(2) assms(2) by (intro good_closed [where v' = "JObj (map memberValue cs)"]) simp_all
  show "n = 0 \<Longrightarrow> topGood (JObj (rev ms))" using a(1) by (simp add: topGood_def membersGood_def)
qed

text \<open>The tokens of each state.\<close>

lemma lexPart_open: "c \<in> set ''{}[],:'' \<Longrightarrow> lexPart [c] [([], TPunct c)] []"
  using lexPart_token [OF lexPart_Nil, of "TPunct c"] by simp

lemma startValue_good:
  assumes "awaiting fs" "list_all json_ws w" "tokOk t" "startValue w t fs = Some st"
  shows "stateGood st"
proof (cases "scalar t")
  case (Some v)
  then have "st = finishValue v (tok_raw t) (addRaw w fs)" using assms(4) startValue_scalar [OF Some, of w fs] by simp
  moreover have "topGood v" using Some by (cases t) (auto simp: topGood_def)
  ultimately show ?thesis using finishValue_good [OF pendings_addRaw [OF assms(1,2)]] good_scalar [OF assms(3) Some] by simp
next
  case None
  then obtain c where t: "t = TPunct c" by (cases t) auto
  have n: "length fs < maxNestingDepth" using assms(4) by (auto simp: t split: if_splits)
  have "arrOpen (length fs) [] ''['' []" unfolding arrOpen_def
    by (rule exI [of _ "[([], TPunct CHR ''['')]"], rule exI [of _ "[]"]) (use n lexPart_open [of "CHR ''[''"] in \<open>simp add: elemsGood_def\<close>)
  moreover have "objOpen (length fs) [] ''{''" unfolding objOpen_def
    by (rule exI [of _ "[([], TPunct CHR ''{'')]"], rule exI [of _ "[]"]) (use n lexPart_open [of "CHR ''{''"] in \<open>simp add: membersGood_def\<close>)
  ultimately show ?thesis using assms(4) pendings_addRaw [OF assms(1,2)] by (auto simp: t split: if_splits)
qed

lemma keyToken_good:
  assumes "objOpen (length fs) ms r" "pendings fs" "list_all json_ws w" "tokOk t" "keyToken w t (FObj ms k r # fs) = Some st"
  shows "stateGood st"
proof -
  obtain b where t: "t = TStr b" and st: "st = (FObj ms (unquote b) (r @ w @ tok_raw t) # fs, XColon)" using assms(5) by (cases t) auto
  have b: "lit b" "lit (escText b)" "unquote (escText b) = unquote b" using assms(4) escText_lit [of b] by (simp_all add: t)
  obtain ts cs where a: "membersGood (length fs) ms cs" "lexPart r ts []" "compactToks ts = ''{'' @ concat (map (\<lambda>c. memberText c @ '','') cs)"
    using assms(1) unfolding objOpen_def by blast
  have "lexPart ((r @ w) @ tok_raw t) (ts @ [(w, t)]) []"
    using lexPart_space [OF a(2) assms(3)] assms(4) by (intro lexPart_token) (simp_all add: t)
  moreover have "compactToks (ts @ [(w, t)]) = ''{'' @ concat (map (\<lambda>c. memberText c @ '','') cs) @ [CHR 0x22] @ escText b @ [CHR 0x22] @ []"
    using a(3) by (simp add: t escText_ascii escText_snoc ascii_def)
  ultimately have "objKey [] (length fs) ms (unquote b) (r @ w @ tok_raw t) []"
    unfolding objKey_def using a(1) b lit_literal validText_unquote [OF b(1)] append.assoc by metis
  then show ?thesis using assms(2) by (simp add: st)
qed

lemma colon_good:
  assumes "objKey [] n ms k r []" "list_all json_ws w"
  shows "objKey '':'' n ms k (r @ w @ '':'') []"
proof -
  obtain ts cs b where a: "membersGood n ms cs" "literal b" "unquote b = k" "lexPart r ts []" "validText k = k"
    "compactToks ts = ''{'' @ concat (map (\<lambda>c. memberText c @ '','') cs) @ [CHR 0x22] @ b @ [CHR 0x22]"
    using assms(1) unfolding objKey_def append_Nil2 by blast
  have "lexPart (r @ w @ '':'') (ts @ [(w, TPunct CHR '':'')]) []" using lexPart_punct [OF lexPart_lexes [OF a(4)] assms(2)] by simp
  moreover have "compactToks (ts @ [(w, TPunct CHR '':'')]) = ''{'' @ concat (map (\<lambda>c. memberText c @ '','') cs) @ [CHR 0x22] @ b @ [CHR 0x22] @ '':''"
    using a(6) by simp
  ultimately show ?thesis unfolding objKey_def using a(1-3,5) by blast
qed

lemma Join_comma: "cs \<noteq> [] \<Longrightarrow> Join (map f cs) '','' @ '','' = concat (map (\<lambda>m. f m @ '','') cs)"
proof (cases cs rule: rev_cases)
  case (snoc ys y)
  show ?thesis unfolding snoc Join_snoc by simp
qed simp

lemma comma_good:
  assumes "list_all json_ws w"
  shows "arrSep n es r \<Longrightarrow> arrOpen n es (r @ w @ '','') []" "objSep n ms r \<Longrightarrow> objOpen n ms (r @ w @ '','')"
proof -
  have c: "lexPart (r @ w @ '','') (ts @ [(w, TPunct CHR '','')]) []" if "lexes r ts" for ts using lexPart_punct [OF that assms] by simp
  show "arrOpen n es (r @ w @ '','') []" if sep: "arrSep n es r"
  proof -
    obtain ts cs where a: "elemsGood n es cs" "cs \<noteq> []" "lexes r ts" "compactToks ts = ''['' @ Join (map fst cs) '',''"
      using sep unfolding arrSep_def by blast
    have "compactToks (ts @ [(w, TPunct CHR '','')]) = ''['' @ concat (map (\<lambda>c. fst c @ '','') cs)" using a(4) Join_comma [OF a(2), of fst] by simp
    then show ?thesis unfolding arrOpen_def using a(1) c [OF a(3)] by blast
  qed
  show "objOpen n ms (r @ w @ '','')" if sep: "objSep n ms r"
  proof -
    obtain ts cs where a: "membersGood n ms cs" "cs \<noteq> []" "lexes r ts" "compactToks ts = ''{'' @ Join (map memberText cs) '',''"
      using sep unfolding objSep_def by blast
    have "compactToks (ts @ [(w, TPunct CHR '','')]) = ''{'' @ concat (map (\<lambda>c. memberText c @ '','') cs)" using a(4) Join_comma [OF a(2), of memberText] by simp
    then show ?thesis unfolding objOpen_def using a(1) c [OF a(3)] by blast
  qed
qed

lemma close_arr_good:
  assumes "arrSep (length fs) es r \<or> es = [] \<and> arrOpen (length fs) es r []" "pendings fs" "list_all json_ws w"
    "closeFrame w (FArr es r # fs) = Some st"
  shows "stateGood st"
  using assms(4) finishValue_good [OF assms(2) good_array [OF assms(1,3)]] by (auto simp: topGood_def)

lemma close_obj_good:
  assumes "objSep (length fs) ms r \<or> ms = [] \<and> objOpen (length fs) ms r" "pendings fs" "list_all json_ws w"
    "closeFrame w (FObj ms k r # fs) = Some st"
  shows "stateGood st"
  using assms(4) finishValue_good [OF assms(2) good_object(1) [OF assms(1,3)]] good_object(2) [OF assms(1,3)] by auto

lemma stepToken_good: "stateGood st \<Longrightarrow> list_all json_ws w \<Longrightarrow> tokOk t \<Longrightarrow> stepToken st (w, t) = Some st' \<Longrightarrow> stateGood st'"
proof (induction st rule: stateGood.induct)
  case (1 fs)
  then show ?case using startValue_good by simp
next
  case (2 es r fs)
  then show ?case using startValue_good [of "FArr es r # fs" w t st'] close_arr_good [of fs es r w st'] by (auto split: if_splits simp del: closeFrame.simps)
next
  case (3 es r fs)
  then show ?case using comma_good(1) [of w "length fs" es r] close_arr_good [of fs es r w st'] by (auto split: if_splits simp del: closeFrame.simps)
next
  case (4 ms k r fs)
  then show ?case using keyToken_good [of fs ms r w t k st'] close_obj_good [of fs ms r w k st'] by (auto split: if_splits simp del: closeFrame.simps)
next
  case (5 ms k r fs)
  then show ?case using keyToken_good [of fs ms r w t k st'] by simp
next
  case (6 ms k r fs)
  then show ?case using colon_good by (auto split: if_splits)
next
  case (7 ms k r fs)
  then show ?case using comma_good(2) [of w "length fs" ms r] close_obj_good [of fs ms r w k st'] by (auto split: if_splits simp del: closeFrame.simps)
qed auto

lemma runTokens_good: "runTokens st ts = Some st' \<Longrightarrow> stateGood st \<Longrightarrow> tokensOk ts \<Longrightarrow> stateGood st'"
proof (induction ts arbitrary: st)
  case (Cons t ts)
  obtain w t' where t: "t = (w, t')" by (cases t)
  show ?case using Cons stepToken_good [of st w t'] by (auto simp: t split: Option.bind_splits)
qed simp

text \<open>Every member of a parsed object can be compacted and read again.\<close>

lemma parse_json_good: "parse_json s = Some v \<Longrightarrow> topGood v"
proof -
  assume "parse_json s = Some v"
  then obtain ts where ts: "lex s = Some ts" "runTokens ([], XValue) ts = Some ([], XEnd v)"
    by (auto simp: parse_json_def split: Option.bind_splits option.splits prod.splits list.splits expect.splits)
  have "tokensOk ts" using lex_from_ok [of "[]" s ts] ts(1) by (simp add: lex_def)
  then show ?thesis using runTokens_good [OF ts(2)] by simp
qed

end
