(* ===== verification/Model_Rewrite.thy ===== *)
theory Model_Rewrite
  imports Llm_Requests Json_Compact
begin

text \<open>
  The body that is sent to a fallback candidate (\<^verbatim>\<open>rewriteRequestModel\<close>): the request of the client with another
  model. A value is compared up to the white space and escapes of the text it was read from (\<open>plain\<close>).
\<close>

text \<open>The value of a key: of a repeated key the last member counts.\<close>

definition member :: "(string \<times> string \<times> json) list \<Rightarrow> string \<Rightarrow> json option" where
  "member ms k = map_option (\<lambda>(_, v). plain v) (map_of (rev ms) k)"

lemma fold_update_lookup:
  "map_of (fold (\<lambda>(k, raw, _) m. AList.update k raw m) ms acc) = map_of acc ++ (\<lambda>k. map_option fst (map_of (rev ms) k))"
proof (induction ms arbitrary: acc)
  case (Cons m ms)
  obtain k r v where m: "m = (k, r, v)" by (cases m)
  show ?case by (rule ext) (simp add: m Cons update_conv' map_add_def split: option.split)
qed (simp add: map_add_def)

lemma fold_update_distinct:
  "distinct (map fst acc) \<Longrightarrow> distinct (map fst (fold (\<lambda>(k, raw, _) m. AList.update k raw m) ms acc))"
  by (induction ms arbitrary: acc) (auto simp: distinct_update)

lemma map_of_sort_key: "distinct (map fst xs) \<Longrightarrow> map_of (sort_key fst xs) = map_of xs"
  by (rule map_of_eqI) (auto simp: map_of_eq_Some_iff distinct_map)

lemma map_of_rev_distinct: "distinct (map fst xs) \<Longrightarrow> map_of (rev xs) = map_of xs"
  by (rule map_of_eqI) (auto simp: map_of_eq_Some_iff distinct_map)

text \<open>The members that are written, with their values.\<close>

definition newMember :: "(string \<times> string \<times> json) list \<Rightarrow> string \<Rightarrow> string \<Rightarrow> (string \<times> json) option" where
  "newMember ms model k = (if k = ''model'' then Some (quote model, JStr (validText model)) else map_of (rev ms) k)"

lemma rewritePayload_lookup: "map_of (rewritePayload ms model) k = map_option fst (newMember ms model k)"
  by (simp add: rewritePayload_def map_of_sort_key distinct_update fold_update_distinct update_conv' fold_update_lookup newMember_def map_add_def split: option.split)

lemma rewritePayload_order:
  "sorted (map fst (rewritePayload ms model))" "distinct (map fst (rewritePayload ms model))"
proof -
  show "sorted (map fst (rewritePayload ms model))" by (simp add: rewritePayload_def)
  have "distinct (map fst (AList.update ''model'' (quote model) (fold (\<lambda>(k, raw, _) m. AList.update k raw m) ms [])))"
    by (simp add: distinct_update fold_update_distinct)
  then show "distinct (map fst (rewritePayload ms model))" unfolding rewritePayload_def by (auto simp: distinct_map)
qed

lemma newMember_good:
  assumes "topGood (JObj ms)" "newMember ms model k = Some (raw, v)"
  shows "validText k = k \<and> good (maxNestingDepth - 1) raw v"
proof (cases "k = ''model''")
  case True
  have "tokOk (TStr (quoteBody model))" using scanString_lit [OF scanString_quoteBody] by simp
  from good_scalar [OF this, of "JStr (validText model)"] show ?thesis
    using assms(2) True validText_ascii [of "''model''"] by (simp add: newMember_def unquote_quoteBody tok_raw_quoteBody)
next
  case False
  then have "(k, raw, v) \<in> set ms" using assms(2) by (auto simp: newMember_def dest: map_of_SomeD)
  then show ?thesis using assms(1) by (auto simp: topGood_def)
qed

lemma map_of_keys: "map_of (map (\<lambda>x. (fst x, f x)) xs) k = map_option (\<lambda>y. f (k, y)) (map_of xs k)"
  by (induction xs) auto

lemma payload_compact:
  assumes "topGood (JObj ms)" "x \<in> set (rewritePayload ms model)"
  shows "\<exists>y. compact (snd x) = Some (fst y) \<and> validText (fst x) = fst x \<and> reads (maxNestingDepth - 1) (fst y) (snd y) \<and>
    map_option (\<lambda>(_, v). plain v) (newMember ms model (fst x)) = Some (plain (snd y))"
proof -
  obtain k raw where x: "x = (k, raw)" by (cases x)
  have "map_of (rewritePayload ms model) k = Some raw" using assms(2) x rewritePayload_order(2) by simp
  then obtain v where v: "newMember ms model k = Some (raw, v)" unfolding rewritePayload_lookup by auto
  have k: "validText k = k" "good (maxNestingDepth - 1) raw v" using newMember_good [OF assms(1) v] by simp_all
  obtain q v' where "compact raw = Some q" "reads (maxNestingDepth - 1) q v'" "plain v' = plain v" using good_compact [OF k(2)] by blast
  then show ?thesis using v k(1) by (intro exI [of _ "(q, v')"]) (simp add: x)
qed

lemma member_payload:
  assumes "\<forall>x \<in> set (rewritePayload ms model). map_option (\<lambda>(_, v). plain v) (newMember ms model (fst x)) = Some (plain (snd (f x)))"
  shows "member (map (\<lambda>x. (fst x, f x)) (rewritePayload ms model)) k = map_option (\<lambda>(_, v). plain v) (newMember ms model k)"
proof -
  let ?p = "rewritePayload ms model"
  have "map_of (rev (map (\<lambda>x. (fst x, f x)) ?p)) k = map_option (\<lambda>raw. f (k, raw)) (map_of ?p k)"
    using rewritePayload_order(2) [of ms model] by (subst map_of_rev_distinct) (simp_all add: comp_def map_of_keys)
  then have m: "member (map (\<lambda>x. (fst x, f x)) ?p) k = map_option (\<lambda>raw. plain (snd (f (k, raw)))) (map_of ?p k)"
    by (simp add: member_def option.map_comp comp_def case_prod_unfold)
  show ?thesis
  proof (cases "map_of ?p k")
    case None
    then show ?thesis using m by (simp add: rewritePayload_lookup)
  next
    case (Some raw)
    then show ?thesis using m assms map_of_SomeD [OF Some] by fastforce
  qed
qed

text \<open>C15. A request that is sent on with the model of another candidate is still a JSON object: its member \<open>model\<close> is the new
  model, every other member has the value that the last member with its key had in the body of the client, no
  member is lost or added but for the model, and the members are in the order of their keys.\<close>

theorem rewrite_changes_only_model:
  assumes "parse_json rawBody = Some (JObj ms)"
  shows "\<exists>body ms'. rewriteRequestModel rawBody model = Inr body \<and> parse_json body = Some (JObj ms') \<and>
    sorted (map fst ms') \<and> distinct (map fst ms') \<and>
    (\<forall>k. member ms' k = (if k = ''model'' then Some (JStr (validText model)) else member ms k))"
proof -
  let ?p = "rewritePayload ms model"
  obtain f where f: "\<forall>x \<in> set ?p. compact (snd x) = Some (fst (f x)) \<and> validText (fst x) = fst x \<and> reads (maxNestingDepth - 1) (fst (f x)) (snd (f x)) \<and>
      map_option (\<lambda>(_, v). plain v) (newMember ms model (fst x)) = Some (plain (snd (f x)))"
    using payload_compact [OF parse_json_good [OF assms], of _ model] by metis
  define ms' where "ms' = map (\<lambda>x. (fst x, f x)) ?p"
  let ?body = "enc_obj (map (\<lambda>(k, q, v). (k, q)) ms')"
  have "map (\<lambda>(k, raw). (k, case compact raw of Some t \<Rightarrow> t | None \<Rightarrow> [])) ?p = map (\<lambda>(k, q, v). (k, q)) ms'"
    using f by (auto simp: ms'_def case_prod_unfold)
  then have body: "rewriteRequestModel rawBody model = Inr ?body" using assms by (simp add: rewriteRequestModel_def)
  have "map_of ?p ''model'' = Some (quote model)" unfolding rewritePayload_lookup by (simp add: newMember_def)
  then have ne: "ms' \<noteq> []" by (auto simp: ms'_def)
  have "\<forall>(k, q, v) \<in> set ms'. reads (maxNestingDepth - 1) q v" using f by (auto simp: ms'_def)
  then have "reads (Suc (maxNestingDepth - 1)) ?body (JObj (map (\<lambda>(k, q, v). (validText k, q, v)) ms'))" by (rule reads_enc_obj [OF ne])
  moreover have "map (\<lambda>(k, q, v). (validText k, q, v)) ms' = ms'" using f by (auto simp: ms'_def case_prod_unfold intro!: map_cong)
  ultimately have "reads (Suc (maxNestingDepth - 1)) ?body (JObj ms')" by (simp only:)
  then have parse: "parse_json ?body = Some (JObj ms')" by (rule parse_json_reads) (simp add: maxNestingDepth_def)
  have keys: "map fst ms' = map fst ?p" by (simp add: ms'_def comp_def)
  have "member ms' k = map_option (\<lambda>(_, v). plain v) (newMember ms model k)" for k
    unfolding ms'_def by (rule member_payload) (use f in blast)
  then have "\<forall>k. member ms' k = (if k = ''model'' then Some (JStr (validText model)) else member ms k)"
    by (simp add: newMember_def member_def)
  then show ?thesis using body parse rewritePayload_order [of ms model] unfolding keys [symmetric] by blast
qed

definition demoBody :: string where
  \<open>demoBody = ''{"stream": false, "model": "a", "stream":true}''\<close>

theorem rewrite_changes_only_model_witness:
  "\<exists>body ms'. rewriteRequestModel demoBody ''b'' = Inr body \<and> parse_json body = Some (JObj ms') \<and>
     member ms' ''model'' = Some (JStr ''b'') \<and> member ms' ''stream'' = Some (JBool True) \<and> member ms' ''user'' = None"
proof -
  let ?ms = \<open>[(''stream'', ''false'', JBool False), (''model'', ''"a"'', JStr ''a''), (''stream'', ''true'', JBool True)]\<close>
  have p: "parse_json demoBody = Some (JObj ?ms)" by code_simp
  have "validText ''b'' = ''b''" by (rule validText_ascii) simp
  moreover have "member ?ms ''stream'' = Some (JBool True)" "member ?ms ''user'' = None" by (simp_all add: member_def)
  ultimately show ?thesis using rewrite_changes_only_model [OF p, of "''b''"] by auto
qed

end
