(* ===== verification/Spec2Isabelle.thy ===== *)
theory Spec2Isabelle
  imports Lifecycle Probes Config_Load Model_Rewrite
begin

text \<open>
  \<^bold>\<open>Verification of the LLM gateway.\<close>

  The program under \<^verbatim>\<open>src/\<close> is an HTTP gateway in front of several backends for large language models,
  written in Go. A chat request passes, from the outside in, the OpenTelemetry handler, the tracing
  middleware with its access log, the router, the API-key authenticator, the rate limiter per user, the token budget,
  the concurrency limiter and the chat handler. The chat handler walks the chain of fallback models; each
  attempt asks the circuit breaker of the backend for a permit, sends the request, relays a plain or a
  streamed answer and settles the permit. Beside the models the gateway serves health, readiness,
  metrics, profiling and admin pages. The process loads a configuration, builds the application,
  serves until a signal arrives and stops gracefully.

  \<^bold>\<open>Conventions.\<close> Go strings are lists of bytes; \<open>int\<close> and \<open>int64\<close> are \<open>int\<close> with \<open>wrap64\<close> written where
  they may overflow; counters of metrics are 64-bit words; a point in time or a duration is a number of
  nanoseconds; a floating-point number is the rational number it denotes, and every operation on such numbers is followed by
  the rounding of IEEE 754. A map that is iterated is an association list
  in the order of the iteration, a map that is only looked up is a HOL map. A pointer that may be nil is an \<open>option\<close>.
  Errors are values of sum or option types, a panic is \<open>None\<close> in a constructor and a mark on the response
  writer in a handler. A handler is a function from the state, the request and the writer to the state
  and the writer; a middleware is a function on handlers. Text outside ASCII is given by code points.
  Everything that is not under \<^verbatim>\<open>src/\<close> and is not the language or its standard library is a parameter: the token buckets of
  \<^verbatim>\<open>golang.org/x/time/rate\<close>, the OpenTelemetry SDK, \<^verbatim>\<open>otelhttp\<close>, Prometheus with its registry; so are the network, clocks,
  random bytes, environment variables and files.

  \<^bold>\<open>Theories and sources.\<close>

  \<^item> \<open>Gateway_Prelude\<close>, \<open>Go_Strings\<close>, \<open>Go_Float\<close>, \<open>Go_Net\<close>, \<open>Go_Json\<close>, \<open>Http_Model\<close>, \<open>Go_Mux\<close>, \<open>Sha256\<close>: what is used of Go and its
    standard library: 64-bit arithmetic, \<^verbatim>\<open>float64\<close> with its rounding and error bounds, \<^verbatim>\<open>strings\<close>, \<^verbatim>\<open>net\<close>, \<^verbatim>\<open>net/url\<close>, \<^verbatim>\<open>encoding/json\<close> (a lexer and a
    machine with a stack, decoders that write over existing values), headers, requests, response writers,
    \<^verbatim>\<open>path.Clean\<close>, \<^verbatim>\<open>http.ServeMux\<close> and the hash function. \<open>Go_Mux\<close> has the locale \<open>effect\<close>: a relation
    on states that every registered handler obeys is obeyed by the router. \<open>Json_Laws\<close> shows that what the
    encoder writes is read back, in particular the error responses of all packages (\<^verbatim>\<open>response.go\<close> and its copies);
    \<open>Json_Compact\<close> that a compacted value is read as the same value, by an invariant of the parser.
  \<^item> \<open>Config_Types\<close>, \<open>Config_Load\<close>, \<open>Config_Validate\<close> (\<^verbatim>\<open>internal/config\<close>): the structs and defaults, durations
    and the decoding of the file over the defaults, and every check of \<^verbatim>\<open>Validate\<close> with its error. Shown: validation accepts exactly the
    consistent sets of backends, models and fallbacks (no cycle, no unknown model) and of API keys; what
    \<^verbatim>\<open>Load\<close> returns is valid; durations are read back.
  \<^item> \<open>Budget\<close>, \<open>Budget_Machine\<close> (\<^verbatim>\<open>internal/tokenusage/budget.go\<close>): accounts, windows and reservations, and the
    machine of all interleavings of the operations, in which a reservation may use a clock reading that has grown up to a
    time \<open>\<delta>\<close> old while it waited for the mutex. Shown, as long as no counter wraps and for windows that, with twice \<open>\<delta>\<close>, are no
    longer than the idle time of an account: the budget is never exceeded, a reservation is
    granted exactly when it fits, what is reserved is exactly what open reservations hold; for any window, nothing stays
    reserved once all are settled.
  \<^item> \<open>Token_Usage\<close>, \<open>Token_Middleware\<close> (the rest of \<^verbatim>\<open>internal/tokenusage\<close>): estimates and usage of plain and streamed
    responses, and the middleware. Shown: what is reserved and charged, and that every reservation is settled
    whatever the handler does.
  \<^item> \<open>Circuit_Breaker\<close>, \<open>Fallback\<close>, \<open>Sse\<close>, \<open>Llm_Requests\<close>, \<open>Model_Rewrite\<close>, \<open>Proxy\<close> (\<^verbatim>\<open>internal/llm\<close>): one circuit per backend, which
    refines an abstract state machine; the candidate chain as a depth-first search; server-sent events;
    requests, mock answers and the attempts at the candidates. Shown: legal circuits in every reachable
    state, opening at the threshold, transparent relaying, that a rewritten request differs from the client's in
    its model only, one settlement per permit, and that the requests
    sent follow the chain until a candidate is served.
  \<^item> \<open>Auth\<close>, \<open>Limiters\<close>, \<open>Response_Writers\<close>, \<open>Tracing\<close>, \<open>Observability\<close> (\<^verbatim>\<open>internal/auth\<close>, \<^verbatim>\<open>ratelimit\<close>, \<^verbatim>\<open>concurrency\<close>,
    \<^verbatim>\<open>tracing\<close>, \<^verbatim>\<open>observability\<close>): keys and identities, the two limiters (the concurrency limiter under any
    interleaving), the wrapped writers, trace identifiers and headers, metrics and health.
  \<^item> \<open>Telemetry\<close>, \<open>Admin\<close> (\<^verbatim>\<open>internal/telemetry\<close>, \<^verbatim>\<open>internal/admin\<close>): exporters, providers, the fan-out logger, the
    propagator of the older headers; static pages and the state of the observability services.
  \<^item> \<open>App\<close> (\<^verbatim>\<open>internal/app/app.go\<close> and the \<^verbatim>\<open>Register\<close> functions): all components on one state record, composed as
    \<^verbatim>\<open>New\<close> composes them. The locale \<open>gateway_effect\<close> extends \<open>effect\<close> with what the middlewares need. Shown: a valid
    configuration starts, if Prometheus accepts the names of its metrics; only an authenticated chat request spends anything; every request
    returns its slot. \<open>Probes\<close> extends the locale once more (\<open>gateway_free\<close>): after any sequence of requests no probe
    of a half-open circuit is taken.
  \<^item> \<open>Lifecycle\<close> (\<^verbatim>\<open>internal/app/lifecycle.go\<close>, \<^verbatim>\<open>cmd/gateway/main.go\<close>): \<^verbatim>\<open>Run\<close> as a machine of two
    threads with named actions, the command line and the exit code. The locale \<open>action_system\<close> has the rule for weakly fair
    actions. Shown: readiness, graceful results, that the shutdown ends by the program's own actions, that a gateway that is
    told to stop stops whatever its clients do, and what the exit code says.
  \<^item> This theory: properties of the token budget together with the proxy.

  \<^bold>\<open>Termination and bounds.\<close> No definition uses fuel. Recursions that are not structural have a measure: the length of
  the text that is left, the models not visited yet, the events that are left. The loops over the network are functions of the
  finite list of answers or waits of the environment. \<open>Lifecycle.shutdown_ends\<close> bounds the program's own actions after
  the \<^verbatim>\<open>select\<close> by five.

  \<^bold>\<open>Behaviour that is probably not intended.\<close> Some theorems show what the code does where it does not seem to be meant: the
  idle clean-up forgets what was used in a window longer than two days; more probes than configured can
  be in flight in a half-open circuit; a late success closes an open circuit; a body with a limit that is not an integer
  bypasses the token budget; a response that was never sent is charged; fields missing from the first two backends of a
  file are those of the default mock backends.

  \<^bold>\<open>Not modelled.\<close> What the server does on \<^verbatim>\<open>Hijack\<close> and \<^verbatim>\<open>Push\<close>, which no handler calls; spans and
  their attributes; the texts of log records; \<^verbatim>\<open>net/http/pprof\<close>, the file server and the embedded pages behind
  their routes; data races inside a component, whose operations change it under its mutex and are single steps here;
  the redirects that the HTTP client follows inside one call of \<^verbatim>\<open>Do\<close>; floating-point overflow, which no computation of the
  gateway reaches; signals before the handler is installed.
\<close>

section \<open>Token budget and proxy\<close>

text \<open>A chat request whose completion limit is not an integer.\<close>

definition bypassBody :: string where
  \<open>bypassBody = ''{"model":"m","messages":[{"role":"user","content":"hi"}],"max_tokens":0.5}''\<close>

lemma bypass_not_estimated: "decPayload bypassBody = None"
  by code_simp

lemma bypass_is_chat: "map_option (\<lambda>q. (cr_Model q, items (cr_Messages q) = [])) (decChatRequest bypassBody) = Some (''m'', False)"
  by code_simp

text \<open>C39. A chat request with a completion limit that is not an integer is not metered at all: the token middleware hands
  it to the next handler whatever the state of the budget, while the handler of the models accepts its body as a
  chat request.\<close>

theorem budget_bypass:
  "tokenMiddleware onM clk nxt (Some l, s) (r\<lparr>rq_Method := ''POST'', rq_Body := bypassBody\<rparr>) w =
     nxt (Some l, s) (r\<lparr>rq_Method := ''POST'', rq_Body := bypassBody\<rparr>) w \<and>
   (\<exists>q. decChatRequest bypassBody = Some q \<and> cr_Model q = ''m'' \<and> items (cr_Messages q) \<noteq> [])"
proof
  have "readBody maxRequestBodyBytes (r\<lparr>rq_Method := ''POST'', rq_Body := bypassBody\<rparr>) = Some bypassBody"
    by (simp add: readBody_def maxRequestBodyBytes_def bypassBody_def)
  then show "tokenMiddleware onM clk nxt (Some l, s) (r\<lparr>rq_Method := ''POST'', rq_Body := bypassBody\<rparr>) w =
     nxt (Some l, s) (r\<lparr>rq_Method := ''POST'', rq_Body := bypassBody\<rparr>) w"
    by (simp add: tokenEnter_def estimateRequest_def bypass_not_estimated restoreRequestBody_def)
  show "\<exists>q. decChatRequest bypassBody = Some q \<and> cr_Model q = ''m'' \<and> items (cr_Messages q) \<noteq> []"
    using bypass_is_chat by auto
qed

lemma empty_body_estimate: "usageFromJSONResponse [] e = re_Usage e"
  by code_simp

text \<open>C40. A request that ends without a response, as the proxy leaves it when the client goes away before the first token,
  is charged with the whole estimate: the capturing writer reports the status 200 although nothing was sent.\<close>

theorem silent_response_is_charged:
  assumes "tokenEnter onM clk l s r w = (lp, s1, Inr (Some m, r1, w1))"
    and "nxt (lp, s1) r1 w1 = ((Some l2, s2), w1)" and "window l2 \<noteq> 0"
    and "\<not> rw_panic (writerBase w1)" and "hGet (headerOf w1) ''Content-Type'' = []"
  shows "\<exists>l3 s3 below rsv. tokenMiddleware onM clk nxt (Some l, s) r w = ((Some l3, s3), below) \<and> mt_reservation m = Some rsv \<and>
    ledger l3 = put (ledger l2) (mt_identity m) (res_windowID rsv)
      (let b = freeReserved (ledger l2 (mt_identity m) (res_windowID rsv)) (res_tokens rsv) in b\<lparr>used := wrap64 (used b + res_tokens rsv)\<rparr>)"
proof -
  obtain rsv where rsv: "mt_reservation m = Some rsv" "\<not> res_done rsv" "res_identity rsv = mt_identity m"
    "res_tokens rsv = u_TotalTokens (re_Usage (mt_estimate m))" "1 \<le> u_TotalTokens (re_Usage (mt_estimate m))"
    using tokenEnter_metered [OF assms(1)] by blast
  obtain w0 where w1: "w1 = newCaptureWriter w0 maxResponseBodyBytes"
    using assms(1) by (auto simp: tokenEnter_def Let_def split: if_splits option.splits)
  define c where "c = \<lparr>cw_status = 0, cw_body = [], cw_limit = maxResponseBodyBytes, cw_written = False, cw_truncated = False\<rparr>"
  have w1': "w1 = Capturing c w0" by (simp add: w1 c_def newCaptureWriter_def)
  have "chargedTokens m c w0 = res_tokens rsv"
    using assms(5) rsv(4) by (simp add: w1' chargedTokens_def usageFromResponseBody_def c_def empty_body_estimate ToLower.simps Contains.simps)
  moreover have "succeeded c w0" using assms(4) by (simp add: w1' succeeded_def c_def captureStatus_def)
  moreover have "tokenMiddleware onM clk nxt (Some l, s) r w = tokenLeave onM clk m l2 s2 c w0"
    using assms(1,2) by (simp add: w1')
  ultimately show ?thesis
    using tokenLeave_ledger [OF rsv(1,2) assms(3) rsv(5), of onM clk s2 c w0] rsv(1,3) by auto
qed

theorem silent_response_is_charged_witness:
  "\<exists>l3 s3 below. tokenMiddleware (\<lambda>_ s. s) tinyClock (\<lambda>s r w. (s, w)) (Some (NewBudgetLimiter (demoBudgetCfg minute)), ()) tinyRequest
      (Server (newServerWriter [])) = ((Some l3, s3), below) \<and> ledger l3 ''alice'' 0 = \<lparr>used = 3, reserved = 0\<rparr>"
proof -
  let ?w = "Server (newServerWriter [])"
  obtain l1 snap where enter: "tokenEnter (\<lambda>_ s. s) tinyClock (NewBudgetLimiter (demoBudgetCfg minute)) () tinyRequest ?w =
      (Some l1, (), Inr (Some tinyMetered, tinyRequest, newCaptureWriter (onHeader (writeBudgetHeaders snap) ?w) maxResponseBodyBytes))"
    and l1: "window l1 \<noteq> 0" "ledger l1 ''alice'' 0 = \<lparr>used = 0, reserved = 3\<rparr>"
    using tiny_enter by blast
  let ?cw = "newCaptureWriter (onHeader (writeBudgetHeaders snap) ?w) maxResponseBodyBytes"
  have "\<not> rw_panic (writerBase ?cw)" by (simp add: newCaptureWriter_def newServerWriter_def)
  moreover have "hGet (headerOf ?cw) ''Content-Type'' = []"
  proof -
    have keys: "CanonicalHeaderKey ''Content-Type'' \<noteq> CanonicalHeaderKey ''X-Token-Budget-Reset''"
      "CanonicalHeaderKey ''Content-Type'' \<noteq> CanonicalHeaderKey ''X-Token-Budget-Remaining''"
      "CanonicalHeaderKey ''Content-Type'' \<noteq> CanonicalHeaderKey ''X-Token-Budget-Limit''" by code_simp+
    have "hGet [] ''Content-Type'' = []" by (simp add: hGet_def headerValues_def)
    then show ?thesis using keys by (simp add: newCaptureWriter_def writeBudgetHeaders_def newServerWriter_def headerOf_def)
  qed
  ultimately show ?thesis
    using silent_response_is_charged [where nxt = "\<lambda>s r w. (s, w)", OF enter refl l1(1)] l1(2)
    by (auto simp: freeReserved_def wrap64_def tinyMetered_def)
qed

end
